(* ===== verification/Prelude.thy ===== *)
theory Prelude
  imports Main "HOL-Library.Word"
begin

text \<open>
  Shared vocabulary of the development: bytes and C strings, C++ chains of boolean
  operations over a state, and the lemma collections the component theories extend.

  A C++ \<open>char\<close> or \<open>std::uint8_t\<close> buffer is a list of 8-bit \<open>char\<close>s. A \<open>const char*\<close> that may
  be null is a \<open>bytes option\<close>; what the C library sees of a non-null pointer is the part
  before the first NUL (\<open>cstr\<close>).
\<close>

section \<open>Collections and type names\<close>

named_theorems limits \<open>the compile-time constants of support/Limits.h\<close>
named_theorems builder \<open>definitions of the functions that serialise one outbound line\<close>
named_theorems frame_simps \<open>which fields an operation leaves alone\<close>

type_synonym bytes = "char list"
type_synonym c_string = "char list option"   \<comment> \<open>\<open>const char*\<close>; None is nullptr\<close>
type_synonym u8 = "8 word"
type_synonym u16 = "16 word"
type_synonym u32 = "32 word"
type_synonym u64 = "64 word"
type_synonym i32 = "32 word"
type_synonym f64 = "64 word"                 \<comment> \<open>the bit pattern of an IEEE-754 double\<close>

abbreviation NUL :: char where "NUL \<equiv> CHR 0x00"
abbreviation LF :: char where "LF \<equiv> CHR 0x0A"
abbreviation QUOTE :: char where "QUOTE \<equiv> CHR 0x22"
abbreviation BACKSLASH :: char where "BACKSLASH \<equiv> CHR 0x5C"

lemma unat_u64_less: "unat (w :: u64) < 2 ^ 64"
  using unsigned_less [of w, where 'a = nat] by simp

lemma unat_word_small: "m < 2 ^ 64 \<Longrightarrow> unat (word_of_nat m :: u64) = m"
  by (simp add: unsigned_of_nat take_bit_nat_eq_self)

section \<open>C strings\<close>

definition cstr :: "bytes \<Rightarrow> bytes" where
  "cstr s = takeWhile (\<lambda>c. c \<noteq> NUL) s"

definition strcmp_eq :: "bytes \<Rightarrow> bytes \<Rightarrow> bool" where
  "strcmp_eq a b \<longleftrightarrow> cstr a = cstr b"

definition nul_free :: "bytes \<Rightarrow> bool" where
  "nul_free s \<longleftrightarrow> NUL \<notin> set s"

lemma cstr_nul_free [simp]: "nul_free s \<Longrightarrow> cstr s = s"
  by (auto simp: cstr_def nul_free_def takeWhile_eq_all_conv)

lemma nul_free_cstr [simp, intro]: "nul_free (cstr s)"
  by (auto simp: cstr_def nul_free_def dest: set_takeWhileD)

lemma cstr_cstr [simp]: "cstr (cstr s) = cstr s"
  by simp

lemma length_cstr_le: "length (cstr s) \<le> length s"
  by (simp add: cstr_def length_takeWhile_le)

lemma nul_free_Nil [simp]: "nul_free []"
  by (simp add: nul_free_def)

lemma nul_free_Cons [simp]: "nul_free (c # s) \<longleftrightarrow> c \<noteq> NUL \<and> nul_free s"
  by (auto simp: nul_free_def)

lemma nul_free_append [simp]: "nul_free (s @ t) \<longleftrightarrow> nul_free s \<and> nul_free t"
  by (auto simp: nul_free_def)

lemma nul_free_concat: "nul_free (concat ss) \<longleftrightarrow> (\<forall>s \<in> set ss. nul_free s)"
  by (auto simp: nul_free_def)

text \<open>
  The bounded scan \<open>while (length <= capacity && source[length] != '\0') ++length\<close> that
  CommandRegistry, EstopHandler and ServiceLoop each contain: it stops at the first NUL, and
  one past \<open>capacity\<close> at the latest. The byte after the list is the terminator.
\<close>

fun scan_length :: "nat \<Rightarrow> bytes \<Rightarrow> nat" where
  "scan_length n [] = 0"
| "scan_length 0 (c # s) = (if c = NUL then 0 else 1)"
| "scan_length (Suc n) (c # s) = (if c = NUL then 0 else Suc (scan_length n s))"

lemma scan_length_eq: "scan_length n s = min (length (cstr s)) (Suc n)"
  by (induction n s rule: scan_length.induct) (auto simp: cstr_def)

lemma scan_length_le_iff: "scan_length n s \<le> n \<longleftrightarrow> length (cstr s) \<le> n"
  by (auto simp: scan_length_eq)

lemma take_length_cstr: "take (length (cstr s)) s = cstr s"
  by (induction s) (auto simp: cstr_def)

section \<open>Chains of boolean operations\<close>

text \<open>
  An operation that changes a state and reports success. C++ writes chains of them as
  \<open>a() && b() && c()\<close> or as \<open>if (!a() || !b() || !c()) return false\<close>: each runs only when all
  before it succeeded, and the state keeps what the ones that ran did.
\<close>

type_synonym 's act = "'s \<Rightarrow> bool \<times> 's"

fun run_all :: "'s act list \<Rightarrow> 's act" where
  "run_all [] s = (True, s)"
| "run_all (f # fs) s = (case f s of (ok, s') \<Rightarrow> if ok then run_all fs s' else (False, s'))"

lemma run_all_append:
  "run_all (fs @ gs) s =
     (case run_all fs s of (ok, s') \<Rightarrow> if ok then run_all gs s' else (False, s'))"
  by (induction fs arbitrary: s) (auto split: prod.splits)

lemma run_all_single [simp]: "run_all [f] s = f s"
  by (cases "f s") simp

lemma run_all_concat: "run_all (map run_all fss) s = run_all (concat fss) s"
  by (induction fss arbitrary: s) (auto simp: run_all_append split: prod.splits)

lemma run_all_preserves:
  assumes "\<And>f s. f \<in> set fs \<Longrightarrow> P s \<Longrightarrow> P (snd (f s))" and "P s"
  shows "P (snd (run_all fs s))"
  using assms
proof (induction fs arbitrary: s)
  case Nil
  then show ?case by simp
next
  case (Cons f fs)
  obtain ok s' where eq: "f s = (ok, s')" by (cases "f s")
  from Cons.prems(1) [of f s] Cons.prems(2) eq have "P s'" by simp
  then have "P (snd (run_all fs s'))" using Cons.prems(1) by (intro Cons.IH) auto
  with \<open>P s'\<close> eq show ?case by simp
qed

definition lift_act :: "('t \<Rightarrow> 's) \<Rightarrow> ('s \<Rightarrow> 't \<Rightarrow> 't) \<Rightarrow> 's act \<Rightarrow> 't act" where
  "lift_act get put f t = (case f (get t) of (ok, s) \<Rightarrow> (ok, put s t))"

section \<open>Partial calls\<close>

text \<open>
  A call that may not return is an option, None for one that does not. The rules push \<open>returns\<close>
  through the sequencing the model uses.
\<close>

definition returns :: "'a option \<Rightarrow> bool" where
  "returns x \<longleftrightarrow> x \<noteq> None"

lemma returns_Some [simp]: "returns (Some y)" "\<not> returns None"
  by (simp_all add: returns_def)

lemma returns_bind [simp]:
  "returns (case x of None \<Rightarrow> None | Some y \<Rightarrow> g y) \<longleftrightarrow> returns x \<and> (\<forall>y. x = Some y \<longrightarrow> returns (g y))"
  by (cases x) simp_all

lemma returns_iff: "returns x \<longleftrightarrow> (\<exists>y. x = Some y)"
  by (auto simp: returns_def)

end
