(* ===== verification/Limits.thy ===== *)
theory Limits
  imports Prelude
begin

text \<open>
  The compile-time constants of \<open>src/support/Limits.h\<close> that the code uses, under their
  source names. They are collected in \<open>limits\<close> so that bounds evaluate.
\<close>

definition kBoardRxMaxLineBytes :: nat where [limits]: "kBoardRxMaxLineBytes = 1024"
definition kBoardTxMaxLineBytes :: nat where [limits]: "kBoardTxMaxLineBytes = 8192"

definition kSchemaJsonBufferBytes :: nat where
  [limits]: "kSchemaJsonBufferBytes = kBoardTxMaxLineBytes"
definition kResponseJsonBufferBytes :: nat where
  [limits]: "kResponseJsonBufferBytes = kBoardTxMaxLineBytes"
definition kTelemetryJsonBufferBytes :: nat where
  [limits]: "kTelemetryJsonBufferBytes = kBoardTxMaxLineBytes"
definition kEventJsonBufferBytes :: nat where
  [limits]: "kEventJsonBufferBytes = kBoardTxMaxLineBytes"
definition kHeartbeatJsonBufferBytes :: nat where
  [limits]: "kHeartbeatJsonBufferBytes = kBoardTxMaxLineBytes"

definition kOutboundCriticalQueueCapacity :: nat where
  [limits]: "kOutboundCriticalQueueCapacity = 4"
definition kOutboundCancellationBatchCapacity :: nat where
  [limits]: "kOutboundCancellationBatchCapacity = kOutboundCriticalQueueCapacity + 1"
definition kOutboundCriticalEntryMaxBytes :: nat where
  [limits]: "kOutboundCriticalEntryMaxBytes = kBoardTxMaxLineBytes"

definition kResponseEnvelopeReserveBytes :: nat where
  [limits]: "kResponseEnvelopeReserveBytes = 512"
definition kMaxResultPayloadBytes :: nat where
  [limits]: "kMaxResultPayloadBytes = kBoardTxMaxLineBytes - kResponseEnvelopeReserveBytes"
definition kMaxErrorMessageBytes :: nat where [limits]: "kMaxErrorMessageBytes = 160"
definition kMaxDoubleLiteralBytes :: nat where [limits]: "kMaxDoubleLiteralBytes = 32"
definition kMaxIntLiteralBytes :: nat where [limits]: "kMaxIntLiteralBytes = 16"
definition kMaxUInt64LiteralBytes :: nat where [limits]: "kMaxUInt64LiteralBytes = 24"
definition kMaxJsonNestingDepth :: nat where [limits]: "kMaxJsonNestingDepth = 8"

definition kTelemetryPeriodMs :: u64 where [limits]: "kTelemetryPeriodMs = 50"
definition kTransmitDeadlineMs :: u64 where [limits]: "kTransmitDeadlineMs = 100"
definition kTelemetryDeadlineFailuresToTeardown :: u8 where
  [limits]: "kTelemetryDeadlineFailuresToTeardown = 10"
definition kHookBudgetMs :: u64 where [limits]: "kHookBudgetMs = 100"
definition kNetworkInitRetryMs :: u64 where [limits]: "kNetworkInitRetryMs = 1000"

definition kMaxRegisteredCommands :: nat where [limits]: "kMaxRegisteredCommands = 16"
definition kMaxArgsPerCommand :: nat where [limits]: "kMaxArgsPerCommand = 8"

definition kMaxBoardIdBytes :: nat where [limits]: "kMaxBoardIdBytes = 48"
definition kMaxProtocolVersionBytes :: nat where [limits]: "kMaxProtocolVersionBytes = 8"
definition kMaxFirmwareVersionBytes :: nat where [limits]: "kMaxFirmwareVersionBytes = 32"
definition kMaxCommandNameBytes :: nat where [limits]: "kMaxCommandNameBytes = 48"
definition kMaxArgNameBytes :: nat where [limits]: "kMaxArgNameBytes = 48"
definition kMaxFieldNameBytes :: nat where [limits]: "kMaxFieldNameBytes = 48"
definition kMaxTelemetryFields :: nat where [limits]: "kMaxTelemetryFields = 24"
definition kMaxStateFields :: nat where [limits]: "kMaxStateFields = 24"
definition kEstopTriggeredReasonMaxBytes :: nat where
  [limits]: "kEstopTriggeredReasonMaxBytes = 160"

end
