(* ===== verification/Counters.thy ===== *)
theory Counters
  imports Prelude
begin

text \<open>
  The local counters of \<open>src/core/Counters.h\<close>: 32-bit fields that wrap. A pointer to member
  (\<open>&Counters::tx_failures\<close>) is the update function of the field.
\<close>

record counters =
  sessions_accepted :: u32
  sessions_rejected :: u32
  sessions_superseded :: u32
  schemas_sent :: u32
  commands_received :: u32
  commands_ok :: u32
  commands_error :: u32
  unknown_commands :: u32
  invalid_arguments :: u32
  invalid_json :: u32
  invalid_targets :: u32
  oversized_lines :: u32
  telemetry_sent :: u32
  telemetry_coalesced :: u32
  telemetry_dropped :: u32
  estop_received :: u32
  estop_ack_sent :: u32
  estop_apply_failed :: u32
  estop_hook_over_budget :: u32
  controller_loss_hook_over_budget :: u32
  heartbeat_received :: u32
  heartbeat_ack_sent :: u32
  tx_failures :: u32
  controller_disconnects :: u32

type_synonym counter_field = "(u32 \<Rightarrow> u32) \<Rightarrow> counters \<Rightarrow> counters"

definition increment :: "counter_field \<Rightarrow> counters \<Rightarrow> counters" where
  [simp]: "increment field c = field (\<lambda>v. v + 1) c"

definition zero_counters :: counters where
  "zero_counters =
     \<lparr>sessions_accepted = 0, sessions_rejected = 0, sessions_superseded = 0, schemas_sent = 0,
      commands_received = 0, commands_ok = 0, commands_error = 0, unknown_commands = 0,
      invalid_arguments = 0, invalid_json = 0, invalid_targets = 0, oversized_lines = 0,
      telemetry_sent = 0, telemetry_coalesced = 0, telemetry_dropped = 0, estop_received = 0,
      estop_ack_sent = 0, estop_apply_failed = 0, estop_hook_over_budget = 0,
      controller_loss_hook_over_budget = 0, heartbeat_received = 0, heartbeat_ack_sent = 0,
      tx_failures = 0, controller_disconnects = 0\<rparr>"

end
