(* ===== verification/LineFramer.thy ===== *)
theory LineFramer
  imports Limits Counters
begin

text \<open>
  The receive framer of \<open>src/core/LineFramer.h\<close>. It cuts the byte stream of a session into
  lines at the newline, holds one line for the parser (\<open>active\<close>) and at most one more behind it
  (\<open>pending\<close>), and drops a line that is too long.

  \<open>lf_active\<close> and \<open>lf_pending\<close> are the payloads \<open>active_line_[0 .. active_length_)\<close> and
  \<open>pending_line_[0 .. pending_length_)\<close>; \<open>lf_accumulator\<close> is \<open>pending_line_[0 .. accumulator_length_)\<close>,
  the part of the current line seen so far. The pending buffer serves both: while a pending line
  is held, no byte is accumulated.
\<close>

section \<open>State and operations\<close>

record line_framer =
  lf_active :: bytes
  lf_pending :: bytes
  lf_accumulator :: bytes
  lf_active_ready :: bool
  lf_active_acquired :: bool
  lf_pending_ready :: bool
  lf_discard :: bool

definition kMaxPayloadBytes :: nat where [limits]: "kMaxPayloadBytes = kBoardRxMaxLineBytes - 1"

definition new_framer :: line_framer where
  "new_framer =
     \<lparr>lf_active = [], lf_pending = [], lf_accumulator = [], lf_active_ready = False,
      lf_active_acquired = False, lf_pending_ready = False, lf_discard = False\<rparr>"

definition hasLine :: "line_framer \<Rightarrow> bool" where
  "hasLine f \<longleftrightarrow> lf_active_ready f \<and> \<not> lf_active_acquired f"

definition acquireLine :: "line_framer \<Rightarrow> bytes option \<times> line_framer" where
  "acquireLine f =
     (if lf_active_acquired f \<or> \<not> lf_active_ready f then (None, f)
      else (Some (lf_active f), f\<lparr>lf_active_acquired := True\<rparr>))"

definition promotePendingIfPossible :: "line_framer \<Rightarrow> line_framer" where
  "promotePendingIfPossible f =
     (if \<not> lf_pending_ready f \<or> lf_active_ready f \<or> lf_active_acquired f then f
      else f\<lparr>lf_active := lf_pending f, lf_active_ready := True,
             lf_pending_ready := False, lf_pending := []\<rparr>)"

definition releaseLine :: "line_framer \<Rightarrow> line_framer" where
  "releaseLine f =
     (if \<not> lf_active_acquired f then f
      else promotePendingIfPossible
             (f\<lparr>lf_active_acquired := False, lf_active_ready := False, lf_active := []\<rparr>))"

definition closeSession :: "line_framer \<Rightarrow> line_framer" where
  "closeSession f =
     f\<lparr>lf_active_ready := False, lf_active_acquired := False, lf_active := [],
       lf_pending_ready := False, lf_pending := [],
       lf_accumulator := [], lf_discard := False\<rparr>"

definition completeAccumulatedLine :: "line_framer \<Rightarrow> line_framer" where
  "completeAccumulatedLine f =
     promotePendingIfPossible
       (f\<lparr>lf_pending := lf_accumulator f, lf_accumulator := [], lf_pending_ready := True\<rparr>)"

definition discardPartialLine :: "line_framer \<Rightarrow> line_framer" where
  "discardPartialLine f = f\<lparr>lf_accumulator := [], lf_discard := False\<rparr>"

text \<open>The body of the loop of \<open>append\<close>, for one byte that is consumed.\<close>

definition append_byte :: "char \<Rightarrow> counters \<times> line_framer \<Rightarrow> counters \<times> line_framer" where
  "append_byte byte s =
     (case s of (c, f) \<Rightarrow>
        if lf_discard f then
          (if byte = LF then (c, f\<lparr>lf_discard := False\<rparr>) else (c, f))
        else if byte = LF then (c, completeAccumulatedLine f)
        else if length (lf_accumulator f) = kMaxPayloadBytes then
          (increment oversized_lines_update c, f\<lparr>lf_accumulator := [], lf_discard := True\<rparr>)
        else (c, f\<lparr>lf_accumulator := lf_accumulator f @ [byte]\<rparr>))"

text \<open>\<open>append\<close> returns how many bytes it consumed; it stops while a pending line is held.\<close>

fun append_framer :: "bytes \<Rightarrow> counters \<times> line_framer \<Rightarrow> nat \<times> counters \<times> line_framer" where
  "append_framer [] s = (0, s)"
| "append_framer (b # bs) s =
     (if lf_pending_ready (snd s) then (0, s)
      else case append_framer bs (append_byte b s) of (n, s') \<Rightarrow> (Suc n, s'))"

section \<open>Specification: cutting a stream into lines\<close>

text \<open>
  \<open>cut acc s\<close> gives the complete lines of a stream, without their newlines, and what follows the
  last newline; \<open>acc\<close> is the part of the first line already seen. \<open>lines\<close> and \<open>partial\<close> read a
  whole stream.
\<close>

fun cut :: "bytes \<Rightarrow> bytes \<Rightarrow> bytes list \<times> bytes" where
  "cut acc [] = ([], acc)"
| "cut acc (b # bs) =
     (if b = LF then (case cut [] bs of (ls, p) \<Rightarrow> (acc # ls, p)) else cut (acc @ [b]) bs)"

definition lines :: "bytes \<Rightarrow> bytes list" where
  "lines s = fst (cut [] s)"

definition partial :: "bytes \<Rightarrow> bytes" where
  "partial s = snd (cut [] s)"

definition fits_line :: "bytes \<Rightarrow> bool" where
  "fits_line l \<longleftrightarrow> length l \<le> kMaxPayloadBytes"

definition oversized_count :: "bytes \<Rightarrow> nat" where
  "oversized_count s =
     length (filter (\<lambda>l. \<not> fits_line l) (lines s)) + (if fits_line (partial s) then 0 else 1)"

lemma cut_snoc:
  "cut acc (s @ [b]) =
     (case cut acc s of (ls, p) \<Rightarrow> if b = LF then (ls @ [p], []) else (ls, p @ [b]))"
  by (induction acc s rule: cut.induct) (auto split: prod.splits)

lemma lines_snoc: "lines (s @ [b]) = (if b = LF then lines s @ [partial s] else lines s)"
  by (simp add: lines_def partial_def cut_snoc split: prod.split)

lemma partial_snoc: "partial (s @ [b]) = (if b = LF then [] else partial s @ [b])"
  by (simp add: lines_def partial_def cut_snoc split: prod.split)

lemma lines_Nil [simp]: "lines [] = []" "partial [] = []"
  by (simp_all add: lines_def partial_def)

section \<open>Simulation\<close>

text \<open>The lines the framer holds, oldest first.\<close>

definition ready_lines :: "line_framer \<Rightarrow> bytes list" where
  "ready_lines f =
     (if lf_active_ready f then [lf_active f] else []) @
     (if lf_pending_ready f then [lf_pending f] else [])"

definition framer_ok :: "line_framer \<Rightarrow> bool" where
  "framer_ok f \<longleftrightarrow>
     (lf_active_acquired f \<longrightarrow> lf_active_ready f) \<and>
     (lf_pending_ready f \<longrightarrow> lf_active_ready f \<and> lf_accumulator f = [] \<and> \<not> lf_discard f)"

text \<open>
  \<open>framer_holds c0 s ls (c, f)\<close>: after the bytes \<open>s\<close> of a session that began with counters \<open>c0\<close>,
  with the lines \<open>ls\<close> handed out and released, the framer is in state \<open>f\<close>.
\<close>

definition framer_holds :: "counters \<Rightarrow> bytes \<Rightarrow> bytes list \<Rightarrow> counters \<times> line_framer \<Rightarrow> bool" where
  "framer_holds c0 s ls cf \<longleftrightarrow>
     (case cf of (c, f) \<Rightarrow>
        framer_ok f \<and>
        ls @ ready_lines f = filter fits_line (lines s) \<and>
        lf_discard f = (\<not> fits_line (partial s)) \<and>
        lf_accumulator f = (if lf_discard f then [] else partial s) \<and>
        c = oversized_lines_update (\<lambda>v. v + word_of_nat (oversized_count s)) c0)"

lemma framer_holds_new: "framer_holds c [] [] (c, new_framer)"
  by (simp add: framer_holds_def framer_ok_def new_framer_def ready_lines_def fits_line_def
      oversized_count_def)

lemma counters_oversized_id [simp]: "oversized_lines_update (\<lambda>v. v) c = c"
  by simp

lemma promote_ready_lines:
  "framer_ok f \<or> \<not> lf_active_acquired f \<Longrightarrow>
     ready_lines (promotePendingIfPossible f) = ready_lines f"
  by (auto simp: promotePendingIfPossible_def ready_lines_def)

lemma append_byte_holds:
  assumes "framer_holds c0 s ls cf" and "\<not> lf_pending_ready (snd cf)"
  shows "framer_holds c0 (s @ [b]) ls (append_byte b cf)"
proof -
  obtain c f where cf: "cf = (c, f)" by (cases cf)
  have inv: "framer_ok f" "ls @ ready_lines f = filter fits_line (lines s)"
    "lf_discard f = (\<not> fits_line (partial s))"
    "lf_accumulator f = (if lf_discard f then [] else partial s)"
    and c: "c = oversized_lines_update (\<lambda>v. v + word_of_nat (oversized_count s)) c0"
    using assms(1) by (simp_all add: framer_holds_def cf)
  have np: "\<not> lf_pending_ready f" using assms(2) cf by simp
  have short: "fits_line []" by (simp add: fits_line_def)
  consider (skip) "lf_discard f" | (line) "\<not> lf_discard f" "b = LF"
    | (long) "\<not> lf_discard f" "b \<noteq> LF" "length (lf_accumulator f) = kMaxPayloadBytes"
    | (more) "\<not> lf_discard f" "b \<noteq> LF" "length (lf_accumulator f) \<noteq> kMaxPayloadBytes" by blast
  then show ?thesis
  proof cases
    case skip
    then show ?thesis using inv c np short
      by (auto simp: cf append_byte_def framer_holds_def framer_ok_def ready_lines_def lines_snoc
          partial_snoc oversized_count_def fits_line_def)
  next
    case line
    have "oversized_count (s @ [b]) = oversized_count s"
      using line inv(3) short by (simp add: oversized_count_def lines_snoc partial_snoc)
    then show ?thesis using line inv c np short
      by (auto simp: cf append_byte_def framer_holds_def framer_ok_def ready_lines_def lines_snoc
          partial_snoc completeAccumulatedLine_def promotePendingIfPossible_def)
  next
    case long
    then have p: "fits_line (partial s)" "\<not> fits_line (partial s @ [b])"
      using inv by (simp_all add: fits_line_def)
    then have "oversized_count (s @ [b]) = Suc (oversized_count s)"
      using long by (simp add: oversized_count_def lines_snoc partial_snoc)
    then show ?thesis using long inv c np p
      by (auto simp: cf append_byte_def framer_holds_def framer_ok_def ready_lines_def lines_snoc
          partial_snoc algebra_simps)
  next
    case more
    then have p: "fits_line (partial s)" "fits_line (partial s @ [b])"
      using inv by (auto simp: fits_line_def)
    then have "oversized_count (s @ [b]) = oversized_count s"
      using more by (simp add: oversized_count_def lines_snoc partial_snoc)
    then show ?thesis using more inv c np p
      by (auto simp: cf append_byte_def framer_holds_def framer_ok_def ready_lines_def lines_snoc
          partial_snoc)
  qed
qed

lemma append_framer_holds:
  "framer_holds c0 s ls cf \<Longrightarrow> append_framer chunk cf = (n, cf') \<Longrightarrow>
     framer_holds c0 (s @ take n chunk) ls cf'"
proof (induction chunk arbitrary: s cf n)
  case Nil
  then show ?case by simp
next
  case (Cons b bs)
  show ?case
  proof (cases "lf_pending_ready (snd cf)")
    case True
    with Cons.prems show ?thesis by simp
  next
    case False
    obtain m cf1 where m: "append_framer bs (append_byte b cf) = (m, cf1)"
      by (cases "append_framer bs (append_byte b cf)")
    with False Cons.prems have n: "n = Suc m" and "cf' = cf1" by simp_all
    have "framer_holds c0 (s @ [b]) ls (append_byte b cf)"
      by (rule append_byte_holds [OF Cons.prems(1) False])
    from Cons.IH [OF this m [folded \<open>cf' = cf1\<close>]] show ?thesis by (simp add: n)
  qed
qed

lemma acquireLine_holds:
  "framer_holds c0 s ls (c, f) \<Longrightarrow> framer_holds c0 s ls (c, snd (acquireLine f))"
  by (auto simp: framer_holds_def framer_ok_def ready_lines_def acquireLine_def)

lemma releaseLine_holds:
  assumes "framer_holds c0 s ls (c, f)" and "lf_active_acquired f"
  shows "framer_holds c0 s (ls @ [lf_active f]) (c, releaseLine f)"
  using assms
  by (auto simp: framer_holds_def framer_ok_def ready_lines_def releaseLine_def
      promotePendingIfPossible_def)

lemma append_consumes:
  "append_framer chunk cf = (n, cf') \<Longrightarrow> n \<le> length chunk \<and> (n < length chunk \<longrightarrow> lf_pending_ready (snd cf'))"
  by (induction chunk cf arbitrary: n rule: append_framer.induct) (auto split: if_splits prod.splits)

text \<open>
  A session as the framer sees it: any chunks, appended whenever the caller likes, with
  acquires and releases in between. \<open>s\<close> is what was consumed, \<open>ls\<close> what was released.
\<close>

inductive framer_run :: "counters \<Rightarrow> bytes \<Rightarrow> bytes list \<Rightarrow> counters \<times> line_framer \<Rightarrow> bool"
  for c0 :: counters where
  start: "framer_run c0 [] [] (c0, new_framer)"
| feed: "framer_run c0 s ls cf \<Longrightarrow> append_framer chunk cf = (n, cf') \<Longrightarrow>
     framer_run c0 (s @ take n chunk) ls cf'"
| acquire: "framer_run c0 s ls (c, f) \<Longrightarrow> framer_run c0 s ls (c, snd (acquireLine f))"
| release: "framer_run c0 s ls (c, f) \<Longrightarrow> lf_active_acquired f \<Longrightarrow>
     framer_run c0 s (ls @ [lf_active f]) (c, releaseLine f)"

lemma framer_run_holds: "framer_run c0 s ls cf \<Longrightarrow> framer_holds c0 s ls cf"
  by (induction rule: framer_run.induct)
    (auto intro: framer_holds_new append_framer_holds acquireLine_holds releaseLine_holds)

section \<open>Properties\<close>

text \<open>
  C12: the framer cuts the byte stream into lines correctly. However the bytes arrive in chunks and
  whenever the caller acquires and releases, the lines released so far followed by those it holds
  are the lines of the consumed stream that fit in 1024 bytes with their newline, in order, each
  once; the longer ones are dropped whole and each counted once in \<open>oversized_lines\<close>.
\<close>

theorem framer_delivers_lines:
  assumes "framer_run c0 s ls (c, f)"
  shows "ls @ ready_lines f = filter fits_line (lines s) \<and>
     c = oversized_lines_update (\<lambda>v. v + word_of_nat (oversized_count s)) c0"
  using framer_run_holds [OF assms] by (simp add: framer_holds_def)

lemma framer_delivers_lines_witness:
  "\<exists>c f. framer_run zero_counters [CHR ''a'', LF, CHR ''b''] [] (c, f) \<and>
     ready_lines f = filter fits_line (lines [CHR ''a'', LF, CHR ''b''])"
proof -
  obtain c f where a: "append_framer [CHR ''a'', LF, CHR ''b''] (zero_counters, new_framer) = (3, (c, f))"
    by (simp add: append_byte_def new_framer_def completeAccumulatedLine_def
        promotePendingIfPossible_def kMaxPayloadBytes_def limits)
  have "framer_run zero_counters ([] @ take 3 [CHR ''a'', LF, CHR ''b'']) [] (c, f)"
    by (rule framer_run.feed [OF framer_run.start a])
  then have run: "framer_run zero_counters [CHR ''a'', LF, CHR ''b''] [] (c, f)" by simp
  from framer_delivers_lines [OF run] run show ?thesis by auto
qed

text \<open>
  The framer never loses a byte it does not report. \<open>append\<close> consumes a prefix of the chunk, and
  it stops short only when two complete lines are already held, so a caller that offers the rest
  again after a release loses nothing: two appends with a release between consume what one stream
  would.
\<close>

theorem append_reports_consumption:
  "append_framer chunk cf = (n, cf') \<Longrightarrow>
     n \<le> length chunk \<and> (n < length chunk \<longrightarrow> length (ready_lines (snd cf')) \<ge> 1 \<and> lf_pending_ready (snd cf')) \<and>
     (framer_holds c0 s ls cf \<longrightarrow> framer_holds c0 (s @ take n chunk) ls cf')"
proof -
  assume a: "append_framer chunk cf = (n, cf')"
  obtain c f where cf: "cf = (c, f)" by (cases cf)
  have "n < length chunk \<longrightarrow> lf_pending_ready (snd cf')" "n \<le> length chunk"
    using append_consumes [OF a] by simp_all
  moreover have "lf_pending_ready (snd cf') \<longrightarrow> 1 \<le> length (ready_lines (snd cf'))"
    by (simp add: ready_lines_def)
  ultimately show ?thesis using append_framer_holds [OF _ a] by blast
qed

lemma append_reports_consumption_witness:
  "fst (append_framer [LF, LF, CHR ''x''] (zero_counters, new_framer)) = 2 \<and>
   lf_pending_ready (snd (snd (append_framer [LF, LF, CHR ''x''] (zero_counters, new_framer))))"
proof -
  obtain c f where a: "append_framer [LF, LF, CHR ''x''] (zero_counters, new_framer) = (2, (c, f))"
    by (simp add: append_byte_def new_framer_def completeAccumulatedLine_def
        promotePendingIfPossible_def)
  from append_reports_consumption [OF a, of zero_counters "[]" "[]"] a show ?thesis by simp
qed

end
