(* ===== verification/Protocol.thy ===== *)
theory Protocol
  imports Limits
begin

text \<open>
  The closed vocabularies of the wire protocol: \<open>src/core/Protocol.h\<close> with its \<open>toString\<close>
  functions and field names, the API enumerations of \<open>src/api/CommandTypes.h\<close> and
  \<open>src/api/ServerStatus.h\<close>, the error-code mapping of \<open>src/core/ErrorCodeMapping.h\<close>, and the
  handler results of \<open>src/api/CommandResult.h\<close>.
\<close>

section \<open>Message types, statuses, events\<close>

definition kProtocolVersion :: bytes where "kProtocolVersion = ''1''"

datatype message_type = Schema | Command | Response | Telemetry | Event | Estop | Heartbeat

fun toString_message_type :: "message_type \<Rightarrow> bytes" where
  "toString_message_type Schema = ''schema''"
| "toString_message_type Command = ''command''"
| "toString_message_type Response = ''response''"
| "toString_message_type Telemetry = ''telemetry''"
| "toString_message_type Event = ''event''"
| "toString_message_type Estop = ''estop''"
| "toString_message_type Heartbeat = ''heartbeat''"

datatype board_status = Status_Ok | Status_Error

fun toString_board_status :: "board_status \<Rightarrow> bytes" where
  "toString_board_status Status_Ok = ''ok''"
| "toString_board_status Status_Error = ''error''"

datatype event_name = EstopAck_Event | EstopTriggered_Event

fun toString_event_name :: "event_name \<Rightarrow> bytes" where
  "toString_event_name EstopAck_Event = ''estop_ack''"
| "toString_event_name EstopTriggered_Event = ''estop_triggered''"

definition kEstopAckSafeState :: bytes where "kEstopAckSafeState = ''safe''"

datatype argument_type = Int_Arg | Float_Arg | Bool_Arg | String_Arg

fun toString_argument_type :: "argument_type \<Rightarrow> bytes" where
  "toString_argument_type Int_Arg = ''int''"
| "toString_argument_type Float_Arg = ''float''"
| "toString_argument_type Bool_Arg = ''bool''"
| "toString_argument_type String_Arg = ''string''"

section \<open>Field names\<close>

text \<open>The constants of namespace \<open>field\<close>.\<close>

definition kType :: bytes where [simp]: "kType = ''type''"
definition kSeq :: bytes where [simp]: "kSeq = ''seq''"
definition kTimestamp :: bytes where [simp]: "kTimestamp = ''timestamp''"
definition kControllerTs :: bytes where [simp]: "kControllerTs = ''controller_ts''"
definition kSource :: bytes where [simp]: "kSource = ''source''"
definition kTarget :: bytes where [simp]: "kTarget = ''target''"
definition kCommand :: bytes where [simp]: "kCommand = ''command''"
definition kArgs :: bytes where [simp]: "kArgs = ''args''"
definition kStatus :: bytes where [simp]: "kStatus = ''status''"
definition kResult :: bytes where [simp]: "kResult = ''result''"
definition kError :: bytes where [simp]: "kError = ''error''"
definition kCode :: bytes where [simp]: "kCode = ''code''"
definition kMessage :: bytes where [simp]: "kMessage = ''message''"
definition kTelemetry :: bytes where [simp]: "kTelemetry = ''telemetry''"
definition kSchema :: bytes where [simp]: "kSchema = ''schema''"
definition kEvent :: bytes where [simp]: "kEvent = ''event''"
definition kDetails :: bytes where [simp]: "kDetails = ''details''"
definition kReason :: bytes where [simp]: "kReason = ''reason''"
definition kProtocolVersion_field :: bytes where [simp]: "kProtocolVersion_field = ''protocol_version''"
definition kFirmwareVersion :: bytes where [simp]: "kFirmwareVersion = ''firmware_version''"
definition kBlockedByEstop :: bytes where [simp]: "kBlockedByEstop = ''blocked_by_estop''"
definition kBoardProcUs :: bytes where [simp]: "kBoardProcUs = ''board_proc_us''"
definition kCommands :: bytes where [simp]: "kCommands = ''commands''"
definition kState :: bytes where [simp]: "kState = ''state''"

section \<open>Error codes\<close>

datatype board_error_code =
    MissingField | InvalidType | UnknownCommand | InvalidArgument | InternalError | EstopActive

fun toString_board_error_code :: "board_error_code \<Rightarrow> bytes" where
  "toString_board_error_code MissingField = ''MISSING_FIELD''"
| "toString_board_error_code InvalidType = ''INVALID_TYPE''"
| "toString_board_error_code UnknownCommand = ''UNKNOWN_COMMAND''"
| "toString_board_error_code InvalidArgument = ''INVALID_ARGUMENT''"
| "toString_board_error_code InternalError = ''INTERNAL_ERROR''"
| "toString_board_error_code EstopActive = ''ESTOP_ACTIVE''"

definition kBoardErrorCodes :: "board_error_code list" where
  "kBoardErrorCodes =
     [MissingField, InvalidType, UnknownCommand, InvalidArgument, InternalError, EstopActive]"

text \<open>\<open>api::ErrorCode\<close>, the codes a handler may return.\<close>

datatype error_code =
    Api_MissingField | Api_InvalidType | Api_UnknownCommand | Api_InvalidArgument
  | Api_InternalError | Api_EstopActive

fun toBoardErrorCode :: "error_code \<Rightarrow> board_error_code" where
  "toBoardErrorCode Api_MissingField = MissingField"
| "toBoardErrorCode Api_InvalidType = InvalidType"
| "toBoardErrorCode Api_UnknownCommand = UnknownCommand"
| "toBoardErrorCode Api_InvalidArgument = InvalidArgument"
| "toBoardErrorCode Api_InternalError = InternalError"
| "toBoardErrorCode Api_EstopActive = EstopActive"

fun toApiErrorCode :: "board_error_code \<Rightarrow> error_code" where
  "toApiErrorCode MissingField = Api_MissingField"
| "toApiErrorCode InvalidType = Api_InvalidType"
| "toApiErrorCode UnknownCommand = Api_UnknownCommand"
| "toApiErrorCode InvalidArgument = Api_InvalidArgument"
| "toApiErrorCode InternalError = Api_InternalError"
| "toApiErrorCode EstopActive = Api_EstopActive"

lemma toApiErrorCode_toBoardErrorCode: "toApiErrorCode (toBoardErrorCode e) = e"
  by (cases e) simp_all

lemma toBoardErrorCode_toApiErrorCode: "toBoardErrorCode (toApiErrorCode e) = e"
  by (cases e) simp_all

lemma toString_board_error_code_inj:
  "toString_board_error_code a = toString_board_error_code b \<longleftrightarrow> a = b"
  by (cases a; cases b) simp_all

lemma toString_message_type_inj: "toString_message_type a = toString_message_type b \<longleftrightarrow> a = b"
  by (cases a; cases b) simp_all

text \<open>No vocabulary word needs an escape, holds a NUL, or is long.\<close>

lemma vocabulary_nul_free [simp]:
  "nul_free (toString_message_type t)" "nul_free (toString_board_status s)"
  "nul_free (toString_event_name e)" "nul_free (toString_board_error_code c)"
  "nul_free (toString_argument_type a)"
  by ((cases t; simp), (cases s; simp), (cases e; simp), (cases c; simp), (cases a; simp))

lemma length_toString_board_error_code: "length (toString_board_error_code c) \<le> 16"
  by (cases c) simp_all

section \<open>API types\<close>

text \<open>
  \<open>api::ValueType\<close> is a scoped enumeration over \<open>uint8_t\<close>: besides the four enumerators a
  caller can pass any other byte, which \<open>validValueType\<close> is there to reject.
\<close>

datatype value_type = Int_Type | Float_Type | Bool_Type | String_Type | Other_Type u8

datatype status_code =
    Ok | DuplicateRegistration | RegistrationSealed | CapacityExceeded | InvalidName
  | InvalidArgumentSchema | InvalidConfiguration | NetworkStartFailed | NoTelemetryProvider
  | NoEstopHook | NoControllerLossHook

type_synonym status = "status_code \<times> bytes"

definition status_ok :: "status \<Rightarrow> bool" where
  "status_ok s \<longleftrightarrow> fst s = Ok"

record board_identity =
  board_id :: c_string
  protocol_version :: c_string
  firmware_version :: c_string

text \<open>The board id a sealed registry gives: a C string within its limit.\<close>

definition board_named :: "board_identity \<Rightarrow> bytes \<Rightarrow> bool" where
  "board_named identity board \<longleftrightarrow>
     board_id identity = Some board \<and> nul_free board \<and> length board \<le> kMaxBoardIdBytes"

section \<open>Command results\<close>

record command_result =
  cr_ok :: bool
  cr_error_code :: error_code
  cr_message :: bytes

definition kTooLong :: bytes where "kTooLong = ''error message exceeds fixed capacity''"

definition copyMessage :: "c_string \<Rightarrow> bytes" where
  "copyMessage message =
     (case message of
        None \<Rightarrow> []
      | Some m \<Rightarrow> if kMaxErrorMessageBytes < length (cstr m) then kTooLong else cstr m)"

definition ok_result :: command_result where
  "ok_result = \<lparr>cr_ok = True, cr_error_code = Api_InternalError, cr_message = copyMessage (Some [])\<rparr>"

definition error_result :: "error_code \<Rightarrow> c_string \<Rightarrow> command_result" where
  "error_result code message =
     \<lparr>cr_ok = False, cr_error_code = code, cr_message = copyMessage message\<rparr>"

definition missingField :: "c_string \<Rightarrow> command_result" where
  "missingField = error_result Api_MissingField"

definition invalidType :: "c_string \<Rightarrow> command_result" where
  "invalidType = error_result Api_InvalidType"

definition invalidArgument :: "c_string \<Rightarrow> command_result" where
  "invalidArgument = error_result Api_InvalidArgument"

definition internalError :: "c_string \<Rightarrow> command_result" where
  "internalError = error_result Api_InternalError"

definition estopActive :: "c_string \<Rightarrow> command_result" where
  "estopActive = error_result Api_EstopActive"

text \<open>Every result a handler can construct has a bounded, NUL-free message.\<close>

definition result_ok :: "command_result \<Rightarrow> bool" where
  "result_ok r \<longleftrightarrow> nul_free (cr_message r) \<and> length (cr_message r) \<le> kMaxErrorMessageBytes"

lemma copyMessage_ok:
  "nul_free (copyMessage m) \<and> length (copyMessage m) \<le> kMaxErrorMessageBytes"
  by (auto simp: copyMessage_def kTooLong_def limits split: option.split)

lemma result_ok_constructors [simp]:
  "result_ok ok_result" "result_ok (error_result c m)"
  using copyMessage_ok by (simp_all add: result_ok_def ok_result_def error_result_def)

text \<open>
  The error a handler returns reaches the wire unchanged: the API and board codes are in
  bijection, and the six wire names are distinct.
\<close>

theorem error_codes_bijective:
  "toApiErrorCode (toBoardErrorCode e) = e \<and> toBoardErrorCode (toApiErrorCode b) = b \<and>
   (toString_board_error_code b = toString_board_error_code b') = (b = b') \<and>
   b \<in> set kBoardErrorCodes"
  by (cases b)
    (simp_all add: toApiErrorCode_toBoardErrorCode toBoardErrorCode_toApiErrorCode
      toString_board_error_code_inj kBoardErrorCodes_def
      del: toApiErrorCode.simps toBoardErrorCode.simps toString_board_error_code.simps)

end
