(* ===== verification/CommandRegistry.thy ===== *)
theory CommandRegistry
  imports Protocol Counters
begin

text \<open>
  The registration store, \<open>src/core/CommandRegistry.h\<close>: identity, commands, schema fields and
  hooks, filled before start and sealed by it.

  A fixed array with a count is a list; a fixed character array is the string it holds. A function
  pointer with its context is the number of the application callback, or the one handler the
  library brings (\<open>get_counters\<close>).

  The lemmas establish the invariant the rest of the firmware relies on (names distinct,
  non-empty, bounded, without NUL), that lookups return what was registered, that a refused
  registration changes nothing, and that a sealed registry is frozen.
\<close>

section \<open>State\<close>

datatype lifecycle = Mutable | Sealed

datatype command_handler = App_Handler nat | Counters_Handler

record stored_argument =
  sa_name :: bytes
  sa_type :: value_type

record stored_command =
  sc_name :: bytes
  sc_args :: "stored_argument list"
  sc_blocked_by_estop :: bool
  sc_handler :: command_handler

record stored_field =
  sf_name :: bytes
  sf_type :: value_type

record stored_identity =
  si_board_id :: bytes
  si_protocol_version :: bytes
  si_firmware_version :: bytes

record command_registry =
  cr_lifecycle :: lifecycle
  cr_identity_set :: bool
  cr_identity :: stored_identity
  cr_commands :: "stored_command list"
  cr_telemetry_fields :: "stored_field list"
  cr_state_fields :: "stored_field list"
  cr_telemetry_provider :: "nat option"
  cr_estop_hook :: "nat option"
  cr_controller_loss_hook :: "nat option"

definition new_registry :: command_registry where
  "new_registry =
     \<lparr>cr_lifecycle = Mutable, cr_identity_set = False,
      cr_identity = \<lparr>si_board_id = [], si_protocol_version = [], si_firmware_version = []\<rparr>,
      cr_commands = [], cr_telemetry_fields = [], cr_state_fields = [],
      cr_telemetry_provider = None, cr_estop_hook = None, cr_controller_loss_hook = None\<rparr>"

text \<open>
  What a caller passes. \<open>rg_args\<close> is the array \<open>args\<close> points to, which the caller must make
  \<open>arg_count\<close> long.
\<close>

record registration =
  rg_name :: c_string
  rg_args :: "(c_string \<times> value_type) list option"
  rg_arg_count :: nat
  rg_blocked_by_estop :: bool
  rg_blocked_by_estop_specified :: bool
  rg_handler :: "command_handler option"

section \<open>Helpers\<close>

definition ok_status :: status where "ok_status = (Ok, ''ok'')"

datatype copy_result = Copy_Ok | Copy_Missing | Copy_TooLong

definition boundedLength :: "bytes \<Rightarrow> nat \<Rightarrow> nat" where
  "boundedLength source capacity = scan_length capacity source"

text \<open>\<open>copyRequired\<close>: the result and what the destination holds afterwards.\<close>

definition copyRequired :: "c_string \<Rightarrow> nat \<Rightarrow> copy_result \<times> bytes" where
  "copyRequired source capacity =
     (case source of
        None \<Rightarrow> (Copy_Missing, [])
      | Some s \<Rightarrow>
          if cstr s = [] then (Copy_Missing, [])
          else let len = boundedLength s capacity in
            if capacity < len then (Copy_TooLong, []) else (Copy_Ok, take len s))"

definition validRequiredString :: "c_string \<Rightarrow> nat \<Rightarrow> bool" where
  "validRequiredString source capacity \<longleftrightarrow>
     (case source of None \<Rightarrow> False
      | Some s \<Rightarrow> cstr s \<noteq> [] \<and> boundedLength s capacity \<le> capacity)"

definition stringFailureCode :: "c_string \<Rightarrow> nat \<Rightarrow> status_code \<Rightarrow> status_code" where
  "stringFailureCode source capacity default_code =
     (case source of None \<Rightarrow> default_code
      | Some s \<Rightarrow>
          if cstr s \<noteq> [] \<and> capacity < boundedLength s capacity then CapacityExceeded else default_code)"

definition copyStatus :: "copy_result \<Rightarrow> status_code \<Rightarrow> bytes \<Rightarrow> status" where
  "copyStatus result missing_code message =
     (if result = Copy_TooLong then (CapacityExceeded, message) else (missing_code, message))"

fun validValueType :: "value_type \<Rightarrow> bool" where
  "validValueType (Other_Type _) = False"
| "validValueType _ = True"

section \<open>Operations\<close>

definition findCommand :: "command_registry \<Rightarrow> c_string \<Rightarrow> stored_command option" where
  "findCommand r name =
     (case name of None \<Rightarrow> None
      | Some n \<Rightarrow> find (\<lambda>c. strcmp_eq (sc_name c) n) (cr_commands r))"

definition sealed_status :: status where
  "sealed_status = (RegistrationSealed, ''registry is sealed'')"

definition setIdentity :: "board_identity \<Rightarrow> command_registry \<Rightarrow> status \<times> command_registry" where
  "setIdentity identity r =
     (if cr_lifecycle r = Sealed then (sealed_status, r)
      else case copyRequired (board_id identity) kMaxBoardIdBytes of
        (b, bid) \<Rightarrow>
          let r1 = r\<lparr>cr_identity := (cr_identity r)\<lparr>si_board_id := bid\<rparr>\<rparr> in
          if b \<noteq> Copy_Ok then (copyStatus b InvalidName ''invalid board id'', r1)
          else case copyRequired (protocol_version identity) kMaxProtocolVersionBytes of
            (p, pv) \<Rightarrow>
              let r2 = r1\<lparr>cr_identity := (cr_identity r1)\<lparr>si_protocol_version := pv\<rparr>\<rparr> in
              if p \<noteq> Copy_Ok then
                (copyStatus p InvalidConfiguration ''invalid protocol version'', r2)
              else case copyRequired (firmware_version identity) kMaxFirmwareVersionBytes of
                (f, fv) \<Rightarrow>
                  let r3 = r2\<lparr>cr_identity := (cr_identity r2)\<lparr>si_firmware_version := fv\<rparr>\<rparr> in
                  if f \<noteq> Copy_Ok then
                    (copyStatus f InvalidConfiguration ''invalid firmware version'', r3)
                  else (ok_status, r3\<lparr>cr_identity_set := True\<rparr>))"

definition argumentNameExists :: "stored_argument list \<Rightarrow> bytes \<Rightarrow> bool" where
  "argumentNameExists args name \<longleftrightarrow> list_ex (\<lambda>a. strcmp_eq (sa_name a) name) args"

definition fieldNameExists :: "stored_field list \<Rightarrow> bytes \<Rightarrow> bool" where
  "fieldNameExists stored name \<longleftrightarrow> list_ex (\<lambda>f. strcmp_eq (sf_name f) name) stored"

declare argumentNameExists_def [simp] fieldNameExists_def [simp]

text \<open>The loop over the argument specifications, with the pending array it fills.\<close>

fun copy_args ::
    "stored_argument list \<Rightarrow> (c_string \<times> value_type) list \<Rightarrow> status + stored_argument list" where
  "copy_args pending [] = Inr pending"
| "copy_args pending ((name, type) # specs) =
     (if \<not> validValueType type then Inl (InvalidArgumentSchema, ''invalid argument type'')
      else case copyRequired name kMaxArgNameBytes of
        (res, copied) \<Rightarrow>
          if res \<noteq> Copy_Ok then
            Inl (copyStatus res InvalidArgumentSchema ''invalid argument name'')
          else if argumentNameExists pending copied then
            Inl (DuplicateRegistration, ''duplicate argument'')
          else copy_args (pending @ [\<lparr>sa_name = copied, sa_type = type\<rparr>]) specs)"

definition registerCommand :: "registration \<Rightarrow> command_registry \<Rightarrow> status \<times> command_registry" where
  "registerCommand reg r =
     (if cr_lifecycle r = Sealed then (sealed_status, r)
      else if \<not> rg_blocked_by_estop_specified reg then
        ((InvalidArgumentSchema, ''blocked_by_estop must be explicit''), r)
      else case rg_handler reg of
        None \<Rightarrow> ((InvalidConfiguration, ''command handler is required''), r)
      | Some handler \<Rightarrow>
          if kMaxArgsPerCommand < rg_arg_count reg then
            ((CapacityExceeded, ''too many command arguments''), r)
          else if 0 < rg_arg_count reg \<and> rg_args reg = None then
            ((InvalidArgumentSchema, ''argument specs are required''), r)
          else if kMaxRegisteredCommands \<le> length (cr_commands r) then
            ((CapacityExceeded, ''too many commands''), r)
          else if \<not> validRequiredString (rg_name reg) kMaxCommandNameBytes then
            ((stringFailureCode (rg_name reg) kMaxCommandNameBytes InvalidName,
              ''invalid command name''), r)
          else if findCommand r (rg_name reg) \<noteq> None then
            ((DuplicateRegistration, ''duplicate command''), r)
          else case copy_args [] (take (rg_arg_count reg)
                      (case rg_args reg of None \<Rightarrow> [] | Some specs \<Rightarrow> specs)) of
            Inl st \<Rightarrow> (st, r)
          | Inr args \<Rightarrow>
              (ok_status,
               r\<lparr>cr_commands := cr_commands r @
                   [\<lparr>sc_name = snd (copyRequired (rg_name reg) kMaxCommandNameBytes),
                     sc_args = args, sc_blocked_by_estop = rg_blocked_by_estop reg,
                     sc_handler = handler\<rparr>]\<rparr>))"

definition registerField ::
    "c_string \<times> value_type \<Rightarrow> stored_field list \<Rightarrow> nat \<Rightarrow> lifecycle \<Rightarrow> status \<times> stored_field list" where
  "registerField field stored capacity lc =
     (if lc = Sealed then (sealed_status, stored)
      else if capacity \<le> length stored then ((CapacityExceeded, ''too many fields''), stored)
      else if \<not> validValueType (snd field) then
        ((InvalidArgumentSchema, ''invalid field type''), stored)
      else case copyRequired (fst field) kMaxFieldNameBytes of
        (res, copied) \<Rightarrow>
          if res \<noteq> Copy_Ok then (copyStatus res InvalidName ''invalid field name'', stored)
          else if fieldNameExists stored copied then
            ((DuplicateRegistration, ''duplicate field''), stored)
          else (ok_status, stored @ [\<lparr>sf_name = copied, sf_type = snd field\<rparr>]))"

definition registerTelemetryField ::
    "c_string \<times> value_type \<Rightarrow> command_registry \<Rightarrow> status \<times> command_registry" where
  "registerTelemetryField field r =
     (case registerField field (cr_telemetry_fields r) kMaxTelemetryFields (cr_lifecycle r) of
        (st, fs) \<Rightarrow> (st, r\<lparr>cr_telemetry_fields := fs\<rparr>))"

definition registerStateField ::
    "c_string \<times> value_type \<Rightarrow> command_registry \<Rightarrow> status \<times> command_registry" where
  "registerStateField field r =
     (case registerField field (cr_state_fields r) kMaxStateFields (cr_lifecycle r) of
        (st, fs) \<Rightarrow> (st, r\<lparr>cr_state_fields := fs\<rparr>))"

definition setTelemetryProvider :: "nat option \<Rightarrow> command_registry \<Rightarrow> status \<times> command_registry" where
  "setTelemetryProvider provider r =
     (if cr_lifecycle r = Sealed then (sealed_status, r)
      else if provider = None then ((NoTelemetryProvider, ''telemetry provider is required''), r)
      else (ok_status, r\<lparr>cr_telemetry_provider := provider\<rparr>))"

definition setEstopHook :: "nat option \<Rightarrow> command_registry \<Rightarrow> status \<times> command_registry" where
  "setEstopHook hook r =
     (if cr_lifecycle r = Sealed then (sealed_status, r)
      else if hook = None then ((NoEstopHook, ''e-stop hook is required''), r)
      else (ok_status, r\<lparr>cr_estop_hook := hook\<rparr>))"

definition setControllerLossHook :: "nat option \<Rightarrow> command_registry \<Rightarrow> status \<times> command_registry" where
  "setControllerLossHook hook r =
     (if cr_lifecycle r = Sealed then (sealed_status, r)
      else if hook = None then ((NoControllerLossHook, ''controller-loss hook is required''), r)
      else (ok_status, r\<lparr>cr_controller_loss_hook := hook\<rparr>))"

definition validateMetadataForSeal :: "command_registry \<Rightarrow> status" where
  "validateMetadataForSeal r =
     (if \<not> cr_identity_set r then (InvalidConfiguration, ''identity is required'')
      else if cr_telemetry_provider r = None then
        (NoTelemetryProvider, ''telemetry provider is required'')
      else if cr_estop_hook r = None then (NoEstopHook, ''e-stop hook is required'')
      else if cr_controller_loss_hook r = None then
        (NoControllerLossHook, ''controller-loss hook is required'')
      else ok_status)"

definition commitSeal :: "command_registry \<Rightarrow> status \<times> command_registry" where
  "commitSeal r =
     (if cr_lifecycle r = Sealed then (sealed_status, r)
      else (ok_status, r\<lparr>cr_lifecycle := Sealed\<rparr>))"

text \<open>\<open>identity()\<close>: pointers to the stored strings.\<close>

definition registry_identity :: "command_registry \<Rightarrow> board_identity" where
  "registry_identity r =
     \<lparr>board_id = Some (si_board_id (cr_identity r)),
      protocol_version = Some (si_protocol_version (cr_identity r)),
      firmware_version = Some (si_firmware_version (cr_identity r))\<rparr>"

section \<open>Invariant\<close>

definition name_ok :: "nat \<Rightarrow> bytes \<Rightarrow> bool" where
  "name_ok capacity n \<longleftrightarrow> n \<noteq> [] \<and> nul_free n \<and> length n \<le> capacity"

definition args_ok :: "stored_argument list \<Rightarrow> bool" where
  "args_ok args \<longleftrightarrow> distinct (map sa_name args) \<and>
     (\<forall>a \<in> set args. name_ok kMaxArgNameBytes (sa_name a) \<and> validValueType (sa_type a))"

definition fields_ok :: "nat \<Rightarrow> stored_field list \<Rightarrow> bool" where
  "fields_ok capacity fs \<longleftrightarrow> length fs \<le> capacity \<and> distinct (map sf_name fs) \<and>
     (\<forall>f \<in> set fs. name_ok kMaxFieldNameBytes (sf_name f) \<and> validValueType (sf_type f))"

definition commands_ok_inv :: "stored_command list \<Rightarrow> bool" where
  "commands_ok_inv cs \<longleftrightarrow> length cs \<le> kMaxRegisteredCommands \<and> distinct (map sc_name cs) \<and>
     (\<forall>c \<in> set cs. name_ok kMaxCommandNameBytes (sc_name c) \<and> args_ok (sc_args c) \<and>
        length (sc_args c) \<le> kMaxArgsPerCommand)"

definition identity_bounded :: "stored_identity \<Rightarrow> bool" where
  "identity_bounded i \<longleftrightarrow>
     nul_free (si_board_id i) \<and> length (si_board_id i) \<le> kMaxBoardIdBytes \<and>
     nul_free (si_protocol_version i) \<and> length (si_protocol_version i) \<le> kMaxProtocolVersionBytes \<and>
     nul_free (si_firmware_version i) \<and> length (si_firmware_version i) \<le> kMaxFirmwareVersionBytes"

definition registry_ok :: "command_registry \<Rightarrow> bool" where
  "registry_ok r \<longleftrightarrow>
     identity_bounded (cr_identity r) \<and> commands_ok_inv (cr_commands r) \<and>
     fields_ok kMaxTelemetryFields (cr_telemetry_fields r) \<and>
     fields_ok kMaxStateFields (cr_state_fields r)"

lemma copyRequired_ok:
  "copyRequired source capacity = (res, copied) \<Longrightarrow>
     nul_free copied \<and> length copied \<le> capacity \<and>
     (res = Copy_Ok \<longrightarrow> name_ok capacity copied \<and> (\<exists>s. source = Some s \<and> copied = cstr s))"
  by (auto simp: copyRequired_def boundedLength_def Let_def scan_length_eq name_ok_def not_less
      take_length_cstr min_def split: option.splits if_splits)

lemma copyRequired_valid:
  "copyRequired (Some s) capacity =
     (if cstr s = [] then (Copy_Missing, [])
      else if capacity < length (cstr s) then (Copy_TooLong, []) else (Copy_Ok, cstr s))"
  by (auto simp: copyRequired_def boundedLength_def Let_def scan_length_eq take_length_cstr min_def)

lemma validRequiredString_iff:
  "validRequiredString source capacity \<longleftrightarrow> fst (copyRequired source capacity) = Copy_Ok"
  by (auto simp: validRequiredString_def copyRequired_valid boundedLength_def scan_length_le_iff
      copyRequired_def [of None] split: option.split)

lemma list_ex_strcmp:
  "nul_free n \<Longrightarrow> (\<forall>x \<in> set xs. nul_free (f x)) \<Longrightarrow>
     list_ex (\<lambda>x. strcmp_eq (f x) n) xs \<longleftrightarrow> n \<in> f ` set xs"
  by (auto simp: list_ex_iff strcmp_eq_def)

lemma copy_args_ok:
  "copy_args pending specs = Inr args \<Longrightarrow> args_ok pending \<Longrightarrow>
     args_ok args \<and> length args = length pending + length specs"
proof (induction pending specs rule: copy_args.induct)
  case (1 pending)
  then show ?case by simp
next
  case (2 pending name type specs)
  obtain res copied where c: "copyRequired name kMaxArgNameBytes = (res, copied)"
    by (cases "copyRequired name kMaxArgNameBytes")
  have v: "validValueType type" "res = Copy_Ok"
    "\<not> list_ex (\<lambda>a. strcmp_eq (sa_name a) copied) pending"
    and rest: "copy_args (pending @ [\<lparr>sa_name = copied, sa_type = type\<rparr>]) specs = Inr args"
    using "2.prems"(1) c by (auto split: if_splits)
  have n: "name_ok kMaxArgNameBytes copied" using copyRequired_ok [OF c] v by simp
  have "copied \<notin> sa_name ` set pending"
    using v(3) list_ex_strcmp [of copied pending sa_name] n "2.prems"(2)
    by (auto simp: name_ok_def args_ok_def)
  then have "args_ok (pending @ [\<lparr>sa_name = copied, sa_type = type\<rparr>])"
    using "2.prems"(2) n v by (auto simp: args_ok_def)
  from "2.IH" [OF _ c [symmetric] _ _ rest this] v show ?case by simp
qed

lemma findCommand_None:
  "commands_ok_inv (cr_commands r) \<Longrightarrow> nul_free n \<Longrightarrow>
     findCommand r (Some n) = None \<longleftrightarrow> n \<notin> sc_name ` set (cr_commands r)"
  by (auto simp: findCommand_def find_None_iff strcmp_eq_def commands_ok_inv_def name_ok_def)

lemma setIdentity_ok: "registry_ok r \<Longrightarrow> registry_ok (snd (setIdentity i r))"
proof -
  assume r: "registry_ok r"
  obtain b bid p pv f fv where
    c: "copyRequired (board_id i) kMaxBoardIdBytes = (b, bid)"
      "copyRequired (protocol_version i) kMaxProtocolVersionBytes = (p, pv)"
      "copyRequired (firmware_version i) kMaxFirmwareVersionBytes = (f, fv)"
    by (metis surj_pair)
  show ?thesis
    using r copyRequired_ok [OF c(1)] copyRequired_ok [OF c(2)] copyRequired_ok [OF c(3)]
    by (simp add: setIdentity_def c registry_ok_def identity_bounded_def Let_def)
qed

lemma registerCommand_ok: "registry_ok r \<Longrightarrow> registry_ok (snd (registerCommand reg r))"
proof -
  assume r: "registry_ok r"
  show ?thesis
  proof (cases "snd (registerCommand reg r) = r")
    case True
    with r show ?thesis by simp
  next
    case False
    then obtain h args where
      v: "validRequiredString (rg_name reg) kMaxCommandNameBytes"
        "findCommand r (rg_name reg) = None" "length (cr_commands r) < kMaxRegisteredCommands"
        "rg_arg_count reg \<le> kMaxArgsPerCommand"
      and a: "copy_args [] (take (rg_arg_count reg)
                (case rg_args reg of None \<Rightarrow> [] | Some specs \<Rightarrow> specs)) = Inr args"
      and new: "cr_commands (snd (registerCommand reg r)) = cr_commands r @
          [\<lparr>sc_name = snd (copyRequired (rg_name reg) kMaxCommandNameBytes), sc_args = args,
            sc_blocked_by_estop = rg_blocked_by_estop reg, sc_handler = h\<rparr>]"
      and same: "cr_identity (snd (registerCommand reg r)) = cr_identity r"
        "cr_telemetry_fields (snd (registerCommand reg r)) = cr_telemetry_fields r"
        "cr_state_fields (snd (registerCommand reg r)) = cr_state_fields r"
      by (auto simp: registerCommand_def not_less not_le split: option.splits sum.splits if_splits)
    obtain n where n: "copyRequired (rg_name reg) kMaxCommandNameBytes = (Copy_Ok, n)"
      using v(1) by (cases "copyRequired (rg_name reg) kMaxCommandNameBytes")
        (auto simp: validRequiredString_iff)
    obtain s where s: "rg_name reg = Some s" "n = cstr s" "name_ok kMaxCommandNameBytes n"
      using copyRequired_ok [OF n] by auto
    have c: "commands_ok_inv (cr_commands r)" using r by (simp add: registry_ok_def)
    have "findCommand r (Some n) = findCommand r (Some s)"
      by (simp add: findCommand_def strcmp_eq_def s)
    then have "n \<notin> sc_name ` set (cr_commands r)"
      using findCommand_None [OF c, of n] v(2) s by simp
    moreover have "args_ok args \<and> length args \<le> kMaxArgsPerCommand"
      using copy_args_ok [OF a] v(4) by (simp add: args_ok_def)
    ultimately have "commands_ok_inv (cr_commands (snd (registerCommand reg r)))"
      using c v(3) s(3) n by (auto simp: new commands_ok_inv_def)
    with r same show ?thesis by (simp add: registry_ok_def)
  qed
qed

lemma registerField_ok:
  "fields_ok capacity fs \<Longrightarrow> fields_ok capacity (snd (registerField field fs capacity lc))"
proof -
  assume fs: "fields_ok capacity fs"
  obtain res n where c: "copyRequired (fst field) kMaxFieldNameBytes = (res, n)"
    by (cases "copyRequired (fst field) kMaxFieldNameBytes")
  show ?thesis
  proof (cases "snd (registerField field fs capacity lc) = fs")
    case True
    with fs show ?thesis by simp
  next
    case False
    then have v: "length fs < capacity" "validValueType (snd field)" "res = Copy_Ok"
      "\<not> list_ex (\<lambda>f. strcmp_eq (sf_name f) n) fs"
      and new: "snd (registerField field fs capacity lc) = fs @ [\<lparr>sf_name = n, sf_type = snd field\<rparr>]"
      by (auto simp: registerField_def c not_le split: if_splits)
    have n: "name_ok kMaxFieldNameBytes n" using copyRequired_ok [OF c] v by simp
    then have "n \<notin> sf_name ` set fs"
      using v(4) list_ex_strcmp [of n fs sf_name] fs by (auto simp: name_ok_def fields_ok_def)
    with fs v n show ?thesis by (auto simp: new fields_ok_def)
  qed
qed

section \<open>All operations together\<close>

datatype registry_op =
    Set_Identity board_identity
  | Register_Command registration
  | Register_Telemetry_Field "c_string \<times> value_type"
  | Register_State_Field "c_string \<times> value_type"
  | Set_Telemetry_Provider "nat option"
  | Set_Estop_Hook "nat option"
  | Set_Controller_Loss_Hook "nat option"
  | Commit_Seal

fun registry_step :: "registry_op \<Rightarrow> command_registry \<Rightarrow> status \<times> command_registry" where
  "registry_step (Set_Identity i) r = setIdentity i r"
| "registry_step (Register_Command reg) r = registerCommand reg r"
| "registry_step (Register_Telemetry_Field f) r = registerTelemetryField f r"
| "registry_step (Register_State_Field f) r = registerStateField f r"
| "registry_step (Set_Telemetry_Provider p) r = setTelemetryProvider p r"
| "registry_step (Set_Estop_Hook h) r = setEstopHook h r"
| "registry_step (Set_Controller_Loss_Hook h) r = setControllerLossHook h r"
| "registry_step Commit_Seal r = commitSeal r"

inductive registry_reachable :: "command_registry \<Rightarrow> bool" where
  reg_new: "registry_reachable new_registry"
| reg_step: "registry_reachable r \<Longrightarrow> registry_reachable (snd (registry_step op r))"

lemma new_registry_ok: "registry_ok new_registry"
  by (simp add: registry_ok_def new_registry_def identity_bounded_def commands_ok_inv_def
      fields_ok_def)

lemma registry_ok_frame [simp]:
  "registry_ok (r\<lparr>cr_telemetry_provider := p\<rparr>) = registry_ok r"
  "registry_ok (r\<lparr>cr_estop_hook := h\<rparr>) = registry_ok r"
  "registry_ok (r\<lparr>cr_controller_loss_hook := h\<rparr>) = registry_ok r"
  "registry_ok (r\<lparr>cr_lifecycle := l\<rparr>) = registry_ok r"
  by (simp_all add: registry_ok_def)

lemma registry_step_ok: "registry_ok r \<Longrightarrow> registry_ok (snd (registry_step op r))"
proof (cases op)
  case (Register_Telemetry_Field f)
  assume "registry_ok r"
  then show ?thesis
    using registerField_ok [of kMaxTelemetryFields "cr_telemetry_fields r" f "cr_lifecycle r"]
    by (simp add: Register_Telemetry_Field registerTelemetryField_def registry_ok_def split_beta)
next
  case (Register_State_Field f)
  assume "registry_ok r"
  then show ?thesis
    using registerField_ok [of kMaxStateFields "cr_state_fields r" f "cr_lifecycle r"]
    by (simp add: Register_State_Field registerStateField_def registry_ok_def split_beta)
qed (simp_all add: setIdentity_ok registerCommand_ok setTelemetryProvider_def setEstopHook_def
      setControllerLossHook_def commitSeal_def)

lemma registry_reachable_ok: "registry_reachable r \<Longrightarrow> registry_ok r"
  by (induction rule: registry_reachable.induct) (simp_all add: new_registry_ok registry_step_ok)

lemma copy_args_iff:
  "args_ok pending \<Longrightarrow>
   (\<exists>args. copy_args pending specs = Inr args) \<longleftrightarrow>
     list_all (\<lambda>(n, t). validValueType t \<and> validRequiredString n kMaxArgNameBytes) specs \<and>
     distinct (map sa_name pending @ map (\<lambda>(n, t). cstr (the n)) specs)"
proof (induction pending specs rule: copy_args.induct)
  case (1 pending)
  then show ?case by (simp add: args_ok_def)
next
  case (2 pending name type specs)
  obtain res copied where c: "copyRequired name kMaxArgNameBytes = (res, copied)"
    by (cases "copyRequired name kMaxArgNameBytes")
  show ?case
  proof (cases "validValueType type \<and> res = Copy_Ok")
    case False
    then show ?thesis using c by (auto simp: validRequiredString_iff)
  next
    case True
    then have n: "name_ok kMaxArgNameBytes copied" "copied = cstr (the name)"
      using copyRequired_ok [OF c] by auto
    have dup: "list_ex (\<lambda>a. strcmp_eq (sa_name a) copied) pending \<longleftrightarrow> copied \<in> sa_name ` set pending"
      using list_ex_strcmp [of copied pending sa_name] n "2.prems"
      by (auto simp: name_ok_def args_ok_def)
    show ?thesis
    proof (cases "copied \<in> sa_name ` set pending")
      case True
      then show ?thesis using c dup n by auto
    next
      case False
      then have "args_ok (pending @ [\<lparr>sa_name = copied, sa_type = type\<rparr>])"
        using "2.prems" n True by (auto simp: args_ok_def)
      from "2.IH" [OF _ c [symmetric] _ _ this] True False dup c n show ?thesis
        by (auto simp: validRequiredString_iff)
    qed
  qed
qed

text \<open>
  C33: whatever the application registers, in any order and with any refused calls in between, the
  registry stays well formed: at most 16 commands with at most 8 arguments, at most 24 fields of
  each kind, every stored name non-empty, within its bound and free of NUL, names distinct within
  their table, types among the four the schema can express, and identity strings within their
  buffers.
\<close>

theorem registry_invariant: "registry_reachable r \<Longrightarrow> registry_ok r"
  by (rule registry_reachable_ok)

lemma registry_invariant_witness:
  "registry_ok (snd (registry_step Commit_Seal new_registry))"
  by (rule registry_invariant) (intro reg_step reg_new)

text \<open>
  Once sealed, a registry refuses every operation with \<open>RegistrationSealed\<close> and is left
  exactly as it was.
\<close>

theorem sealed_registry_frozen:
  "cr_lifecycle r = Sealed \<Longrightarrow> registry_step op r = (sealed_status, r)"
  by (cases op) (simp_all add: setIdentity_def registerCommand_def registerTelemetryField_def
      registerStateField_def registerField_def setTelemetryProvider_def setEstopHook_def
      setControllerLossHook_def commitSeal_def)

lemma sealed_registry_frozen_witness:
  "registry_step (Set_Estop_Hook (Some 3)) (new_registry\<lparr>cr_lifecycle := Sealed\<rparr>) =
     (sealed_status, new_registry\<lparr>cr_lifecycle := Sealed\<rparr>)"
  by (rule sealed_registry_frozen) simp

definition acceptable :: "registration \<Rightarrow> command_registry \<Rightarrow> bool" where
  "acceptable reg r \<longleftrightarrow>
     cr_lifecycle r = Mutable \<and> rg_blocked_by_estop_specified reg \<and> rg_handler reg \<noteq> None \<and>
     rg_arg_count reg \<le> kMaxArgsPerCommand \<and> (rg_arg_count reg = 0 \<or> rg_args reg \<noteq> None) \<and>
     length (cr_commands r) < kMaxRegisteredCommands \<and>
     validRequiredString (rg_name reg) kMaxCommandNameBytes \<and>
     cstr (the (rg_name reg)) \<notin> sc_name ` set (cr_commands r) \<and>
     (let specs = take (rg_arg_count reg) (case rg_args reg of None \<Rightarrow> [] | Some s \<Rightarrow> s) in
        list_all (\<lambda>(n, t). validValueType t \<and> validRequiredString n kMaxArgNameBytes) specs \<and>
        distinct (map (\<lambda>(n, t). cstr (the n)) specs))"

lemma copy_args_content:
  "copy_args pending specs = Inr args \<Longrightarrow>
     map (\<lambda>a. (sa_name a, sa_type a)) args =
     map (\<lambda>a. (sa_name a, sa_type a)) pending @ map (\<lambda>(n, t). (cstr (the n), t)) specs"
proof (induction pending specs rule: copy_args.induct)
  case (1 pending)
  then show ?case by simp
next
  case (2 pending name type specs)
  obtain res copied where c: "copyRequired name kMaxArgNameBytes = (res, copied)"
    by (cases "copyRequired name kMaxArgNameBytes")
  have v: "validValueType type" "res = Copy_Ok"
    "\<not> list_ex (\<lambda>a. strcmp_eq (sa_name a) copied) pending"
    and rest: "copy_args (pending @ [\<lparr>sa_name = copied, sa_type = type\<rparr>]) specs = Inr args"
    using "2.prems" c by (auto split: if_splits)
  have "copied = cstr (the name)" using copyRequired_ok [OF c] v by auto
  with "2.IH" [OF _ c [symmetric] _ _ rest] v show ?case by simp
qed

lemma copy_args_error: "copy_args pending specs = Inl st \<Longrightarrow> fst st \<noteq> Ok"
  by (induction pending specs rule: copy_args.induct)
    (auto simp: copyStatus_def split: if_splits prod.splits)

lemma find_append_new:
  "\<forall>c \<in> set cs. nul_free (sc_name c) \<Longrightarrow> cstr n \<notin> sc_name ` set cs \<Longrightarrow>
     cstr (sc_name new) = cstr n \<Longrightarrow>
     find (\<lambda>c. strcmp_eq (sc_name c) n) (cs @ [new]) = Some new"
  by (induction cs) (auto simp: strcmp_eq_def)

definition new_command :: "registration \<Rightarrow> command_handler \<Rightarrow> stored_argument list \<Rightarrow> stored_command" where
  "new_command reg h args =
     \<lparr>sc_name = cstr (the (rg_name reg)), sc_args = args,
      sc_blocked_by_estop = rg_blocked_by_estop reg, sc_handler = h\<rparr>"

lemma registerCommand_cases:
  assumes "registry_ok r"
  shows "acceptable reg r \<Longrightarrow>
      \<exists>h args. rg_handler reg = Some h \<and>
        map (\<lambda>a. (sa_name a, sa_type a)) args =
          map (\<lambda>(n, t). (cstr (the n), t))
            (take (rg_arg_count reg) (case rg_args reg of None \<Rightarrow> [] | Some s \<Rightarrow> s)) \<and>
        registerCommand reg r =
          (ok_status, r\<lparr>cr_commands := cr_commands r @ [new_command reg h args]\<rparr>)"
    and "\<not> acceptable reg r \<Longrightarrow> fst (fst (registerCommand reg r)) \<noteq> Ok \<and> snd (registerCommand reg r) = r"
proof -
  let ?specs = "take (rg_arg_count reg) (case rg_args reg of None \<Rightarrow> [] | Some s \<Rightarrow> s)"
  have inv: "commands_ok_inv (cr_commands r)" using assms by (simp add: registry_ok_def)
  have name: "validRequiredString (rg_name reg) kMaxCommandNameBytes \<Longrightarrow>
      \<exists>s. rg_name reg = Some s \<and> snd (copyRequired (rg_name reg) kMaxCommandNameBytes) = cstr s"
    using copyRequired_ok [of "rg_name reg" kMaxCommandNameBytes]
    by (cases "copyRequired (rg_name reg) kMaxCommandNameBytes") (auto simp: validRequiredString_iff)
  have dup: "rg_name reg = Some s \<Longrightarrow>
      findCommand r (rg_name reg) = None \<longleftrightarrow> cstr s \<notin> sc_name ` set (cr_commands r)" for s
    using findCommand_None [OF inv, of "cstr s"] by (simp add: findCommand_def strcmp_eq_def)
  have args: "(\<exists>args. copy_args [] ?specs = Inr args) \<longleftrightarrow>
      list_all (\<lambda>(n, t). validValueType t \<and> validRequiredString n kMaxArgNameBytes) ?specs \<and>
      distinct (map (\<lambda>(n, t). cstr (the n)) ?specs)"
    using copy_args_iff [of "[]" ?specs] by (simp add: args_ok_def)
  { assume a: "acceptable reg r"
    then obtain h s where h: "rg_handler reg = Some h" "rg_name reg = Some s"
      "snd (copyRequired (rg_name reg) kMaxCommandNameBytes) = cstr s"
      using name by (auto simp: acceptable_def)
    from a obtain as where as: "copy_args [] ?specs = Inr as"
      using args by (auto simp: acceptable_def Let_def)
    have "registerCommand reg r =
        (ok_status, r\<lparr>cr_commands := cr_commands r @ [new_command reg h as]\<rparr>)"
      using a h as dup [OF h(2)]
      by (cases "rg_args reg") (simp_all add: registerCommand_def acceptable_def new_command_def)
    with h(1) copy_args_content [OF as] show "\<exists>h args. rg_handler reg = Some h \<and>
        map (\<lambda>a. (sa_name a, sa_type a)) args = map (\<lambda>(n, t). (cstr (the n), t)) ?specs \<and>
        registerCommand reg r =
          (ok_status, r\<lparr>cr_commands := cr_commands r @ [new_command reg h args]\<rparr>)"
      by auto }
  { assume n: "\<not> acceptable reg r"
    show "fst (fst (registerCommand reg r)) \<noteq> Ok \<and> snd (registerCommand reg r) = r"
    proof (rule ccontr)
      assume bad: "\<not> ?thesis"
      have lc: "cr_lifecycle r \<noteq> Sealed \<longleftrightarrow> cr_lifecycle r = Mutable"
        by (cases "cr_lifecycle r") simp_all
      from bad have v: "validRequiredString (rg_name reg) kMaxCommandNameBytes"
        "cr_lifecycle r = Mutable" "rg_blocked_by_estop_specified reg" "rg_handler reg \<noteq> None"
        "rg_arg_count reg \<le> kMaxArgsPerCommand" "rg_arg_count reg = 0 \<or> rg_args reg \<noteq> None"
        "length (cr_commands r) < kMaxRegisteredCommands" "findCommand r (rg_name reg) = None"
        "\<exists>as. copy_args [] ?specs = Inr as"
        by (auto simp: registerCommand_def sealed_status_def stringFailureCode_def not_less not_le lc
            dest: copy_args_error split: if_splits option.splits sum.splits)
      obtain s where s: "rg_name reg = Some s" using name [OF v(1)] by blast
      with v n args dup [OF s] show False by (simp add: acceptable_def Let_def)
    qed }
qed

text \<open>
  A command registration is accepted exactly when it meets every documented condition. An
  accepted command is then what the registry returns for its name, under any pointer to the same
  C string, with its arguments in the order given; a refused registration changes nothing.
\<close>

theorem registerCommand_accepts:
  assumes "registry_ok r"
  shows "status_ok (fst (registerCommand reg r)) = acceptable reg r \<and>
     (if acceptable reg r
      then \<exists>c. findCommand (snd (registerCommand reg r)) (rg_name reg) = Some c \<and>
             sc_name c = cstr (the (rg_name reg)) \<and>
             map (\<lambda>a. (sa_name a, sa_type a)) (sc_args c) =
               map (\<lambda>(n, t). (cstr (the n), t))
                 (take (rg_arg_count reg) (case rg_args reg of None \<Rightarrow> [] | Some s \<Rightarrow> s)) \<and>
             rg_handler reg = Some (sc_handler c)
      else snd (registerCommand reg r) = r)"
proof (cases "acceptable reg r")
  case True
  from registerCommand_cases(1) [OF assms True] obtain h args where
    h: "rg_handler reg = Some h"
    "map (\<lambda>a. (sa_name a, sa_type a)) args = map (\<lambda>(n, t). (cstr (the n), t))
       (take (rg_arg_count reg) (case rg_args reg of None \<Rightarrow> [] | Some s \<Rightarrow> s))"
    "registerCommand reg r = (ok_status, r\<lparr>cr_commands := cr_commands r @ [new_command reg h args]\<rparr>)"
    by blast
  obtain s where s: "rg_name reg = Some s" using True
    by (auto simp: acceptable_def validRequiredString_def split: option.splits)
  have free: "\<forall>c \<in> set (cr_commands r). nul_free (sc_name c)"
    using assms by (simp add: registry_ok_def commands_ok_inv_def name_ok_def)
  have fresh: "cstr s \<notin> sc_name ` set (cr_commands r)"
    using True s by (simp add: acceptable_def)
  have "findCommand (snd (registerCommand reg r)) (rg_name reg) = Some (new_command reg h args)"
    using find_append_new [OF free fresh, of "new_command reg h args"]
    by (simp add: h(3) findCommand_def new_command_def s)
  then show ?thesis using True h by (simp add: status_ok_def ok_status_def new_command_def)
next
  case False
  with registerCommand_cases(2) [OF assms False] show ?thesis by (simp add: status_ok_def)
qed

lemma registerCommand_accepts_witness:
  "findCommand (snd (registerCommand
     \<lparr>rg_name = Some ''go'', rg_args = None, rg_arg_count = 0, rg_blocked_by_estop = True,
       rg_blocked_by_estop_specified = True, rg_handler = Some (App_Handler 1)\<rparr> new_registry))
     (Some ''go'') \<noteq> None"
  using registerCommand_accepts [OF new_registry_ok, of
     "\<lparr>rg_name = Some ''go'', rg_args = None, rg_arg_count = 0, rg_blocked_by_estop = True,
       rg_blocked_by_estop_specified = True, rg_handler = Some (App_Handler 1)\<rparr>"]
  by (auto simp: acceptable_def new_registry_def validRequiredString_def boundedLength_def
      scan_length_eq cstr_def limits)

text \<open>
  \<open>setIdentity\<close> is not atomic. A second call that is refused has already overwritten part of
  the stored identity while \<open>identity_set_\<close> stays true, so metadata validation still passes with
  an empty board id.
\<close>

theorem setIdentity_partial_update:
  "let good = \<lparr>board_id = Some ''board'', protocol_version = Some ''1'', firmware_version = Some ''1.0''\<rparr>;
       bad = \<lparr>board_id = Some [], protocol_version = Some ''1'', firmware_version = Some ''1.0''\<rparr>;
       r1 = snd (setIdentity good
              (new_registry\<lparr>cr_telemetry_provider := Some 0, cr_estop_hook := Some 0,
                 cr_controller_loss_hook := Some 0\<rparr>));
       r2 = snd (setIdentity bad r1)
   in status_ok (validateMetadataForSeal r1) \<and> \<not> status_ok (fst (setIdentity bad r1)) \<and>
      status_ok (validateMetadataForSeal r2) \<and> si_board_id (cr_identity r2) = []"
  by (simp add: setIdentity_def new_registry_def copyRequired_def boundedLength_def scan_length_eq
      cstr_def limits status_ok_def validateMetadataForSeal_def ok_status_def copyStatus_def Let_def)

end
