(* ===== verification/Sink.thy ===== *)
theory Sink
  imports Prelude
begin

text \<open>
  The interface of a bounded output buffer. Three classes of the firmware append bytes to a
  fixed array and refuse what does not fit: BoundedJsonWriter, TelemetryScheduler and
  CommandDispatcher, each with its own \<open>appendBytes\<close> and its own copy of the loop that writes a
  JSON string. The locale \<open>line_sink\<close> states what they share: in a sound state, an append either
  extends it by exactly the bytes given, using up that much room, or fails. Its lemmas compose
  appends. \<open>bounded_sink\<close> is the case where every state is sound. The classes interpret these on
  their own \<open>appendBytes\<close>.
\<close>

section \<open>Emitting a text\<close>

text \<open>
  An operation emits \<open>t\<close> when it succeeds exactly if \<open>t\<close> fits, and then extends the state by \<open>t\<close>.
\<close>

definition emits :: "(bytes \<Rightarrow> 's \<Rightarrow> 's) \<Rightarrow> ('s \<Rightarrow> nat) \<Rightarrow> 's act \<Rightarrow> bytes \<Rightarrow> bool" where
  "emits ext rm f t \<longleftrightarrow>
     (\<forall>s. (length t \<le> rm s \<longrightarrow> f s = (True, ext t s)) \<and> (rm s < length t \<longrightarrow> \<not> fst (f s)))"

lemma emits_fits: "emits ext rm f t \<Longrightarrow> length t \<le> rm s \<Longrightarrow> f s = (True, ext t s)"
  by (simp add: emits_def)

lemma emits_full: "emits ext rm f t \<Longrightarrow> rm s < length t \<Longrightarrow> \<not> fst (f s)"
  by (simp add: emits_def)

lemma emits_iff: "emits ext rm f t \<Longrightarrow> fst (f s) \<longleftrightarrow> length t \<le> rm s"
  using emits_fits [of ext rm f t s] emits_full [of ext rm f t s]
  by (cases "length t \<le> rm s") auto

lemma emits_result: "emits ext rm f t \<Longrightarrow> f s = (True, s') \<Longrightarrow> s' = ext t s"
  using emits_iff [of ext rm f t s] emits_fits [of ext rm f t s] by auto

section \<open>The loop that writes an escaped string\<close>

text \<open>
  Each of the three classes walks over the bytes of a string and appends one chunk per byte:
  the byte itself or its escape sequence. \<open>put\<close> is the class's own append.
\<close>

fun put_each :: "(bytes \<Rightarrow> 's act) \<Rightarrow> (char \<Rightarrow> bytes) \<Rightarrow> bytes \<Rightarrow> 's act" where
  "put_each put esc [] s = (True, s)"
| "put_each put esc (c # cs) s =
     (case put (esc c) s of (ok, s') \<Rightarrow> if ok then put_each put esc cs s' else (False, s'))"

text \<open>The same from the sound states only: those in which the length is within the array.\<close>

definition emits_on ::
    "('s \<Rightarrow> bool) \<Rightarrow> (bytes \<Rightarrow> 's \<Rightarrow> 's) \<Rightarrow> ('s \<Rightarrow> nat) \<Rightarrow> 's act \<Rightarrow> bytes \<Rightarrow> bool" where
  "emits_on S ext rm f t \<longleftrightarrow>
     (\<forall>s. S s \<longrightarrow> (length t \<le> rm s \<longrightarrow> f s = (True, ext t s)) \<and> (rm s < length t \<longrightarrow> \<not> fst (f s)))"

lemma emits_on_fits: "emits_on S ext rm f t \<Longrightarrow> S s \<Longrightarrow> length t \<le> rm s \<Longrightarrow> f s = (True, ext t s)"
  by (simp add: emits_on_def)

lemma emits_on_full: "emits_on S ext rm f t \<Longrightarrow> S s \<Longrightarrow> rm s < length t \<Longrightarrow> \<not> fst (f s)"
  by (simp add: emits_on_def)

lemma emits_on_True: "emits_on (\<lambda>s. True) ext rm f t = emits ext rm f t"
  by (simp add: emits_on_def emits_def)

section \<open>The interface\<close>

locale line_sink =
  fixes S :: "'s \<Rightarrow> bool"
    and put :: "bytes \<Rightarrow> 's act"
    and ext :: "bytes \<Rightarrow> 's \<Rightarrow> 's"
    and rm :: "'s \<Rightarrow> nat"
  assumes put_emits_on: "emits_on S ext rm (put bs) bs"
    and ext_nothing: "ext [] s = s"
    and ext_both: "ext (a @ b) s = ext b (ext a s)"
    and room_after: "S s \<Longrightarrow> length t \<le> rm s \<Longrightarrow> rm (ext t s) = rm s - length t"
    and sound_after: "S s \<Longrightarrow> length t \<le> rm s \<Longrightarrow> S (ext t s)"
begin

lemma on_skip: "emits_on S ext rm (\<lambda>s. (True, s)) []"
  by (simp add: emits_on_def ext_nothing)

lemma on_seq:
  assumes f: "emits_on S ext rm f t" and g: "emits_on S ext rm g u"
  shows "emits_on S ext rm (\<lambda>s. case f s of (ok, s') \<Rightarrow> if ok then g s' else (False, s')) (t @ u)"
proof -
  have "(length (t @ u) \<le> rm s \<longrightarrow>
          (case f s of (ok, s') \<Rightarrow> if ok then g s' else (False, s')) = (True, ext (t @ u) s)) \<and>
        (rm s < length (t @ u) \<longrightarrow>
          \<not> fst (case f s of (ok, s') \<Rightarrow> if ok then g s' else (False, s')))" if S: "S s" for s
  proof (cases "length t \<le> rm s")
    case True
    then have fs: "f s = (True, ext t s)" and r: "rm (ext t s) = rm s - length t" and S': "S (ext t s)"
      using f S by (simp_all add: emits_on_fits room_after sound_after)
    from True r show ?thesis
      using emits_on_fits [OF g S'] emits_on_full [OF g S']
      by (auto simp: fs ext_both)
  next
    case False
    then have "\<not> fst (f s)" using emits_on_full [OF f S] by simp
    with False show ?thesis by (auto split: prod.splits)
  qed
  then show ?thesis unfolding emits_on_def by blast
qed

lemma on_run_all: "list_all2 (emits_on S ext rm) fs ts \<Longrightarrow> emits_on S ext rm (run_all fs) (concat ts)"
proof (induction fs ts rule: list_all2_induct)
  case Nil
  then show ?case by (simp add: emits_on_def ext_nothing)
next
  case (Cons f fs t ts)
  have "run_all (f # fs) = (\<lambda>s. case f s of (ok, s') \<Rightarrow> if ok then run_all fs s' else (False, s'))"
    by (simp add: fun_eq_iff)
  with on_seq [OF Cons.hyps(1) Cons.IH] show ?case by simp
qed

lemma on_put_each: "emits_on S ext rm (put_each put esc cs) (concat (map esc cs))"
proof (induction cs)
  case Nil
  then show ?case by (simp add: emits_on_def ext_nothing)
next
  case (Cons c cs)
  have "put_each put esc (c # cs) =
      (\<lambda>s. case put (esc c) s of (ok, s') \<Rightarrow> if ok then put_each put esc cs s' else (False, s'))"
    by (simp add: fun_eq_iff)
  with on_seq [OF put_emits_on Cons.IH, of "esc c"] show ?case by simp
qed

lemma on_quoted:
  "emits_on S ext rm (run_all [put [q], put_each put esc cs, put [q]]) ([q] @ concat (map esc cs) @ [q])"
proof -
  have "emits_on S ext rm (run_all [put [q], put_each put esc cs, put [q]])
          (concat [[q], concat (map esc cs), [q]])"
    by (rule on_run_all) (simp add: put_emits_on on_put_each)
  then show ?thesis by simp
qed

end

text \<open>A sink all of whose states are sound.\<close>

locale bounded_sink =
  fixes put :: "bytes \<Rightarrow> 's act"
    and ext :: "bytes \<Rightarrow> 's \<Rightarrow> 's"
    and rm :: "'s \<Rightarrow> nat"
  assumes put_emits: "emits ext rm (put bs) bs"
    and ext_Nil: "ext [] s = s"
    and ext_append: "ext (a @ b) s = ext b (ext a s)"
    and room_ext: "length t \<le> rm s \<Longrightarrow> rm (ext t s) = rm s - length t"

sublocale bounded_sink \<subseteq> line: line_sink "\<lambda>s. True" put ext rm
  by unfold_locales (simp_all add: emits_on_True put_emits ext_Nil ext_append room_ext)

context bounded_sink
begin

lemmas emits_skip = line.on_skip [unfolded emits_on_True]
lemmas emits_seq = line.on_seq [unfolded emits_on_True]
lemmas emits_put_each = line.on_put_each [unfolded emits_on_True]
lemmas emits_quoted = line.on_quoted [unfolded emits_on_True]

lemma emits_run_all: "list_all2 (emits ext rm) fs ts \<Longrightarrow> emits ext rm (run_all fs) (concat ts)"
proof -
  assume "list_all2 (emits ext rm) fs ts"
  then have "list_all2 (emits_on (\<lambda>s. True) ext rm) fs ts" by (simp add: emits_on_True [abs_def])
  from line.on_run_all [OF this] show ?thesis by (simp add: emits_on_True)
qed

end

end
