(* ===== verification/Printf.thy ===== *)
theory Printf
  imports Prelude
begin

text \<open>
  The three \<open>snprintf\<close> conversions the firmware prints numbers with: \<open>%llu\<close>, \<open>%ld\<close> and
  \<open>%.*g\<close> with precision \<open>DBL_DECIMAL_DIG\<close> (17). They are standard C, so they are defined here
  in full, on the bit pattern of the double and with exact integer arithmetic. The bounds
  show that no literal overruns the stack buffers of the callers.
\<close>

section \<open>Decimal numerals\<close>

definition digit :: "nat \<Rightarrow> char" where
  "digit d = char_of (48 + d)"

fun dec_nat :: "nat \<Rightarrow> bytes" where
  "dec_nat n = (if n < 10 then [digit n] else dec_nat (n div 10) @ [digit (n mod 10)])"

declare dec_nat.simps [simp del]

definition dec_u64 :: "u64 \<Rightarrow> bytes" where   \<comment> \<open>\<open>%llu\<close>\<close>
  "dec_u64 w = dec_nat (unat w)"

definition dec_i32 :: "i32 \<Rightarrow> bytes" where   \<comment> \<open>\<open>%ld\<close> of a sign-extended 32-bit value\<close>
  "dec_i32 w = (if sint w < 0 then CHR ''-'' # dec_nat (nat (- sint w)) else dec_nat (nat (sint w)))"

lemma dec_nat_not_Nil [simp]: "dec_nat n \<noteq> []"
  by (subst dec_nat.simps) simp

lemma dec_nat_length_le: "n < 10 ^ k \<Longrightarrow> 0 < k \<Longrightarrow> length (dec_nat n) \<le> k"
proof (induction k arbitrary: n)
  case 0
  then show ?case by simp
next
  case (Suc k)
  show ?case
  proof (cases "n < 10")
    case True
    then show ?thesis by (subst dec_nat.simps) simp
  next
    case False
    with Suc.prems have "n div 10 < 10 ^ k" and "0 < k"
      by (auto simp: less_mult_imp_div_less mult.commute intro: Nat.gr0I)
    then have "length (dec_nat (n div 10)) \<le> k" by (rule Suc.IH)
    with False show ?thesis by (subst dec_nat.simps) simp
  qed
qed

lemma dec_nat_length_gt: "10 ^ k \<le> n \<Longrightarrow> k < length (dec_nat n)"
proof (induction k arbitrary: n)
  case 0
  then show ?case by (simp add: Suc_le_eq)
next
  case (Suc k)
  from Suc.prems have "10 ^ k \<le> n div 10" by (simp add: less_eq_div_iff_mult_less_eq mult.commute)
  then have "k < length (dec_nat (n div 10))" by (rule Suc.IH)
  moreover have "\<not> n < 10"
  proof -
    have "(1::nat) \<le> 10 ^ k" by simp
    moreover from Suc.prems have "10 * 10 ^ k \<le> n" by simp
    ultimately show ?thesis by linarith
  qed
  ultimately show ?case by (subst dec_nat.simps) simp
qed

lemma length_dec_u64: "length (dec_u64 w) \<le> 20"
proof -
  have "unat w < 2 ^ 64" by (rule unat_u64_less)
  then have "unat w < 10 ^ 20" by simp
  then show ?thesis unfolding dec_u64_def by (rule dec_nat_length_le) simp
qed

lemma dec_u64_not_Nil [simp]: "dec_u64 w \<noteq> []"
  by (simp add: dec_u64_def)

lemma length_dec_i32: "length (dec_i32 w) \<le> 11"
proof -
  have "- (2 ^ 31) \<le> sint w" "sint w < 2 ^ 31"
    using sint_greater_eq [of w] sint_less [of w] by simp_all
  then have "nat (sint w) < 10 ^ 10" "nat (- sint w) < 10 ^ 10" by simp_all
  then have "length (dec_nat (nat (sint w))) \<le> 10" "length (dec_nat (nat (- sint w))) \<le> 10"
    by (auto intro: dec_nat_length_le)
  then show ?thesis by (simp add: dec_i32_def)
qed

lemma dec_i32_not_Nil [simp]: "dec_i32 w \<noteq> []"
  by (simp add: dec_i32_def)

text \<open>Only digits come out, so a numeral never needs an escape and never holds a NUL.\<close>

definition is_digit :: "char \<Rightarrow> bool" where
  "is_digit c \<longleftrightarrow> 48 \<le> (of_char c :: nat) \<and> (of_char c :: nat) \<le> 57"

lemma of_char_digit: "d < 10 \<Longrightarrow> (of_char (digit d) :: nat) = 48 + d"
  by (simp add: digit_def)

lemma dec_nat_digits: "c \<in> set (dec_nat n) \<Longrightarrow> is_digit c"
proof (induction n rule: dec_nat.induct)
  case (1 n)
  have last: "is_digit (digit (m mod 10))" for m
    by (simp add: is_digit_def of_char_digit)
  from "1" last [of n] show ?case
    by (subst (asm) dec_nat.simps) (auto split: if_splits)
qed

lemma is_digit_not_NUL: "is_digit c \<Longrightarrow> c \<noteq> NUL"
  by (auto simp: is_digit_def)

lemma nul_free_dec_nat [simp]: "nul_free (dec_nat n)"
  using dec_nat_digits is_digit_not_NUL by (auto simp: nul_free_def)

lemma nul_free_dec_u64 [simp]: "nul_free (dec_u64 w)"
  by (simp add: dec_u64_def)

lemma nul_free_dec_i32 [simp]: "nul_free (dec_i32 w)"
  by (simp add: dec_i32_def)

section \<open>Reading a numeral back\<close>

definition digit_value :: "char \<Rightarrow> nat" where
  "digit_value c = of_char c - 48"

definition read_dec :: "bytes \<Rightarrow> nat" where
  "read_dec s = fold (\<lambda>c a. 10 * a + digit_value c) s 0"

lemma read_dec_snoc: "read_dec (s @ [c]) = 10 * read_dec s + digit_value c"
  by (simp add: read_dec_def)

lemma read_dec_nat: "read_dec (dec_nat n) = n"
proof (induction n rule: dec_nat.induct)
  case (1 n)
  have val: "digit_value (digit d) = d" if "d < 10" for d
    using that by (simp add: digit_value_def of_char_digit)
  show ?case
  proof (cases "n < 10")
    case True
    then show ?thesis by (subst dec_nat.simps) (simp add: read_dec_def val)
  next
    case False
    with "1" have "read_dec (dec_nat (n div 10)) = n div 10" by simp
    with False show ?thesis by (subst dec_nat.simps) (simp add: read_dec_snoc val)
  qed
qed

lemma read_dec_u64: "word_of_nat (read_dec (dec_u64 w)) = w"
  by (simp add: dec_u64_def read_dec_nat)

section \<open>Doubles: classification and \<open>%.17g\<close>\<close>

text \<open>A double is its IEEE-754 bit pattern: sign, 11 exponent bits, 52 fraction bits.\<close>

definition f64_negative :: "f64 \<Rightarrow> bool" where
  "f64_negative b \<longleftrightarrow> 2 ^ 63 \<le> unat b"

definition f64_exponent :: "f64 \<Rightarrow> nat" where
  "f64_exponent b = (unat b div 2 ^ 52) mod 2 ^ 11"

definition f64_fraction :: "f64 \<Rightarrow> nat" where
  "f64_fraction b = unat b mod 2 ^ 52"

definition f64_finite :: "f64 \<Rightarrow> bool" where
  "f64_finite b \<longleftrightarrow> f64_exponent b \<noteq> 2047"

text \<open>
  The magnitude of a finite double is \<open>f64_mantissa * 2 ^ (e - 1075)\<close> with \<open>e\<close> at least 1;
  \<open>f64_num / f64_den\<close> is that number as an exact fraction.
\<close>

definition f64_mantissa :: "f64 \<Rightarrow> nat" where
  "f64_mantissa b = (if f64_exponent b = 0 then f64_fraction b else 2 ^ 52 + f64_fraction b)"

definition f64_num :: "f64 \<Rightarrow> nat" where
  "f64_num b = f64_mantissa b * 2 ^ (max 1 (f64_exponent b) - 1075)"

definition f64_den :: "f64 \<Rightarrow> nat" where
  "f64_den b = 2 ^ (1075 - max 1 (f64_exponent b))"

text \<open>The power of ten the value starts at: how often it must be multiplied by ten to reach 1.\<close>

function leading_zeros :: "nat \<Rightarrow> nat \<Rightarrow> nat" where
  "leading_zeros n d = (if n = 0 \<or> d \<le> n then 0 else Suc (leading_zeros (10 * n) d))"
  by pat_completeness auto
termination by (relation "measure (\<lambda>(n, d). d - n)") auto

declare leading_zeros.simps [simp del]

definition decimal_exponent :: "nat \<Rightarrow> nat \<Rightarrow> int" where
  "decimal_exponent n d =
     (if d \<le> n then int (length (dec_nat (n div d))) - 1 else - int (leading_zeros n d))"

definition round_half_even :: "nat \<Rightarrow> nat \<Rightarrow> nat" where
  "round_half_even n d =
     (let q = n div d; r = n mod d in
      if d < 2 * r \<or> (d = 2 * r \<and> odd q) then Suc q else q)"

text \<open>The 17 significant digits, as a number, and the decimal exponent after rounding.\<close>

definition sig17 :: "nat \<Rightarrow> nat \<Rightarrow> nat \<times> int" where
  "sig17 n d =
     (let x = decimal_exponent n d;
          q = (if x \<le> 16 then round_half_even (n * 10 ^ nat (16 - x)) d
               else round_half_even n (d * 10 ^ nat (x - 16)))
      in if 10 ^ 17 \<le> q then (10 ^ 16, x + 1) else (q, x))"

definition strip_zeros :: "bytes \<Rightarrow> bytes" where
  "strip_zeros s = rev (dropWhile (\<lambda>c. c = CHR ''0'') (rev s))"

definition exponent_suffix :: "int \<Rightarrow> bytes" where
  "exponent_suffix x =
     (let m = nat \<bar>x\<bar>; ds = dec_nat m
      in CHR ''e'' # (if x < 0 then CHR ''-'' else CHR ''+'') # (if m < 10 then CHR ''0'' # ds else ds))"

definition with_point :: "bytes \<Rightarrow> bytes \<Rightarrow> bytes" where
  "with_point whole frac = (if frac = [] then whole else whole @ CHR ''.'' # frac)"

definition format_magnitude :: "nat \<Rightarrow> nat \<Rightarrow> bytes" where
  "format_magnitude n d =
     (if n = 0 then ''0''
      else case sig17 n d of (q, x) \<Rightarrow>
        let ds = dec_nat q in
        if x < -4 \<or> 17 \<le> x then
          with_point (take 1 ds) (strip_zeros (drop 1 ds)) @ exponent_suffix x
        else if 0 \<le> x then
          with_point (take (nat x + 1) ds) (strip_zeros (drop (nat x + 1) ds))
        else with_point ''0'' (replicate (nat (- x) - 1) (CHR ''0'') @ strip_zeros ds))"

definition format_g17 :: "f64 \<Rightarrow> bytes" where   \<comment> \<open>of a finite double\<close>
  "format_g17 b =
     (if f64_negative b then CHR ''-'' # format_magnitude (f64_num b) (f64_den b)
      else format_magnitude (f64_num b) (f64_den b))"

section \<open>The length of a printed double\<close>

lemma less_10_pow_length_dec: "n < 10 ^ length (dec_nat n)"
  using dec_nat_length_gt [of "length (dec_nat n)" n] by (auto simp: not_less [symmetric])

lemma leading_zeros_le: "0 < n \<Longrightarrow> d \<le> n * 10 ^ k \<Longrightarrow> leading_zeros n d \<le> k"
proof (induction k arbitrary: n)
  case 0
  then show ?case by (subst leading_zeros.simps) simp
next
  case (Suc k)
  then have "leading_zeros (10 * n) d \<le> k" by (intro Suc.IH) (simp_all add: ac_simps)
  then show ?case by (subst leading_zeros.simps) simp
qed

lemma leading_zeros_pred:
  "0 < n \<Longrightarrow> n < d \<Longrightarrow> \<exists>k. leading_zeros n d = Suc k \<and> n * 10 ^ k < d"
proof (induction n d rule: leading_zeros.induct)
  case (1 n d)
  show ?case
  proof (cases "10 * n < d")
    case True
    with 1 obtain k where "leading_zeros (10 * n) d = Suc k" "10 * n * 10 ^ k < d" by auto
    with 1 show ?thesis by (subst leading_zeros.simps) (simp add: ac_simps)
  next
    case False
    with 1 show ?thesis
      by (subst leading_zeros.simps, subst leading_zeros.simps) simp
  qed
qed

lemma round_half_even_le: "n < d * m \<Longrightarrow> round_half_even n d \<le> m"
proof -
  assume "n < d * m"
  then have "n div d < m" by (simp add: less_mult_imp_div_less mult.commute)
  then show ?thesis by (simp add: round_half_even_def Let_def)
qed

lemma sig17_less:
  assumes "0 < n" and "0 < d"
  shows "fst (sig17 n d) < 10 ^ 17"
proof -
  define x where "x = decimal_exponent n d"
  define q where "q = (if x \<le> 16 then round_half_even (n * 10 ^ nat (16 - x)) d
                       else round_half_even n (d * 10 ^ nat (x - 16)))"
  have "q \<le> 10 ^ 17"
  proof (cases "d \<le> n")
    case True
    define k where "k = length (dec_nat (n div d))"
    have "k > 0" by (simp add: k_def)
    have x: "x = int k - 1" using True by (simp add: x_def decimal_exponent_def k_def)
    have "n div d < 10 ^ k" unfolding k_def by (rule less_10_pow_length_dec)
    then have nk: "n < d * 10 ^ k" using assms by (simp add: div_less_iff_less_mult mult.commute)
    show ?thesis
    proof (cases "k \<le> 17")
      case True
      then have "n * 10 ^ (17 - k) < d * 10 ^ k * 10 ^ (17 - k)" using nk by simp
      also have "\<dots> = d * 10 ^ 17" using True by (simp add: power_add [symmetric] mult.assoc)
      finally show ?thesis using True x \<open>k > 0\<close>
        by (auto simp: q_def nat_diff_distrib intro!: round_half_even_le)
    next
      case False
      then have "d * 10 ^ k = d * 10 ^ (k - 17) * 10 ^ 17"
        by (simp only: mult.assoc power_add [symmetric]) simp
      with nk have "round_half_even n (d * 10 ^ (k - 17)) \<le> 10 ^ 17"
        by (intro round_half_even_le) simp
      moreover have "nat (x - 16) = k - 17" and "\<not> x \<le> 16" using False x by simp_all
      ultimately show ?thesis by (simp add: q_def)
    qed
  next
    case False
    then obtain k where k: "leading_zeros n d = Suc k" "n * 10 ^ k < d"
      using leading_zeros_pred [of n d] assms by auto
    then have "x = - int (Suc k)" using False by (simp add: x_def decimal_exponent_def)
    then have "nat (16 - x) = k + 17" and "x \<le> 16" by simp_all
    moreover have "n * 10 ^ (k + 17) < d * 10 ^ 17" using k(2) by (simp add: power_add)
    ultimately show ?thesis by (auto simp: q_def intro!: round_half_even_le)
  qed
  then show ?thesis
    unfolding sig17_def Let_def x_def [symmetric] q_def [symmetric] by auto
qed

lemma decimal_exponent_range:
  assumes "0 < n" and "n < 10 ^ a" and "0 < a" and "d \<le> 10 ^ b"
  shows "- int b \<le> decimal_exponent n d \<and> decimal_exponent n d < int a"
proof (cases "d \<le> n")
  case True
  have "n div d < 10 ^ a"
    using assms(2) by (meson div_le_dividend le_less_trans)
  then have "length (dec_nat (n div d)) \<le> a" using assms(3) by (rule dec_nat_length_le)
  moreover have "0 < length (dec_nat (n div d))" by simp
  ultimately show ?thesis using True by (simp add: decimal_exponent_def del: length_greater_0_conv)
next
  case False
  have "(1::nat) * 10 ^ b \<le> n * 10 ^ b" using assms(1) by (intro mult_le_mono) simp_all
  with assms(4) have "d \<le> n * 10 ^ b" by linarith
  then have "leading_zeros n d \<le> b" by (rule leading_zeros_le [OF assms(1)])
  with False assms(3) show ?thesis by (simp add: decimal_exponent_def)
qed

lemma sig17_exponent_range:
  assumes "0 < n" and "n < 10 ^ 309" and "d \<le> 10 ^ 324"
  shows "- 324 \<le> snd (sig17 n d) \<and> snd (sig17 n d) \<le> 309"
proof -
  have "- int 324 \<le> decimal_exponent n d \<and> decimal_exponent n d < int 309"
    by (rule decimal_exponent_range [OF assms(1,2) _ assms(3)]) (rule zero_less_numeral)
  moreover have "snd (sig17 n d) = decimal_exponent n d \<or> snd (sig17 n d) = decimal_exponent n d + 1"
    by (simp add: sig17_def Let_def)
  ultimately show ?thesis by auto
qed

lemma length_exponent_suffix: "\<bar>x\<bar> < 1000 \<Longrightarrow> length (exponent_suffix x) \<le> 5"
proof -
  assume "\<bar>x\<bar> < 1000"
  then have "nat \<bar>x\<bar> < 10 ^ 3" by simp
  then have "length (dec_nat (nat \<bar>x\<bar>)) \<le> 3" by (rule dec_nat_length_le) simp
  moreover have "length (dec_nat (nat \<bar>x\<bar>)) \<le> 1" if "nat \<bar>x\<bar> < 10"
    using that by (intro dec_nat_length_le) simp_all
  ultimately show ?thesis by (auto simp: exponent_suffix_def Let_def)
qed

lemma length_strip_zeros: "length (strip_zeros s) \<le> length s"
  using length_dropWhile_le [of "\<lambda>c. c = CHR ''0''" "rev s"] by (simp add: strip_zeros_def)

lemma length_with_point: "length (with_point a b) \<le> length a + length b + 1"
  by (simp add: with_point_def)

lemma length_format_magnitude:
  assumes "n < 10 ^ 309" and "0 < d" and "d \<le> 10 ^ 324"
  shows "length (format_magnitude n d) \<le> 23"
proof (cases "n = 0")
  case True
  then show ?thesis by (simp add: format_magnitude_def)
next
  case False
  then have n: "0 < n" by simp
  obtain q x where qx: "sig17 n d = (q, x)" by (cases "sig17 n d")
  define ds where "ds = dec_nat q"
  have "q < 10 ^ 17" using sig17_less [OF n assms(2)] qx by simp
  then have ds: "length ds \<le> 17" unfolding ds_def by (rule dec_nat_length_le) simp
  have x: "- 324 \<le> x" "x \<le> 309" using sig17_exponent_range [OF n assms(1,3)] qx by simp_all
  have strip: "length (strip_zeros (drop k ds)) \<le> length ds - k" for k
    using length_strip_zeros [of "drop k ds"] by simp
  have e: "length (exponent_suffix x) \<le> 5" using x by (intro length_exponent_suffix) simp
  have a: "length (with_point (take 1 ds) (strip_zeros (drop 1 ds)) @ exponent_suffix x) \<le> 23"
    using length_with_point [of "take 1 ds" "strip_zeros (drop 1 ds)"] strip [of 1] ds e by simp
  have b: "length (with_point (take k ds) (strip_zeros (drop k ds))) \<le> 23" for k
    using length_with_point [of "take k ds" "strip_zeros (drop k ds)"] strip [of k] ds by simp
  have c: "length (with_point ''0'' (replicate k (CHR ''0'') @ strip_zeros ds)) \<le> 23" if "k \<le> 3" for k
    using length_with_point [of "''0''" "replicate k (CHR ''0'') @ strip_zeros ds"] strip [of 0] ds that
    by simp
  show ?thesis
    using False qx a b c unfolding format_magnitude_def ds_def by (auto simp: Let_def)
qed

lemma f64_num_less: "f64_finite b \<Longrightarrow> f64_num b < 10 ^ 309"
proof -
  assume fin: "f64_finite b"
  have "f64_exponent b < 2048" by (simp add: f64_exponent_def)
  with fin have "max 1 (f64_exponent b) - 1075 \<le> 971" by (simp add: f64_finite_def)
  then have "(2::nat) ^ (max 1 (f64_exponent b) - 1075) \<le> 2 ^ 971" by (intro power_increasing) simp_all
  moreover have "f64_fraction b < 2 ^ 52" by (simp add: f64_fraction_def)
  then have "f64_mantissa b \<le> 2 ^ 53" by (simp add: f64_mantissa_def)
  ultimately have "f64_num b \<le> 2 ^ 53 * 2 ^ 971" unfolding f64_num_def by (rule mult_le_mono [rotated])
  also have "(2::nat) ^ 53 * 2 ^ 971 < 10 ^ 309" by simp
  finally show ?thesis .
qed

lemma f64_den_le: "f64_den b \<le> 10 ^ 324"
proof -
  have "f64_den b \<le> 2 ^ 1074" unfolding f64_den_def by (intro power_increasing) simp_all
  also have "(2::nat) ^ 1074 \<le> 10 ^ 324" by simp
  finally show ?thesis .
qed

lemma length_format_g17: "f64_finite b \<Longrightarrow> length (format_g17 b) \<le> 24"
  using length_format_magnitude [OF f64_num_less _ f64_den_le, of b b]
  by (simp add: format_g17_def f64_den_def)

text \<open>A printed number is digits, signs, points and exponent marks: no NUL and no newline.\<close>

definition numeral_text :: "bytes \<Rightarrow> bool" where
  "numeral_text s \<longleftrightarrow> (\<forall>c \<in> set s. is_digit c \<or> c \<in> set ''+-.e'')"

lemma numeral_text_simps [simp]:
  "numeral_text []"
  "numeral_text (c # s) \<longleftrightarrow> (is_digit c \<or> c \<in> set ''+-.e'') \<and> numeral_text s"
  "numeral_text (s @ t) \<longleftrightarrow> numeral_text s \<and> numeral_text t"
  "numeral_text (dec_nat n)"
  using dec_nat_digits by (auto simp: numeral_text_def)

lemma numeral_text_clean: "numeral_text s \<Longrightarrow> NUL \<notin> set s \<and> LF \<notin> set s"
  by (auto simp: numeral_text_def is_digit_def)

lemma numeral_text_subset: "numeral_text s \<Longrightarrow> set t \<subseteq> set s \<Longrightarrow> numeral_text t"
  by (auto simp: numeral_text_def)

lemma numeral_text_parts [simp]:
  "numeral_text s \<Longrightarrow> numeral_text (strip_zeros s)"
  "numeral_text s \<Longrightarrow> numeral_text (take k s)"
  "numeral_text s \<Longrightarrow> numeral_text (drop k s)"
  by (erule numeral_text_subset, force simp: strip_zeros_def dest: set_dropWhileD in_set_takeD in_set_dropD)+

lemma numeral_text_pieces [simp]:
  "numeral_text a \<Longrightarrow> numeral_text b \<Longrightarrow> numeral_text (with_point a b)"
  "numeral_text (exponent_suffix x)"
  "numeral_text (replicate k (CHR ''0''))"
  by (simp_all add: with_point_def exponent_suffix_def Let_def, auto simp: numeral_text_def is_digit_def)

lemma numeral_text_format_magnitude: "numeral_text (format_magnitude n d)"
proof (cases "sig17 n d")
  case (Pair q x)
  have "is_digit (CHR ''0'')" by (simp add: is_digit_def)
  then show ?thesis
    unfolding format_magnitude_def Let_def Pair prod.case by (simp del: One_nat_def)
qed

lemma numeral_text_format_g17 [simp]: "numeral_text (format_g17 b)"
  by (simp add: format_g17_def numeral_text_format_magnitude)

lemma nul_free_format_g17 [simp]: "nul_free (format_g17 b)"
  using numeral_text_clean [OF numeral_text_format_g17] by (simp add: nul_free_def)

lemma with_point_not_Nil: "a \<noteq> [] \<Longrightarrow> with_point a b \<noteq> []"
  by (simp add: with_point_def)

lemma format_magnitude_not_Nil: "format_magnitude n d \<noteq> []"
proof (cases "sig17 n d")
  case (Pair q x)
  show ?thesis
    unfolding format_magnitude_def Let_def Pair prod.case
    by (simp add: with_point_not_Nil)
qed

lemma format_g17_not_Nil [simp]: "format_g17 b \<noteq> []"
  by (simp add: format_g17_def format_magnitude_not_Nil)

end
