(* ===== verification/JsonText.thy ===== *)
theory JsonText
  imports Sink Printf
begin

text \<open>
  JSON as the firmware reads and writes it: the values of the ArduinoJson document the inbound
  path works on, the compact text the outbound path produces, and the escape sequences of the
  string writers, with a reader that undoes them.
\<close>

section \<open>Values\<close>

text \<open>
  The variants an ArduinoJson 6.21 document distinguishes. Numbers without fraction or exponent
  are kept as 64-bit integers (\<open>ARDUINOJSON_USE_LONG_LONG\<close> is 1), unsigned or negative; all
  others are doubles.
\<close>

datatype json =
    JNull
  | JBool bool
  | JUnsigned u64
  | JSigned u64
  | JFloat f64
  | JString bytes
  | JArray "json list"
  | JObject "(bytes \<times> json) list"

section \<open>Escape sequences\<close>

definition hex_upper :: "nat \<Rightarrow> char" where
  "hex_upper v = (if v < 10 then char_of (48 + v) else char_of (65 + (v - 10)))"

definition hex_lower :: "nat \<Rightarrow> char" where
  "hex_lower v = (if v < 10 then char_of (48 + v) else char_of (97 + (v - 10)))"

definition escape_with :: "(nat \<Rightarrow> char) \<Rightarrow> char \<Rightarrow> bytes" where
  "escape_with hx c =
     (if c = QUOTE then [BACKSLASH, QUOTE]
      else if c = BACKSLASH then [BACKSLASH, BACKSLASH]
      else if c = CHR 0x08 then [BACKSLASH, CHR ''b'']
      else if c = CHR 0x0C then [BACKSLASH, CHR ''f'']
      else if c = CHR 0x0A then [BACKSLASH, CHR ''n'']
      else if c = CHR 0x0D then [BACKSLASH, CHR ''r'']
      else if c = CHR 0x09 then [BACKSLASH, CHR ''t'']
      else if (of_char c :: nat) < 32 then
        [BACKSLASH, CHR ''u'', CHR ''0'', CHR ''0'',
         hx (of_char c div 16), hx (of_char c mod 16)]
      else [c])"

definition quoted :: "(nat \<Rightarrow> char) \<Rightarrow> bytes \<Rightarrow> bytes" where
  "quoted hx s = [QUOTE] @ concat (map (escape_with hx) s) @ [QUOTE]"

lemma length_escape_with: "1 \<le> length (escape_with hx c) \<and> length (escape_with hx c) \<le> 6"
  by (simp add: escape_with_def)

lemma length_concat_le: "(\<And>x. x \<in> set xs \<Longrightarrow> length (f x) \<le> k) \<Longrightarrow> length (concat (map f xs)) \<le> k * length xs"
  by (induction xs) (auto simp: add_mono)

lemma length_quoted_le: "length (quoted hx s) \<le> 6 * length s + 2"
  using length_concat_le [of s "escape_with hx" 6] length_escape_with [of hx]
  by (simp add: quoted_def)

text \<open>A string that needs no escape: printable bytes other than the quote and the backslash.\<close>

definition plain_char :: "char \<Rightarrow> bool" where
  "plain_char c \<longleftrightarrow> c \<noteq> QUOTE \<and> c \<noteq> BACKSLASH \<and> 32 \<le> (of_char c :: nat)"

lemma escape_plain: "plain_char c \<Longrightarrow> escape_with hx c = [c]"
  by (auto simp: plain_char_def escape_with_def)

lemma quoted_plain: "\<forall>c \<in> set s. plain_char c \<Longrightarrow> quoted hx s = [QUOTE] @ s @ [QUOTE]"
  by (induction s) (auto simp: quoted_def escape_plain)

section \<open>Reading an escaped string back\<close>

definition unhex :: "char \<Rightarrow> nat option" where
  "unhex c =
     (let n = (of_char c :: nat) in
      if 48 \<le> n \<and> n \<le> 57 then Some (n - 48)
      else if 65 \<le> n \<and> n \<le> 70 then Some (n - 55)
      else if 97 \<le> n \<and> n \<le> 102 then Some (n - 87)
      else None)"

definition unescape_short :: "char \<Rightarrow> char option" where
  "unescape_short c =
     (if c = QUOTE then Some QUOTE else if c = BACKSLASH then Some BACKSLASH
      else if c = CHR ''b'' then Some (CHR 0x08) else if c = CHR ''f'' then Some (CHR 0x0C)
      else if c = CHR ''n'' then Some (CHR 0x0A) else if c = CHR ''r'' then Some (CHR 0x0D)
      else if c = CHR ''t'' then Some (CHR 0x09) else None)"

text \<open>
  \<open>read_string s\<close> reads the characters of a string body up to its closing quote and returns
  them with the text after the quote. \<open>\uXXXX\<close> is understood for the code points below 256,
  which is all the firmware writes.
\<close>

fun read_string :: "bytes \<Rightarrow> (bytes \<times> bytes) option" where
  "read_string [] = None"
| "read_string (c # cs) =
     (if c = QUOTE then Some ([], cs)
      else if c = BACKSLASH then
        (case cs of
           [] \<Rightarrow> None
         | e # cs' \<Rightarrow>
             if e = CHR ''u'' then
               (case cs' of
                  a # b # x # y # cs'' \<Rightarrow>
                    (case (unhex x, unhex y) of
                       (Some m, Some n) \<Rightarrow>
                         if a = CHR ''0'' \<and> b = CHR ''0'' then
                           map_option (\<lambda>(s, r). (char_of (16 * m + n) # s, r)) (read_string cs'')
                         else None
                     | _ \<Rightarrow> None)
                | _ \<Rightarrow> None)
             else
               (case unescape_short e of
                  None \<Rightarrow> None
                | Some d \<Rightarrow> map_option (\<lambda>(s, r). (d # s, r)) (read_string cs')))
      else if (of_char c :: nat) < 32 then None
      else map_option (\<lambda>(s, r). (c # s, r)) (read_string cs))"

definition hex_digits :: "(nat \<Rightarrow> char) \<Rightarrow> bool" where
  "hex_digits hx \<longleftrightarrow> (\<forall>m<16. unhex (hx m) = Some m)"

lemma hex_digits_upper [simp]: "hex_digits hex_upper"
  by (auto simp: hex_digits_def hex_upper_def unhex_def Let_def)

lemma hex_digits_lower [simp]: "hex_digits hex_lower"
  by (auto simp: hex_digits_def hex_lower_def unhex_def Let_def)

lemma char_of_div_mod: "char_of (16 * (of_char c div 16) + of_char c mod 16 :: nat) = c"
proof -
  have "16 * (of_char c div 16) + of_char c mod 16 = (of_char c :: nat)"
    by (rule mult_div_mod_eq)
  then show ?thesis by (simp only: char_of_char)
qed

lemma char_nibbles: "(of_char c :: nat) div 16 < 16" "(of_char c :: nat) mod 16 < 16"
proof -
  have "(of_char c :: nat) < 256" by simp
  then show "(of_char c :: nat) div 16 < 16" by linarith
qed simp

lemma read_string_escape:
  assumes "hex_digits hx"
  shows "read_string (escape_with hx c @ t) = map_option (\<lambda>(s, r). (c # s, r)) (read_string t)"
proof (cases "plain_char c")
  case True
  then show ?thesis by (simp add: escape_plain) (auto simp: plain_char_def)
next
  case False
  have hex: "unhex (hx (of_char c div 16)) = Some (of_char c div 16)"
    "unhex (hx (of_char c mod 16)) = Some (of_char c mod 16)"
    using assms char_nibbles [of c] by (simp_all add: hex_digits_def)
  from False have "(of_char c :: nat) < 32 \<or> c = QUOTE \<or> c = BACKSLASH"
    by (auto simp: plain_char_def)
  then show ?thesis
    using hex char_of_div_mod [of c]
    by (auto simp: escape_with_def unescape_short_def)
qed

lemma read_string_concat:
  assumes "hex_digits hx"
  shows "read_string (concat (map (escape_with hx) s) @ t) =
           map_option (\<lambda>(u, r). (s @ u, r)) (read_string t)"
proof (induction s)
  case Nil
  then show ?case by (simp add: option.map_ident case_prod_beta)
next
  case (Cons c s)
  then show ?case
    by (simp add: read_string_escape [OF assms] option.map_comp comp_def case_prod_beta)
qed

lemma read_string_quoted:
  "hex_digits hx \<Longrightarrow> read_string (tl (quoted hx s @ rest)) = Some (s, rest)"
  by (simp add: quoted_def read_string_concat)

lemma escape_no_newline: "hex_digits hx \<Longrightarrow> LF \<notin> set (escape_with hx c) \<and> NUL \<notin> set (escape_with hx c)"
proof -
  assume hx: "hex_digits hx"
  have "hx m \<noteq> LF \<and> hx m \<noteq> NUL" if "m < 16" for m
  proof -
    have "unhex (hx m) = Some m" using hx that by (simp add: hex_digits_def)
    moreover have "unhex LF = None" "unhex NUL = None" by (simp_all add: unhex_def)
    ultimately show ?thesis by (metis option.distinct(1))
  qed
  with char_nibbles [of c]
  have "LF \<noteq> hx (of_char c div 16) \<and> NUL \<noteq> hx (of_char c div 16)"
    "LF \<noteq> hx (of_char c mod 16) \<and> NUL \<noteq> hx (of_char c mod 16)" by metis+
  then show ?thesis by (auto simp: escape_with_def)
qed

lemma quoted_no_newline: "hex_digits hx \<Longrightarrow> LF \<notin> set (quoted hx s)"
  using escape_no_newline by (fastforce simp: quoted_def)

lemma nul_free_quoted: "hex_digits hx \<Longrightarrow> nul_free (quoted hx s)"
  using escape_no_newline by (fastforce simp: quoted_def nul_free_def)

section \<open>Compact serialisation\<close>

text \<open>
  The reference text of a value: no whitespace between tokens, members in the order of the
  list, strings escaped with upper-case hexadecimal digits as BoundedJsonWriter does.
\<close>

fun join_with :: "bytes \<Rightarrow> bytes list \<Rightarrow> bytes" where
  "join_with sep [] = []"
| "join_with sep [x] = x"
| "join_with sep (x # y # ys) = x @ sep @ join_with sep (y # ys)"

definition dec_i64 :: "u64 \<Rightarrow> bytes" where
  "dec_i64 w = (if sint w < 0 then CHR ''-'' # dec_nat (nat (- sint w)) else dec_nat (nat (sint w)))"

fun serialise :: "json \<Rightarrow> bytes" where
  "serialise JNull = ''null''"
| "serialise (JBool b) = (if b then ''true'' else ''false'')"
| "serialise (JUnsigned w) = dec_u64 w"
| "serialise (JSigned w) = dec_i64 w"
| "serialise (JFloat d) = format_g17 d"
| "serialise (JString s) = quoted hex_upper s"
| "serialise (JArray vs) = ''['' @ join_with '','' (map serialise vs) @ '']''"
| "serialise (JObject ms) =
     ''{'' @ join_with '','' (map (\<lambda>(k, v). quoted hex_upper k @ '':'' @ serialise v) ms) @ ''}''"

definition member_text :: "bytes \<times> json \<Rightarrow> bytes" where
  "member_text m = quoted hex_upper (fst m) @ '':'' @ serialise (snd m)"

lemma serialise_object: "serialise (JObject ms) = ''{'' @ join_with '','' (map member_text ms) @ ''}''"
proof -
  have "(\<lambda>(k, v). quoted hex_upper k @ '':'' @ serialise v) = member_text"
    by (simp add: fun_eq_iff member_text_def)
  then show ?thesis by simp
qed

text \<open>Serialised text holds no NUL and no newline: it stays one line and one C string.\<close>

definition clean :: "bytes \<Rightarrow> bool" where
  "clean s \<longleftrightarrow> NUL \<notin> set s \<and> LF \<notin> set s"

lemma clean_simps [simp]:
  "clean []" "clean (c # s) \<longleftrightarrow> c \<noteq> NUL \<and> c \<noteq> LF \<and> clean s"
  "clean (s @ t) \<longleftrightarrow> clean s \<and> clean t" "clean (dec_nat n)" "clean (format_g17 b)"
  "clean (quoted hex_upper t)"
  using numeral_text_clean [of "dec_nat n"] numeral_text_clean [OF numeral_text_format_g17, of b]
    nul_free_quoted [OF hex_digits_upper, of t] quoted_no_newline [OF hex_digits_upper, of t]
  by (auto simp: clean_def nul_free_def)

lemma clean_join_with: "clean sep \<Longrightarrow> (\<forall>x \<in> set xs. clean x) \<Longrightarrow> clean (join_with sep xs)"
  by (induction sep xs rule: join_with.induct) auto

lemma clean_serialise: "clean (serialise j)"
proof (induction j rule: serialise.induct)
  case (7 vs)
  then show ?case by (simp add: clean_join_with)
next
  case (8 ms)
  have "clean (join_with '','' (map (\<lambda>(k, v). quoted hex_upper k @ '':'' @ serialise v) ms))"
    by (rule clean_join_with) (use 8 in auto)
  then show ?case by simp
qed (simp_all add: dec_i64_def dec_u64_def)

section \<open>Writing an object member by member\<close>

text \<open>
  A writer that opens objects, adds members and closes objects produces this text. The state is
  the stack of open objects, innermost first; each entry says whether that object has no member
  yet, which decides the comma.
\<close>

datatype event =
    ObjBegin
  | FieldBegin bytes
  | FieldLit bytes bytes
  | FieldStr bytes bytes
  | ObjEnd

definition comma :: "bool \<Rightarrow> bytes" where
  "comma first = (if first then [] else '','')"

fun event_text :: "bool list \<Rightarrow> event \<Rightarrow> bytes" where
  "event_text st ObjBegin = ''{''"
| "event_text st (FieldBegin n) = comma (hd st) @ quoted hex_upper n @ '':{''"
| "event_text st (FieldLit n t) = comma (hd st) @ quoted hex_upper n @ '':'' @ t"
| "event_text st (FieldStr n s) = comma (hd st) @ quoted hex_upper n @ '':'' @ quoted hex_upper s"
| "event_text st ObjEnd = ''}''"

fun event_stack :: "bool list \<Rightarrow> event \<Rightarrow> bool list" where
  "event_stack st ObjBegin = True # st"
| "event_stack st (FieldBegin n) = True # False # tl st"
| "event_stack st (FieldLit n t) = False # tl st"
| "event_stack st (FieldStr n s) = False # tl st"
| "event_stack st ObjEnd = tl st"

fun events_text :: "bool list \<Rightarrow> event list \<Rightarrow> bytes" where
  "events_text st [] = []"
| "events_text st (e # es) = event_text st e @ events_text (event_stack st e) es"

fun events_stack :: "bool list \<Rightarrow> event list \<Rightarrow> bool list" where
  "events_stack st [] = st"
| "events_stack st (e # es) = events_stack (event_stack st e) es"

text \<open>What the code checks before an event: an open object, and the nesting bound \<open>d\<close>.\<close>

fun event_ok :: "nat \<Rightarrow> bool list \<Rightarrow> event \<Rightarrow> bool" where
  "event_ok d st ObjBegin = (st = [] \<and> 0 < d)"
| "event_ok d st (FieldBegin n) = (st \<noteq> [] \<and> length st < d)"
| "event_ok d st e = (st \<noteq> [])"

fun events_ok :: "nat \<Rightarrow> bool list \<Rightarrow> event list \<Rightarrow> bool" where
  "events_ok d st [] = True"
| "events_ok d st (e # es) = (event_ok d st e \<and> events_ok d (event_stack st e) es)"

lemma events_text_append:
  "events_text st (a @ b) = events_text st a @ events_text (events_stack st a) b"
  by (induction a arbitrary: st) auto

lemma events_stack_append: "events_stack st (a @ b) = events_stack (events_stack st a) b"
  by (induction a arbitrary: st) auto

lemma events_ok_append:
  "events_ok d st (a @ b) \<longleftrightarrow> events_ok d st a \<and> events_ok d (events_stack st a) b"
  by (induction a arbitrary: st) auto

text \<open>The events of a member list; only objects and flat values occur on the outbound path.\<close>

fun member_events :: "bytes \<times> json \<Rightarrow> event list" where
  "member_events (k, JObject ms) = FieldBegin k # concat (map member_events ms) @ [ObjEnd]"
| "member_events (k, JString s) = [FieldStr k s]"
| "member_events (k, v) = [FieldLit k (serialise v)]"

fun json_depth :: "json \<Rightarrow> nat" where
  "json_depth (JObject ms) = Suc (foldr max (map (json_depth \<circ> snd) ms) 0)"
| "json_depth v = 0"

definition object_events :: "(bytes \<times> json) list \<Rightarrow> event list" where
  "object_events ms = ObjBegin # concat (map member_events ms) @ [ObjEnd]"


text \<open>Writing the events of a member list gives the reference text of the object.\<close>

lemma join_with_Cons: "join_with sep (x # xs) = x @ (if xs = [] then [] else sep @ join_with sep xs)"
  by (cases xs) auto

definition writes_member :: "bytes \<times> json \<Rightarrow> bool" where
  "writes_member m \<longleftrightarrow> (\<forall>f st.
     events_text (f # st) (member_events m) = comma f @ member_text m \<and>
     events_stack (f # st) (member_events m) = False # st)"

lemma writes_members:
  assumes "\<And>m. m \<in> set ms \<Longrightarrow> writes_member m"
  shows "events_text (f # st) (concat (map member_events ms)) =
           (if ms = [] then [] else comma f @ join_with '','' (map member_text ms)) \<and>
         events_stack (f # st) (concat (map member_events ms)) = (f \<and> ms = []) # st"
  using assms
proof (induction ms arbitrary: f)
  case Nil
  then show ?case by simp
next
  case (Cons m ms)
  then have "writes_member m" by simp
  then have m: "events_text (f # st) (member_events m) = comma f @ member_text m"
    "events_stack (f # st) (member_events m) = False # st" by (auto simp: writes_member_def)
  from Cons have IH: "events_text (False # st) (concat (map member_events ms)) =
      (if ms = [] then [] else comma False @ join_with '','' (map member_text ms))"
    "events_stack (False # st) (concat (map member_events ms)) = False # st" by simp_all
  show ?case
    by (simp add: events_text_append events_stack_append m IH join_with_Cons comma_def)
qed

lemma writes_member: "writes_member m"
proof (induction m rule: member_events.induct)
  case (1 k ms)
  then have ms: "\<And>m. m \<in> set ms \<Longrightarrow> writes_member m" by simp
  show ?case
    using writes_members [OF ms, where f = True]
    by (simp add: writes_member_def events_text_append events_stack_append member_text_def
        serialise_object comma_def del: serialise.simps(8))
qed (simp_all add: writes_member_def member_text_def)

theorem object_events_text: "events_text [] (object_events ms) = serialise (JObject ms)"
  using writes_members [OF writes_member, where f = True and st = "[]" and ms = ms]
  by (simp add: object_events_def events_text_append events_stack_append serialise_object comma_def
      del: serialise.simps(8))

theorem object_events_stack: "events_stack [] (object_events ms) = []"
  using writes_members [OF writes_member, where f = True and st = "[]" and ms = ms]
  by (simp add: object_events_def events_stack_append)

lemma json_depth_member: "m \<in> set ms \<Longrightarrow> json_depth (snd m) < json_depth (JObject ms)"
proof -
  assume "m \<in> set ms"
  then have "json_depth (snd m) \<le> foldr max (map (json_depth \<circ> snd) ms) 0"
    by (induction ms) auto
  then show ?thesis by simp
qed

lemma members_ok:
  assumes "\<And>m f. m \<in> set ms \<Longrightarrow> events_ok d (f # st) (member_events m)"
  shows "events_ok d (f # st) (concat (map member_events ms))"
  using assms
proof (induction ms arbitrary: f)
  case Nil
  then show ?case by simp
next
  case (Cons m ms)
  have "events_stack (f # st) (member_events m) = False # st"
    using writes_member [of m] by (simp add: writes_member_def)
  with Cons show ?case by (simp add: events_ok_append)
qed

lemma member_ok: "length st + json_depth (snd m) < d \<Longrightarrow> events_ok d (f # st) (member_events m)"
proof (induction m arbitrary: st f rule: member_events.induct)
  case (1 k ms)
  have "events_ok d (g # False # st) (member_events m)" if "m \<in> set ms" for m g
  proof (rule "1.IH" [OF that])
    show "length (False # st) + json_depth (snd m) < d"
      using json_depth_member [OF that] "1.prems" by simp
  qed
  then have "events_ok d (True # False # st) (concat (map member_events ms))"
    by (rule members_ok)
  moreover have "events_stack (True # False # st) (concat (map member_events ms)) = (ms = []) # False # st"
    using writes_members [OF writes_member, where f = True] by simp
  ultimately show ?case using "1.prems" by (simp add: events_ok_append)
qed simp_all

theorem object_events_ok: "json_depth (JObject ms) \<le> d \<Longrightarrow> events_ok d [] (object_events ms)"
proof -
  assume d: "json_depth (JObject ms) \<le> d"
  have "events_ok d [f] (member_events m)" if "m \<in> set ms" for m f
    using json_depth_member [OF that] d by (intro member_ok) simp
  then have "events_ok d [True] (concat (map member_events ms))" by (rule members_ok)
  moreover have "events_stack [True] (concat (map member_events ms)) = [ms = []]"
    using writes_members [OF writes_member, where f = True and st = "[]"] by simp
  moreover have "0 < d" using d by simp
  ultimately show ?thesis by (simp add: object_events_def events_ok_append)
qed

end
