(* ===== verification/JsonWriter.thy ===== *)
theory JsonWriter
  imports Limits JsonText
begin

text \<open>
  The JSON writer of \<open>src/support/BoundedJsonWriter.h\<close>, operation by operation, and its
  refinement: a run of operations on a fresh writer produces the text of the events it stands
  for (theory \<open>JsonText\<close>), or fails, exactly according to whether that text fits.

  \<open>bw_text\<close> is \<open>buffer_[0 .. length_)\<close>; the byte at \<open>length_\<close> is the NUL that \<open>terminate\<close>
  writes whenever there is room. \<open>bw_first\<close> is the array \<open>first_\<close> of \<open>kMaxJsonNestingDepth\<close> flags.
\<close>

section \<open>State\<close>

record bounded_json_writer =
  bw_text :: bytes
  bw_capacity :: nat
  bw_depth :: nat
  bw_tail_reserve :: nat
  bw_failed :: bool
  bw_closed :: bool
  bw_first :: "bool list"

definition new_writer :: "nat \<Rightarrow> bounded_json_writer" where
  "new_writer capacity =
     \<lparr>bw_text = [], bw_capacity = capacity, bw_depth = 0, bw_tail_reserve = 0,
      bw_failed = False, bw_closed = False,
      bw_first = replicate kMaxJsonNestingDepth True\<rparr>"

section \<open>Bytes\<close>

definition remaining :: "bounded_json_writer \<Rightarrow> nat" where
  "remaining w =
     (if bw_capacity w \<le> bw_tail_reserve w
         \<or> bw_capacity w - bw_tail_reserve w \<le> length (bw_text w) then 0
      else bw_capacity w - bw_tail_reserve w - length (bw_text w))"

definition appendBytes :: "bytes \<Rightarrow> bounded_json_writer act" where
  "appendBytes value w =
     (if remaining w < length value then (False, w\<lparr>bw_failed := True\<rparr>)
      else (True, w\<lparr>bw_text := bw_text w @ value\<rparr>))"

definition appendByte :: "char \<Rightarrow> bounded_json_writer act" where
  "appendByte value = appendBytes [value]"

definition appendNewline :: "bounded_json_writer act" where
  "appendNewline = appendByte LF"

definition writeEscapedString :: "bytes \<Rightarrow> bounded_json_writer act" where
  "writeEscapedString value =
     run_all [appendByte QUOTE, put_each appendBytes (escape_with hex_upper) value,
              appendByte QUOTE]"

definition inObject :: "bounded_json_writer \<Rightarrow> bool" where
  "inObject w \<longleftrightarrow> 0 < bw_depth w \<and> \<not> bw_closed w"

definition writeFieldPrefix :: "bytes \<Rightarrow> bounded_json_writer act" where
  "writeFieldPrefix name w =
     (let top = bw_depth w - 1;
          (ok1, w1) = (if bw_first w ! top then (True, w) else appendByte (CHR '','') w)
      in if \<not> ok1 then (False, w1)
         else case run_all [writeEscapedString (cstr name), appendByte (CHR '':'')] w1 of
           (ok2, w2) \<Rightarrow>
             if \<not> ok2 then (False, w2)
             else (True, w2\<lparr>bw_first := (bw_first w2)[top := False]\<rparr>))"

section \<open>Snapshots\<close>

record snapshot =
  ss_length :: nat
  ss_depth :: nat
  ss_tail_reserve :: nat
  ss_closed :: bool
  ss_first :: "bool list"

definition capture :: "bounded_json_writer \<Rightarrow> snapshot" where
  "capture w =
     \<lparr>ss_length = length (bw_text w), ss_depth = bw_depth w,
      ss_tail_reserve = bw_tail_reserve w, ss_closed = bw_closed w, ss_first = bw_first w\<rparr>"

definition restore :: "snapshot \<Rightarrow> bounded_json_writer \<Rightarrow> bounded_json_writer" where
  "restore ss w =
     w\<lparr>bw_text := take (ss_length ss) (bw_text w), bw_depth := ss_depth ss,
       bw_tail_reserve := ss_tail_reserve ss, bw_closed := ss_closed ss,
       bw_first := ss_first ss, bw_failed := True\<rparr>"

section \<open>Objects and members\<close>

definition beginObject :: "bounded_json_writer act" where
  "beginObject w =
     (if bw_closed w \<or> kMaxJsonNestingDepth \<le> bw_depth w then (False, w\<lparr>bw_failed := True\<rparr>)
      else case appendByte (CHR ''{'') w of
        (ok, w') \<Rightarrow>
          if \<not> ok then (False, restore (capture w) w')
          else (True, w'\<lparr>bw_first := (bw_first w')[bw_depth w' := True],
                         bw_depth := bw_depth w' + 1\<rparr>))"

definition beginObjectField :: "c_string \<Rightarrow> bounded_json_writer act" where
  "beginObjectField name w =
     (case name of
        None \<Rightarrow> (False, w\<lparr>bw_failed := True\<rparr>)
      | Some nm \<Rightarrow>
          if \<not> inObject w \<or> kMaxJsonNestingDepth \<le> bw_depth w then (False, w\<lparr>bw_failed := True\<rparr>)
          else case run_all [writeFieldPrefix nm, appendByte (CHR ''{'')] w of
            (ok, w') \<Rightarrow>
              if \<not> ok then (False, restore (capture w) w')
              else (True, w'\<lparr>bw_first := (bw_first w')[bw_depth w' := True],
                             bw_depth := bw_depth w' + 1\<rparr>))"

definition endObject :: "bounded_json_writer act" where
  "endObject w =
     (if bw_depth w = 0 then (False, w\<lparr>bw_failed := True\<rparr>)
      else case appendByte (CHR ''}'') w of
        (ok, w') \<Rightarrow>
          if \<not> ok then (False, restore (capture w) w')
          else (True, w'\<lparr>bw_depth := bw_depth w' - 1, bw_closed := (bw_depth w' - 1 = 0)\<rparr>))"

definition addNumberLiteral :: "c_string \<Rightarrow> bytes \<Rightarrow> bounded_json_writer act" where
  "addNumberLiteral name literal w =
     (case name of
        None \<Rightarrow> (False, w\<lparr>bw_failed := True\<rparr>)
      | Some nm \<Rightarrow>
          if \<not> inObject w then (False, w\<lparr>bw_failed := True\<rparr>)
          else case run_all [writeFieldPrefix nm, appendBytes literal] w of
            (ok, w') \<Rightarrow> if \<not> ok then (False, restore (capture w) w') else (True, w'))"

text \<open>\<open>addString\<close> with an explicit length; the bytes may hold a NUL.\<close>

definition addStringBytes :: "c_string \<Rightarrow> c_string \<Rightarrow> bounded_json_writer act" where
  "addStringBytes name value w =
     (case (name, value) of
        (Some nm, Some v) \<Rightarrow>
          if \<not> inObject w then (False, w\<lparr>bw_failed := True\<rparr>)
          else (case run_all [writeFieldPrefix nm, writeEscapedString v] w of
            (ok, w') \<Rightarrow> if \<not> ok then (False, restore (capture w) w') else (True, w'))
      | _ \<Rightarrow> (False, w\<lparr>bw_failed := True\<rparr>))"

text \<open>\<open>addString\<close> of a C string: a null value fails without marking the writer failed.\<close>

definition addString :: "c_string \<Rightarrow> c_string \<Rightarrow> bounded_json_writer act" where
  "addString name value w =
     (case value of None \<Rightarrow> (False, w) | Some v \<Rightarrow> addStringBytes name (Some (cstr v)) w)"

definition addLiteral :: "c_string \<Rightarrow> bytes \<Rightarrow> bounded_json_writer act" where
  "addLiteral name literal = addNumberLiteral name literal"

definition addInt :: "c_string \<Rightarrow> i32 \<Rightarrow> bounded_json_writer act" where
  "addInt name value = addNumberLiteral name (dec_i32 value)"

definition addUInt64 :: "c_string \<Rightarrow> u64 \<Rightarrow> bounded_json_writer act" where
  "addUInt64 name value = addNumberLiteral name (dec_u64 value)"

definition addDouble :: "c_string \<Rightarrow> f64 \<Rightarrow> bounded_json_writer act" where
  "addDouble name value w =
     (if \<not> f64_finite value then (False, w\<lparr>bw_failed := True\<rparr>)
      else if kMaxDoubleLiteralBytes \<le> length (format_g17 value) then (False, w\<lparr>bw_failed := True\<rparr>)
      else addNumberLiteral name (format_g17 value) w)"

definition addBool :: "c_string \<Rightarrow> bool \<Rightarrow> bounded_json_writer act" where
  "addBool name value = addLiteral name (if value then ''true'' else ''false'')"

definition addNull :: "c_string \<Rightarrow> bounded_json_writer act" where
  "addNull name = addLiteral name ''null''"

definition reserveTailBytes :: "nat \<Rightarrow> bounded_json_writer act" where
  "reserveTailBytes n w =
     (if bw_capacity w < n \<or> bw_capacity w - n < length (bw_text w)
      then (False, w\<lparr>bw_failed := True\<rparr>)
      else (True, w\<lparr>bw_tail_reserve := n\<rparr>))"

definition releaseTailReserve :: "bounded_json_writer \<Rightarrow> bounded_json_writer" where
  "releaseTailReserve w = w\<lparr>bw_tail_reserve := 0\<rparr>"

section \<open>The byte level is a bounded sink\<close>

lemma remaining_eq: "remaining w = bw_capacity w - bw_tail_reserve w - length (bw_text w)"
  by (auto simp: remaining_def)

definition extend_text :: "bytes \<Rightarrow> bounded_json_writer \<Rightarrow> bounded_json_writer" where
  "extend_text t w = w\<lparr>bw_text := bw_text w @ t\<rparr>"

lemma extend_text_simps [simp]:
  "bw_text (extend_text t w) = bw_text w @ t"
  "bw_capacity (extend_text t w) = bw_capacity w"
  "bw_depth (extend_text t w) = bw_depth w"
  "bw_tail_reserve (extend_text t w) = bw_tail_reserve w"
  "bw_failed (extend_text t w) = bw_failed w"
  "bw_closed (extend_text t w) = bw_closed w"
  "bw_first (extend_text t w) = bw_first w"
  by (simp_all add: extend_text_def)

interpretation bjw: bounded_sink appendBytes extend_text remaining
  by unfold_locales (auto simp: emits_def appendBytes_def extend_text_def remaining_eq)

lemma emits_writeEscapedString:
  "emits extend_text remaining (writeEscapedString v) (quoted hex_upper v)"
  using bjw.emits_quoted [of QUOTE "escape_with hex_upper" v]
  by (simp add: writeEscapedString_def appendByte_def [abs_def] quoted_def)

text \<open>
  What a failed operation leaves behind lies after the snapshot's length, so restoring the
  snapshot gives the writer as it was, marked failed.
\<close>

definition grows :: "bounded_json_writer \<Rightarrow> bounded_json_writer \<Rightarrow> bool" where
  "grows w w' \<longleftrightarrow> bw_capacity w' = bw_capacity w \<and> (\<exists>t. bw_text w' = bw_text w @ t)"

lemma restore_capture: "grows w w' \<Longrightarrow> restore (capture w) w' = w\<lparr>bw_failed := True\<rparr>"
  by (auto simp: grows_def restore_def capture_def)

lemma grows_refl [simp]: "grows w w"
  by (simp add: grows_def)

lemma grows_trans: "grows w w' \<Longrightarrow> grows w' w'' \<Longrightarrow> grows w w''"
  by (auto simp: grows_def)

lemma grows_appendBytes: "grows w (snd (appendBytes v w))"
  by (simp add: appendBytes_def grows_def)

lemma grows_appendByte: "grows w (snd (appendByte c w))"
  by (simp add: appendByte_def grows_appendBytes)

lemma grows_run_all:
  assumes "\<And>f w. f \<in> set fs \<Longrightarrow> grows w (snd (f w))"
  shows "grows w (snd (run_all fs w))"
  by (rule run_all_preserves [where P = "grows w"]) (auto intro: assms grows_trans)

lemma grows_put_each: "grows w (snd (put_each appendBytes esc cs w))"
proof (induction cs arbitrary: w)
  case Nil
  then show ?case by simp
next
  case (Cons c cs)
  obtain ok w' where eq: "appendBytes (esc c) w = (ok, w')" by (cases "appendBytes (esc c) w")
  with grows_appendBytes [of w "esc c"] have "grows w w'" by simp
  with eq Cons [of w'] show ?case by (auto intro: grows_trans)
qed

lemma grows_writeEscapedString: "grows w (snd (writeEscapedString v w))"
  unfolding writeEscapedString_def
  by (rule grows_run_all) (auto simp: grows_appendByte grows_put_each)

lemma grows_first: "grows w w' \<Longrightarrow> grows w (w'\<lparr>bw_first := fs\<rparr>)"
  by (simp add: grows_def)

lemma grows_writeFieldPrefix: "grows w (snd (writeFieldPrefix n w))"
proof -
  obtain ok1 w1 where eq1: "(if bw_first w ! (bw_depth w - 1) then (True, w)
      else appendByte (CHR '','') w) = (ok1, w1)" by (meson surj_pair)
  obtain ok2 w2 where eq2: "run_all [writeEscapedString (cstr n), appendByte (CHR '':'')] w1 = (ok2, w2)"
    by (meson surj_pair)
  have "grows w w1" using eq1 grows_appendByte [of w "CHR '',''"] by (auto split: if_splits)
  moreover have "grows w1 (snd (run_all [writeEscapedString (cstr n), appendByte (CHR '':'')] w1))"
    by (rule grows_run_all) (auto simp: grows_appendByte grows_writeEscapedString)
  ultimately have "grows w w1" "grows w w2" using eq2 by (auto intro: grows_trans)
  then show ?thesis
    unfolding writeFieldPrefix_def Let_def eq1 prod.case eq2 by (simp add: grows_first)
qed

section \<open>The prefix of a member\<close>

definition prefix_text :: "bounded_json_writer \<Rightarrow> bytes \<Rightarrow> bytes" where
  "prefix_text w n = comma (bw_first w ! (bw_depth w - 1)) @ quoted hex_upper n @ '':''"

definition prefixed :: "bytes \<Rightarrow> bounded_json_writer \<Rightarrow> bounded_json_writer" where
  "prefixed n w =
     w\<lparr>bw_text := bw_text w @ prefix_text w n,
       bw_first := (bw_first w)[bw_depth w - 1 := False]\<rparr>"

lemma writeFieldPrefix_spec:
  assumes "nul_free n"
  shows "length (prefix_text w n) \<le> remaining w \<Longrightarrow> writeFieldPrefix n w = (True, prefixed n w)"
    and "remaining w < length (prefix_text w n) \<Longrightarrow> \<not> fst (writeFieldPrefix n w)"
proof -
  define f where "f = bw_first w ! (bw_depth w - 1)"
  define c where "c = (\<lambda>w. if f then (True, w) else appendByte (CHR '','') w)"
  define g where "g = run_all [writeEscapedString n, appendByte (CHR '':'')]"
  have c: "emits extend_text remaining c (comma f)"
    using bjw.emits_skip bjw.put_emits [of "'',''"]
    by (auto simp: c_def comma_def appendByte_def emits_def split: if_splits)
  have "emits extend_text remaining g (concat [quoted hex_upper n, '':''])"
    unfolding g_def
    by (rule bjw.emits_run_all) (simp add: emits_writeEscapedString appendByte_def bjw.put_emits)
  then have g: "emits extend_text remaining g (quoted hex_upper n @ '':'')" by simp
  have eq: "writeFieldPrefix n w = (case (case c w of (ok, w1) \<Rightarrow> if ok then g w1 else (False, w1)) of
      (ok, w2) \<Rightarrow> if \<not> ok then (False, w2)
        else (True, w2\<lparr>bw_first := (bw_first w2)[bw_depth w - 1 := False]\<rparr>))"
    using assms by (auto simp: writeFieldPrefix_def c_def g_def f_def Let_def split: prod.splits)
  have cg: "emits extend_text remaining (\<lambda>s. case c s of (ok, w1) \<Rightarrow> if ok then g w1 else (False, w1))
      (comma f @ quoted hex_upper n @ '':'')"
    by (rule bjw.emits_seq [OF c g])
  show "writeFieldPrefix n w = (True, prefixed n w)" if "length (prefix_text w n) \<le> remaining w"
  proof -
    have "length (comma f @ quoted hex_upper n @ '':'') \<le> remaining w"
      using that by (simp add: prefix_text_def f_def)
    from emits_fits [OF cg this] show ?thesis
      by (simp add: eq prefixed_def prefix_text_def f_def extend_text_def)
  qed
  show "\<not> fst (writeFieldPrefix n w)" if "remaining w < length (prefix_text w n)"
  proof -
    have "remaining w < length (comma f @ quoted hex_upper n @ '':'')"
      using that by (simp add: prefix_text_def f_def)
    from emits_full [OF cg this] show ?thesis by (auto simp: eq split: prod.splits)
  qed
qed

section \<open>Refinement: the writer performs events\<close>

text \<open>
  The abstract state of a writer is the stack of its open objects, innermost first: the flags
  \<open>first_[0 .. depth_)\<close> reversed. \<open>writer_ok\<close> is the invariant all operations keep.
\<close>

definition writer_stack :: "bounded_json_writer \<Rightarrow> bool list" where
  "writer_stack w = rev (take (bw_depth w) (bw_first w))"

definition writer_ok :: "bounded_json_writer \<Rightarrow> bool" where
  "writer_ok w \<longleftrightarrow>
     length (bw_first w) = kMaxJsonNestingDepth \<and> bw_depth w \<le> kMaxJsonNestingDepth \<and>
     (bw_closed w \<longrightarrow> bw_depth w = 0) \<and> length (bw_text w) \<le> bw_capacity w"

fun exec_event :: "event \<Rightarrow> bounded_json_writer act" where
  "exec_event ObjBegin = beginObject"
| "exec_event (FieldBegin n) = beginObjectField (Some n)"
| "exec_event (FieldLit n t) = addNumberLiteral (Some n) t"
| "exec_event (FieldStr n v) = addStringBytes (Some n) (Some v)"
| "exec_event ObjEnd = endObject"

fun event_names_ok :: "event \<Rightarrow> bool" where
  "event_names_ok (FieldBegin n) = nul_free n"
| "event_names_ok (FieldLit n t) = nul_free n"
| "event_names_ok (FieldStr n v) = nul_free n"
| "event_names_ok e = True"

lemma writer_ok_new [simp]: "writer_ok (new_writer k)"
  by (simp add: writer_ok_def new_writer_def)

lemma length_writer_stack: "writer_ok w \<Longrightarrow> length (writer_stack w) = bw_depth w"
  by (simp add: writer_stack_def writer_ok_def)

lemma writer_stack_Nil_iff: "writer_ok w \<Longrightarrow> writer_stack w = [] \<longleftrightarrow> bw_depth w = 0"
  using length_writer_stack [of w] by auto

lemma writer_stack_hd:
  assumes "writer_ok w" and "0 < bw_depth w"
  shows "hd (writer_stack w) = bw_first w ! (bw_depth w - 1)"
    and "tl (writer_stack w) = rev (take (bw_depth w - 1) (bw_first w))"
proof -
  obtain k where k: "bw_depth w = Suc k" using assms(2) by (cases "bw_depth w") auto
  with assms(1) have "k < length (bw_first w)" by (simp add: writer_ok_def)
  then have "writer_stack w = bw_first w ! k # rev (take k (bw_first w))"
    by (simp add: writer_stack_def k take_Suc_conv_app_nth)
  then show "hd (writer_stack w) = bw_first w ! (bw_depth w - 1)"
    and "tl (writer_stack w) = rev (take (bw_depth w - 1) (bw_first w))" by (simp_all add: k)
qed

text \<open>What a successful event leaves: the text extended, the stack moved, the rest untouched.\<close>

definition performed :: "event \<Rightarrow> bounded_json_writer \<Rightarrow> bounded_json_writer \<Rightarrow> bool" where
  "performed e w w' \<longleftrightarrow>
     bw_text w' = bw_text w @ event_text (writer_stack w) e \<and>
     writer_stack w' = event_stack (writer_stack w) e \<and>
     bw_closed w' = (event_stack (writer_stack w) e = []) \<and>
     bw_capacity w' = bw_capacity w \<and> bw_tail_reserve w' = bw_tail_reserve w \<and>
     bw_failed w' = bw_failed w \<and> writer_ok w'"

lemma appendByte_spec:
  "appendByte c w = (if 1 \<le> remaining w then (True, extend_text [c] w) else (False, w\<lparr>bw_failed := True\<rparr>))"
  by (auto simp: appendByte_def appendBytes_def extend_text_def)

lemma prefixed_simps [simp]:
  "bw_text (prefixed n w) = bw_text w @ prefix_text w n"
  "bw_capacity (prefixed n w) = bw_capacity w"
  "bw_depth (prefixed n w) = bw_depth w"
  "bw_tail_reserve (prefixed n w) = bw_tail_reserve w"
  "bw_failed (prefixed n w) = bw_failed w"
  "bw_closed (prefixed n w) = bw_closed w"
  "bw_first (prefixed n w) = (bw_first w)[bw_depth w - 1 := False]"
  by (simp_all add: prefixed_def)

text \<open>The common shape of the three operations that write a member: prefix, then a body.\<close>

lemma prefix_then:
  assumes "nul_free n" and body: "emits extend_text remaining body t"
    and grow: "\<And>w. grows w (snd (body w))"
  shows "(case run_all [writeFieldPrefix n, body] w of
            (ok, w') \<Rightarrow> if \<not> ok then (False, restore (capture w) w') else (True, k w')) =
         (if length (prefix_text w n @ t) \<le> remaining w then (True, k (extend_text t (prefixed n w)))
          else (False, w\<lparr>bw_failed := True\<rparr>))"
proof -
  have g: "grows w (snd (run_all [writeFieldPrefix n, body] w))"
    by (rule grows_run_all) (auto simp: grows_writeFieldPrefix grow)
  have rem: "remaining (prefixed n w) = remaining w - length (prefix_text w n)"
    by (simp add: remaining_eq)
  show ?thesis
  proof (cases "length (prefix_text w n) \<le> remaining w")
    case True
    then have p: "writeFieldPrefix n w = (True, prefixed n w)"
      using writeFieldPrefix_spec(1) [OF assms(1)] by simp
    show ?thesis
    proof (cases "length (prefix_text w n @ t) \<le> remaining w")
      case True
      then have "body (prefixed n w) = (True, extend_text t (prefixed n w))"
        using body by (intro emits_fits) (auto simp: rem)
      with True p show ?thesis by simp
    next
      case False
      then have "\<not> fst (body (prefixed n w))"
        using True by (intro emits_full [OF body]) (simp add: rem)
      with False p g show ?thesis by (auto simp: restore_capture split: prod.splits)
    qed
  next
    case False
    then have "\<not> fst (writeFieldPrefix n w)"
      using writeFieldPrefix_spec(2) [OF assms(1)] by simp
    with False g show ?thesis by (auto simp: restore_capture split: prod.splits)
  qed
qed

lemma member_performed:
  assumes "writer_ok w" and "inObject w" and "length (prefix_text w n @ t) \<le> remaining w"
  shows "let w' = extend_text t (prefixed n w) in
     bw_text w' = bw_text w @ comma (hd (writer_stack w)) @ quoted hex_upper n @ '':'' @ t \<and>
     writer_stack w' = False # tl (writer_stack w) \<and> \<not> bw_closed w' \<and>
     bw_capacity w' = bw_capacity w \<and> bw_tail_reserve w' = bw_tail_reserve w \<and>
     bw_failed w' = bw_failed w \<and> bw_depth w' = bw_depth w \<and> writer_ok w'"
proof -
  have d: "0 < bw_depth w" "\<not> bw_closed w" using assms(2) by (simp_all add: inObject_def)
  obtain k where k: "bw_depth w = Suc k" using d by (cases "bw_depth w") auto
  have len: "k < length (bw_first w)" using assms(1) k by (simp add: writer_ok_def)
  have "rev (take (Suc k) ((bw_first w)[k := False])) = False # rev (take k (bw_first w))"
    using len by (simp add: take_Suc_conv_app_nth)
  moreover have "length (bw_text w @ prefix_text w n @ t) \<le> bw_capacity w"
    using assms(1,3) unfolding remaining_eq writer_ok_def length_append by arith
  ultimately show ?thesis
    using assms(1) d writer_stack_hd [OF assms(1) d(1)]
    by (simp add: Let_def k writer_stack_def prefix_text_def writer_ok_def)
qed

lemma push_stack:
  assumes "writer_ok w" and "bw_depth w < kMaxJsonNestingDepth"
  shows "writer_stack (w\<lparr>bw_first := (bw_first w)[bw_depth w := True], bw_depth := bw_depth w + 1\<rparr>)
           = True # writer_stack w"
proof -
  have "bw_depth w < length (bw_first w)" using assms by (simp add: writer_ok_def)
  then show ?thesis by (simp add: writer_stack_def take_Suc_conv_app_nth)
qed

lemma open_inObject: "writer_ok w \<Longrightarrow> \<not> bw_closed w \<Longrightarrow> writer_stack w \<noteq> [] \<Longrightarrow> inObject w"
  by (simp add: inObject_def writer_stack_Nil_iff)

lemma exec_ObjBegin:
  assumes "writer_ok w" and "\<not> bw_closed w" and "writer_stack w = []"
  shows "1 \<le> remaining w \<Longrightarrow> \<exists>w'. beginObject w = (True, w') \<and> performed ObjBegin w w'"
    and "remaining w < 1 \<Longrightarrow> beginObject w = (False, w\<lparr>bw_failed := True\<rparr>)"
proof -
  have d: "bw_depth w = 0" using assms by (simp add: writer_stack_Nil_iff)
  show "\<exists>w'. beginObject w = (True, w') \<and> performed ObjBegin w w'" if r: "1 \<le> remaining w"
  proof -
    define u where "u = extend_text ''{'' w"
    define w' where "w' = u\<lparr>bw_first := (bw_first u)[bw_depth u := True], bw_depth := bw_depth u + 1\<rparr>"
    have u: "writer_ok u" using r assms(1) by (auto simp: u_def writer_ok_def remaining_eq)
    have du: "bw_depth u < kMaxJsonNestingDepth" by (simp add: u_def d limits)
    have "beginObject w = (True, w')"
      using r assms(2) by (simp add: beginObject_def d appendByte_spec w'_def u_def limits)
    moreover have "performed ObjBegin w w'"
      using u push_stack [OF u du, folded w'_def] assms
      by (auto simp: performed_def w'_def u_def writer_ok_def d limits writer_stack_def)
    ultimately show ?thesis by blast
  qed
  show "beginObject w = (False, w\<lparr>bw_failed := True\<rparr>)" if "remaining w < 1"
    using that assms(2) d
    by (simp add: beginObject_def appendByte_spec restore_capture grows_def limits)
qed

lemma exec_FieldBegin:
  assumes "writer_ok w" and "\<not> bw_closed w" and "nul_free n" and "writer_stack w \<noteq> []"
    and "length (writer_stack w) < kMaxJsonNestingDepth"
  shows "length (event_text (writer_stack w) (FieldBegin n)) \<le> remaining w \<Longrightarrow>
           \<exists>w'. beginObjectField (Some n) w = (True, w') \<and> performed (FieldBegin n) w w'"
    and "remaining w < length (event_text (writer_stack w) (FieldBegin n)) \<Longrightarrow>
           beginObjectField (Some n) w = (False, w\<lparr>bw_failed := True\<rparr>)"
proof -
  have io: "inObject w" using assms by (simp add: open_inObject)
  have d: "bw_depth w < kMaxJsonNestingDepth" "0 < bw_depth w"
    using assms by (simp_all add: length_writer_stack writer_stack_Nil_iff)
  have hd: "hd (writer_stack w) = bw_first w ! (bw_depth w - 1)"
    using writer_stack_hd [OF assms(1) d(2)] by simp
  have len: "length (event_text (writer_stack w) (FieldBegin n)) = length (prefix_text w n @ ''{'')"
    by (simp add: prefix_text_def hd)
  have brace: "emits extend_text remaining (appendByte (CHR ''{'')) ''{''"
    by (simp add: appendByte_def bjw.put_emits)
  note eq = prefix_then [OF assms(3) brace grows_appendByte, of w]
  show "\<exists>w'. beginObjectField (Some n) w = (True, w') \<and> performed (FieldBegin n) w w'"
    if "length (event_text (writer_stack w) (FieldBegin n)) \<le> remaining w"
  proof -
    define u where "u = extend_text ''{'' (prefixed n w)"
    define w' where "w' = u\<lparr>bw_first := (bw_first u)[bw_depth u := True], bw_depth := bw_depth u + 1\<rparr>"
    have r: "length (prefix_text w n @ ''{'') \<le> remaining w" using that len by simp
    note u = member_performed [OF assms(1) io r, unfolded Let_def, folded u_def]
    have st: "writer_stack w' = True # writer_stack u"
      unfolding w'_def using u d by (intro push_stack) simp_all
    have "beginObjectField (Some n) w = (True, w')"
      using r io d by (simp add: beginObjectField_def eq w'_def u_def del: run_all.simps)
    moreover have "performed (FieldBegin n) w w'"
      using u d st by (auto simp: performed_def w'_def writer_ok_def)
    ultimately show ?thesis by blast
  qed
  show "beginObjectField (Some n) w = (False, w\<lparr>bw_failed := True\<rparr>)"
    if "remaining w < length (event_text (writer_stack w) (FieldBegin n))"
    using that io d by (simp add: beginObjectField_def eq len del: event_text.simps run_all.simps)
qed

lemma exec_member:
  assumes "writer_ok w" and "\<not> bw_closed w" and "nul_free n" and "writer_stack w \<noteq> []"
    and body: "emits extend_text remaining body t" and grow: "\<And>w. grows w (snd (body w))"
    and etext: "event_text (writer_stack w) e = comma (hd (writer_stack w)) @ quoted hex_upper n @ '':'' @ t"
    and stack: "event_stack (writer_stack w) e = False # tl (writer_stack w)"
    and exec: "inObject w \<Longrightarrow> exec_event e w = (case run_all [writeFieldPrefix n, body] w of
            (ok, w') \<Rightarrow> if \<not> ok then (False, restore (capture w) w') else (True, w'))"
  shows "length (event_text (writer_stack w) e) \<le> remaining w \<Longrightarrow>
           \<exists>w'. exec_event e w = (True, w') \<and> performed e w w'"
    and "remaining w < length (event_text (writer_stack w) e) \<Longrightarrow>
           exec_event e w = (False, w\<lparr>bw_failed := True\<rparr>)"
proof -
  have io: "inObject w" using assms by (simp add: open_inObject)
  have d: "0 < bw_depth w" using assms by (simp add: writer_stack_Nil_iff)
  have hd: "hd (writer_stack w) = bw_first w ! (bw_depth w - 1)"
    using writer_stack_hd [OF assms(1) d] by simp
  have len: "length (event_text (writer_stack w) e) = length (prefix_text w n @ t)"
    by (simp add: prefix_text_def hd etext)
  note eq = prefix_then [OF assms(3) body grow, of w "\<lambda>w. w"]
  show "\<exists>w'. exec_event e w = (True, w') \<and> performed e w w'"
    if "length (event_text (writer_stack w) e) \<le> remaining w"
  proof -
    have r: "length (prefix_text w n @ t) \<le> remaining w" using that len by simp
    then have "exec_event e w = (True, extend_text t (prefixed n w))"
      unfolding exec [OF io] eq by simp
    moreover have "performed e w (extend_text t (prefixed n w))"
      using member_performed [OF assms(1) io r] by (simp add: performed_def Let_def etext stack)
    ultimately show ?thesis by blast
  qed
  show "exec_event e w = (False, w\<lparr>bw_failed := True\<rparr>)"
    if "remaining w < length (event_text (writer_stack w) e)"
    using that unfolding exec [OF io] eq len by simp
qed

lemma exec_ObjEnd:
  assumes "writer_ok w" and "\<not> bw_closed w" and "writer_stack w \<noteq> []"
  shows "1 \<le> remaining w \<Longrightarrow> \<exists>w'. endObject w = (True, w') \<and> performed ObjEnd w w'"
    and "remaining w < 1 \<Longrightarrow> endObject w = (False, w\<lparr>bw_failed := True\<rparr>)"
proof -
  have d: "0 < bw_depth w" using assms by (simp add: writer_stack_Nil_iff)
  show "\<exists>w'. endObject w = (True, w') \<and> performed ObjEnd w w'" if r: "1 \<le> remaining w"
  proof -
    define u where "u = extend_text ''}'' w"
    define w' where "w' = u\<lparr>bw_depth := bw_depth u - 1, bw_closed := (bw_depth u - 1 = 0)\<rparr>"
    have st: "writer_stack w' = tl (writer_stack w)"
      using writer_stack_hd [OF assms(1) d] by (simp add: w'_def u_def writer_stack_def)
    have "endObject w = (True, w')" using r d by (simp add: endObject_def appendByte_spec w'_def u_def)
    moreover have ok: "writer_ok w'"
      using r assms(1) by (auto simp: w'_def u_def writer_ok_def remaining_eq)
    moreover have "bw_closed w' = (writer_stack w' = [])"
      using writer_stack_Nil_iff [OF ok] by (simp add: w'_def)
    ultimately show ?thesis using st by (auto simp: performed_def w'_def u_def)
  qed
  show "endObject w = (False, w\<lparr>bw_failed := True\<rparr>)" if "remaining w < 1"
    using that d by (simp add: endObject_def appendByte_spec restore_capture grows_def)
qed

theorem exec_event_spec:
  assumes ok: "writer_ok w" and nc: "\<not> bw_closed w" and names: "event_names_ok e"
    and ev: "event_ok kMaxJsonNestingDepth (writer_stack w) e"
  shows "length (event_text (writer_stack w) e) \<le> remaining w \<Longrightarrow>
           \<exists>w'. exec_event e w = (True, w') \<and> performed e w w'"
    and "remaining w < length (event_text (writer_stack w) e) \<Longrightarrow>
           exec_event e w = (False, w\<lparr>bw_failed := True\<rparr>)"
proof -
  have "(length (event_text (writer_stack w) e) \<le> remaining w \<longrightarrow>
           (\<exists>w'. exec_event e w = (True, w') \<and> performed e w w')) \<and>
        (remaining w < length (event_text (writer_stack w) e) \<longrightarrow>
           exec_event e w = (False, w\<lparr>bw_failed := True\<rparr>))"
  proof (cases e)
    case ObjBegin
    then show ?thesis using exec_ObjBegin [OF ok nc] ev by simp
  next
    case (FieldBegin n)
    then show ?thesis using exec_FieldBegin [OF ok nc, of n] ev names
      by (simp del: event_text.simps)
  next
    case (FieldLit n t)
    have "emits extend_text remaining (appendBytes t) t" by (rule bjw.put_emits)
    from exec_member [OF ok nc _ _ this grows_appendBytes, of n e] FieldLit ev names
    show ?thesis by (auto simp: addNumberLiteral_def simp del: run_all.simps)
  next
    case (FieldStr n v)
    from exec_member [OF ok nc _ _ emits_writeEscapedString grows_writeEscapedString, of n e v]
      FieldStr ev names
    show ?thesis by (auto simp: addStringBytes_def simp del: run_all.simps)
  next
    case ObjEnd
    then show ?thesis using exec_ObjEnd [OF ok nc] ev by simp
  qed
  then show "length (event_text (writer_stack w) e) \<le> remaining w \<Longrightarrow>
           \<exists>w'. exec_event e w = (True, w') \<and> performed e w w'"
    and "remaining w < length (event_text (writer_stack w) e) \<Longrightarrow>
           exec_event e w = (False, w\<lparr>bw_failed := True\<rparr>)" by blast+
qed

section \<open>Refinement: whole objects\<close>

definition performed_all :: "event list \<Rightarrow> bounded_json_writer \<Rightarrow> bounded_json_writer \<Rightarrow> bool" where
  "performed_all es w w' \<longleftrightarrow>
     bw_text w' = bw_text w @ events_text (writer_stack w) es \<and>
     writer_stack w' = events_stack (writer_stack w) es \<and>
     bw_closed w' = (if es = [] then bw_closed w else events_stack (writer_stack w) es = []) \<and>
     bw_capacity w' = bw_capacity w \<and> bw_tail_reserve w' = bw_tail_reserve w \<and>
     bw_failed w' = bw_failed w \<and> writer_ok w'"

theorem exec_events_spec:
  assumes "writer_ok w" and "es = [] \<or> \<not> bw_closed w" and "ObjBegin \<notin> set (tl es)"
    and "\<forall>e \<in> set es. event_names_ok e"
    and "events_ok kMaxJsonNestingDepth (writer_stack w) es"
  shows "(length (events_text (writer_stack w) es) \<le> remaining w \<longrightarrow>
            (\<exists>w'. run_all (map exec_event es) w = (True, w') \<and> performed_all es w w')) \<and>
         (remaining w < length (events_text (writer_stack w) es) \<longrightarrow>
            (\<exists>w'. run_all (map exec_event es) w = (False, w') \<and> bw_failed w'))"
  using assms
proof (induction es arbitrary: w)
  case Nil
  then show ?case by (simp add: performed_all_def)
next
  case (Cons e es)
  let ?st = "writer_stack w"
  from Cons.prems have e: "\<not> bw_closed w" "event_names_ok e" "event_ok kMaxJsonNestingDepth ?st e"
    by simp_all
  note step = exec_event_spec [OF Cons.prems(1) e]
  show ?case
  proof (cases "length (event_text ?st e) \<le> remaining w")
    case False
    with step(2) show ?thesis by simp
  next
    case True
    with step(1) obtain w1 where w1: "exec_event e w = (True, w1)" "performed e w w1" by blast
    then have p: "bw_text w1 = bw_text w @ event_text ?st e" "writer_stack w1 = event_stack ?st e"
      "bw_closed w1 = (event_stack ?st e = [])" "bw_capacity w1 = bw_capacity w"
      "bw_tail_reserve w1 = bw_tail_reserve w" "bw_failed w1 = bw_failed w" "writer_ok w1"
      by (simp_all add: performed_def)
    have open1: "es = [] \<or> \<not> bw_closed w1"
    proof (cases es)
      case (Cons e' es')
      with Cons.prems have "event_ok kMaxJsonNestingDepth (event_stack ?st e) e'" "e' \<noteq> ObjBegin"
        by auto
      then have "event_stack ?st e \<noteq> []" by (cases e') auto
      then show ?thesis using p by simp
    qed simp
    have rest: "ObjBegin \<notin> set (tl es)" using Cons.prems(3) by (cases es) auto
    have ok1: "\<forall>e \<in> set es. event_names_ok e"
      "events_ok kMaxJsonNestingDepth (writer_stack w1) es" using Cons.prems p(2) by simp_all
    have rem: "remaining w1 = remaining w - length (event_text ?st e)" by (simp add: remaining_eq p)
    note IH = Cons.IH [OF p(7) open1 rest ok1, unfolded p(2) rem]
    show ?thesis
    proof (cases "length (events_text ?st (e # es)) \<le> remaining w")
      case True
      then have "length (events_text (event_stack ?st e) es) \<le> remaining w - length (event_text ?st e)"
        by simp
      with IH obtain w' where "run_all (map exec_event es) w1 = (True, w')" "performed_all es w1 w'"
        by blast
      then have "run_all (map exec_event (e # es)) w = (True, w') \<and> performed_all (e # es) w w'"
        using w1 p by (auto simp: performed_all_def)
      with True show ?thesis by auto
    next
      case False
      then have "remaining w - length (event_text ?st e) < length (events_text (event_stack ?st e) es)"
        using True by simp
      with IH w1 False show ?thesis by auto
    qed
  qed
qed

text \<open>
  The shape of every line the firmware builds with this writer: a fresh writer over the
  buffer, one byte kept back for the newline, the object, the newline, and the wire limit.
\<close>

definition build_line :: "nat \<Rightarrow> bounded_json_writer act list \<Rightarrow> bytes option" where
  "build_line capacity ops =
     (case run_all ops (snd (reserveTailBytes 1 (new_writer capacity))) of
        (ok, w) \<Rightarrow>
          if \<not> ok then None
          else case appendNewline (releaseTailReserve w) of
            (ok', w') \<Rightarrow>
              if \<not> ok' \<or> kBoardTxMaxLineBytes < length (bw_text w') then None
              else Some (bw_text w'))"

lemma object_events_tail: "ObjBegin \<notin> set (tl (object_events ms))"
proof -
  have "ObjBegin \<notin> set (member_events m)" for m
    by (induction m rule: member_events.induct) auto
  then show ?thesis by (auto simp: object_events_def)
qed

theorem build_line_spec:
  assumes "0 < capacity" and "json_depth (JObject ms) \<le> kMaxJsonNestingDepth"
    and "\<forall>e \<in> set (object_events ms). event_names_ok e"
  shows "build_line capacity (map exec_event (object_events ms)) =
    (let line = serialise (JObject ms) @ [LF] in
     if length line \<le> capacity \<and> length line \<le> kBoardTxMaxLineBytes then Some line else None)"
proof -
  define w0 where "w0 = (new_writer capacity)\<lparr>bw_tail_reserve := 1\<rparr>"
  have res: "snd (reserveTailBytes 1 (new_writer capacity)) = w0"
    using assms(1) by (simp add: reserveTailBytes_def new_writer_def w0_def)
  have w0: "writer_ok w0" "\<not> bw_closed w0" "writer_stack w0 = []" "bw_text w0 = []"
    "bw_capacity w0 = capacity"
    by (simp_all add: w0_def new_writer_def writer_ok_def writer_stack_def)
  have rem: "remaining w0 = capacity - 1" by (simp add: remaining_eq w0_def new_writer_def)
  have run: "(length (serialise (JObject ms)) \<le> capacity - 1 \<longrightarrow>
       (\<exists>w'. run_all (map exec_event (object_events ms)) w0 = (True, w') \<and>
             performed_all (object_events ms) w0 w')) \<and>
     (capacity - 1 < length (serialise (JObject ms)) \<longrightarrow>
       (\<exists>w'. run_all (map exec_event (object_events ms)) w0 = (False, w') \<and> bw_failed w'))"
    using exec_events_spec [OF w0(1), of "object_events ms"] w0 object_events_tail [of ms] assms
      object_events_ok [OF assms(2)]
    by (simp add: rem object_events_text del: serialise.simps)
  show ?thesis
  proof (cases "length (serialise (JObject ms)) \<le> capacity - 1")
    case True
    with run obtain w' where w': "run_all (map exec_event (object_events ms)) w0 = (True, w')"
      "performed_all (object_events ms) w0 w'" by blast
    then have t: "bw_text w' = serialise (JObject ms)" "bw_capacity w' = capacity"
      using w0 by (simp_all add: performed_all_def object_events_text del: serialise.simps)
    have "appendNewline (releaseTailReserve w') = (True, extend_text [LF] (releaseTailReserve w'))"
      using True assms(1) t
      by (simp add: appendNewline_def appendByte_spec remaining_eq releaseTailReserve_def)
    then show ?thesis
      using True assms(1) t unfolding build_line_def res w'(1)
      by (auto simp: releaseTailReserve_def Let_def simp del: serialise.simps)
  next
    case False
    with run obtain w' where w': "run_all (map exec_event (object_events ms)) w0 = (False, w')" by auto
    from False show ?thesis unfolding build_line_def res w' by (auto simp: Let_def simp del: serialise.simps)
  qed
qed

text \<open>The operations on non-null C strings, as events.\<close>

lemma as_events:
  "beginObject = exec_event ObjBegin"
  "endObject = exec_event ObjEnd"
  "beginObjectField (Some n) = exec_event (FieldBegin n)"
  "addString (Some n) (Some v) = exec_event (FieldStr n (cstr v))"
  "addStringBytes (Some n) (Some v) = exec_event (FieldStr n v)"
  "addUInt64 (Some n) x = exec_event (FieldLit n (dec_u64 x))"
  "addInt (Some n) y = exec_event (FieldLit n (dec_i32 y))"
  "addBool (Some n) b = exec_event (FieldLit n (if b then ''true'' else ''false''))"
  by (simp_all add: fun_eq_iff addString_def addUInt64_def addInt_def addBool_def addLiteral_def)

section \<open>Composing the builders of a line\<close>

text \<open>
  \<open>writes f es\<close>: the C++ function \<open>f\<close>, a chain of writer calls, does what the events \<open>es\<close> do. The
  rules below compose it along the nesting of the calls.
\<close>

definition writes :: "bounded_json_writer act \<Rightarrow> event list \<Rightarrow> bool" where
  "writes f es \<longleftrightarrow> f = run_all (map exec_event es)"

lemma writes_event: "writes (exec_event e) [e]"
  by (simp add: writes_def fun_eq_iff del: run_all.simps exec_event.simps)

lemma writes_run_all:
  assumes "list_all2 writes fs ess"
  shows "writes (run_all fs) (concat ess)"
proof -
  have "fs = map (\<lambda>es. run_all (map exec_event es)) ess"
    using assms by (induction fs ess rule: list_all2_induct) (simp_all add: writes_def)
  then have "run_all fs w = run_all (map exec_event (concat ess)) w" for w
    using run_all_concat [of "map (map exec_event) ess" w] by (simp add: comp_def map_concat)
  then show ?thesis by (simp add: writes_def fun_eq_iff)
qed

lemma writes_map: "(\<And>x. x \<in> set xs \<Longrightarrow> writes (f x) (g x)) \<Longrightarrow> writes (run_all (map f xs)) (concat (map g xs))"
  by (rule writes_run_all) (simp add: list_all2_conv_all_nth)

lemma writes_as_event: "f = exec_event e \<Longrightarrow> writes f [e]"
  by (simp add: writes_event)

fun json_names_ok :: "json \<Rightarrow> bool" where
  "json_names_ok (JObject ms) = (\<forall>m \<in> set ms. nul_free (fst m) \<and> json_names_ok (snd m))"
| "json_names_ok v = True"

lemma member_events_names:
  "nul_free (fst m) \<Longrightarrow> json_names_ok (snd m) \<Longrightarrow> e \<in> set (member_events m) \<Longrightarrow> event_names_ok e"
proof (induction m arbitrary: e rule: member_events.induct)
  case (1 k ms)
  then show ?case by auto
qed auto

lemma object_events_names:
  "json_names_ok (JObject ms) \<Longrightarrow> \<forall>e \<in> set (object_events ms). event_names_ok e"
  using member_events_names by (auto simp: object_events_def)

text \<open>The line an object is sent as, and the builder of a line from the member list it writes.\<close>

definition line_of :: "(bytes \<times> json) list \<Rightarrow> bytes" where
  "line_of ms = serialise (JObject ms) @ [LF]"

lemma line_of_shape:
  "nul_free (line_of ms)" "last (line_of ms) = LF" "line_of ms \<noteq> []"
  "LF \<notin> set (butlast (line_of ms))"
  using clean_serialise [of "JObject ms"]
  by (simp_all add: line_of_def clean_def nul_free_def butlast_append del: serialise.simps)

lemma build_line_members:
  assumes "0 < capacity" and "json_depth (JObject ms) \<le> kMaxJsonNestingDepth"
    and "json_names_ok (JObject ms)" and "writes (run_all ops) (object_events ms)"
  shows "build_line capacity ops =
    (if length (line_of ms) \<le> min capacity kBoardTxMaxLineBytes then Some (line_of ms) else None)"
proof -
  have "build_line capacity ops = build_line capacity (map exec_event (object_events ms))"
    using assms(4) by (simp add: build_line_def writes_def)
  with build_line_spec [OF assms(1,2) object_events_names [OF assms(3)]] show ?thesis
    by (simp add: line_of_def Let_def)
qed

section \<open>Properties\<close>

text \<open>
  C34: a line is sent whole or not at all. Building an object member by member in a buffer gives
  exactly its compact JSON text and one newline when that fits the buffer and the 8192-byte wire
  limit, and is refused otherwise: no truncated, unbalanced or unterminated line can come out.
\<close>

theorem build_line_exact:
  assumes "0 < capacity" and "json_depth (JObject ms) \<le> kMaxJsonNestingDepth"
    and "json_names_ok (JObject ms)"
  shows "build_line capacity (map exec_event (object_events ms)) =
    (if length (line_of ms) \<le> min capacity kBoardTxMaxLineBytes then Some (line_of ms) else None)"
  by (rule build_line_members [OF assms]) (simp add: writes_def)

lemma build_line_exact_witness:
  "build_line 64 (map exec_event (object_events [(''a'', JBool True)])) = Some (line_of [(''a'', JBool True)])"
  using build_line_exact [of 64 "[(''a'', JBool True)]"]
  by (simp add: limits line_of_def quoted_plain plain_char_def)

text \<open>
  C35: string escaping is lossless and keeps lines whole. When \<open>writeEscapedString\<close> succeeds, what
  it appended is a quoted string that reads back as exactly the bytes given, whatever they are
  and whatever follows, and contains no raw newline or NUL.
\<close>

theorem writeEscapedString_roundtrip:
  assumes "writeEscapedString value w = (True, w')"
  shows "\<exists>t. bw_text w' = bw_text w @ t \<and> hd t = QUOTE \<and>
     read_string (tl (t @ rest)) = Some (value, rest) \<and> LF \<notin> set t \<and> nul_free t"
proof -
  have "w' = extend_text (quoted hex_upper value) w"
    by (rule emits_result [OF emits_writeEscapedString assms])
  then have "bw_text w' = bw_text w @ quoted hex_upper value" by simp
  moreover have "hd (quoted hex_upper value) = QUOTE" by (simp add: quoted_def)
  ultimately show ?thesis
    using read_string_quoted [OF hex_digits_upper] quoted_no_newline [OF hex_digits_upper]
      nul_free_quoted [OF hex_digits_upper] by blast
qed

lemma writeEscapedString_roundtrip_witness:
  "\<exists>t. read_string (tl (t @ [])) = Some ([LF, QUOTE], []) \<and> LF \<notin> set t"
proof -
  have "2 < remaining (new_writer 64)" by (simp add: new_writer_def remaining_def)
  have "length (quoted hex_upper [LF, QUOTE]) \<le> remaining (new_writer 64)"
    by (simp add: quoted_def escape_with_def new_writer_def remaining_def)
  from writeEscapedString_roundtrip [OF emits_fits [OF emits_writeEscapedString this], of "[]"]
  show ?thesis by blast
qed

text \<open>
  Number literals are exact and never truncated. A finite double always fits its 32-byte
  literal buffer, so \<open>addDouble\<close> writes all of its 17 significant digits; and the literal of an
  unsigned 64-bit value fits its 24-byte buffer and denotes that value.
\<close>

theorem number_literals_fit:
  "(f64_finite d \<longrightarrow> addDouble name d w = addNumberLiteral name (format_g17 d) w) \<and>
   length (dec_u64 u) < kMaxUInt64LiteralBytes \<and> word_of_nat (read_dec (dec_u64 u)) = u \<and>
   length (dec_i32 i) < kMaxIntLiteralBytes"
  using length_format_g17 [of d] length_dec_u64 [of u] length_dec_i32 [of i] read_dec_u64 [of u]
  by (auto simp: addDouble_def limits)

lemma number_literals_fit_witness:
  "addDouble (Some ''x'') 0x3FF0000000000000 (new_writer 64) =
     addNumberLiteral (Some ''x'') (format_g17 0x3FF0000000000000) (new_writer 64)"
  using number_literals_fit [of "0x3FF0000000000000" "Some ''x''" "new_writer 64"]
  by (simp add: f64_finite_def f64_exponent_def)

end
