(* ===== verification/SchemaBuilder.thy ===== *)
theory SchemaBuilder
  imports CommandRegistry JsonWriter
begin

text \<open>
  The schema line, \<open>src/core/SchemaBuilder.h\<close>: the message a session opens with. The functions
  are the C++ ones over the bounded writer; \<open>schema_members\<close> is the JSON object they are meant
  to send, and the lemmas show that they send exactly its serialisation, or refuse when it does
  not fit. The startup check builds it once with the widest timestamp, which covers every later
  one.
\<close>

section \<open>The builder\<close>

definition kSchemaSeq :: u64 where "kSchemaSeq = 1"
definition kControllerTarget :: bytes where [simp]: "kControllerTarget = ''controller''"

fun valueTypeString :: "value_type \<Rightarrow> bytes" where
  "valueTypeString Int_Type = toString_argument_type Int_Arg"
| "valueTypeString Float_Type = toString_argument_type Float_Arg"
| "valueTypeString Bool_Type = toString_argument_type Bool_Arg"
| "valueTypeString String_Type = toString_argument_type String_Arg"
| "valueTypeString (Other_Type _) = []"

definition writeCommand :: "stored_command \<Rightarrow> bounded_json_writer act" where
  "writeCommand c =
     run_all [beginObjectField (Some (sc_name c)), beginObjectField (Some kArgs),
       run_all (map (\<lambda>a. addString (Some (sa_name a)) (Some (valueTypeString (sa_type a)))) (sc_args c)),
       endObject, addBool (Some kBlockedByEstop) (sc_blocked_by_estop c), endObject]"

definition writeCommands :: "command_registry \<Rightarrow> bounded_json_writer act" where
  "writeCommands r =
     run_all [beginObjectField (Some kCommands), run_all (map writeCommand (cr_commands r)), endObject]"

definition writeFields :: "bytes \<Rightarrow> stored_field list \<Rightarrow> bounded_json_writer act" where
  "writeFields object_name fs =
     run_all [beginObjectField (Some object_name),
       run_all (map (\<lambda>f. addString (Some (sf_name f)) (Some (valueTypeString (sf_type f)))) fs),
       endObject]"

definition writeSchemaObject ::
    "command_registry \<Rightarrow> board_identity \<Rightarrow> bounded_json_writer act" where
  "writeSchemaObject r identity =
     run_all [beginObjectField (Some kSchema), writeCommands r,
       writeFields kTelemetry (cr_telemetry_fields r), writeFields kState (cr_state_fields r),
       addString (Some kFirmwareVersion) (firmware_version identity), endObject]"

text \<open>
  The status and, when it is Ok, the text in the buffer. The buffer is its capacity, or None for a
  null pointer.
\<close>

definition buildSchemaLineWithTimestamp ::
    "command_registry \<Rightarrow> board_identity \<Rightarrow> u64 \<Rightarrow> nat option \<Rightarrow> status \<times> bytes" where
  "buildSchemaLineWithTimestamp r identity timestamp buffer =
     (case buffer of
        None \<Rightarrow> ((InvalidConfiguration, ''schema buffer is required''), [])
      | Some capacity \<Rightarrow>
          case build_line capacity
            [beginObject,
             addString (Some kType) (Some (toString_message_type Schema)),
             addUInt64 (Some kSeq) kSchemaSeq,
             addUInt64 (Some kTimestamp) timestamp,
             addString (Some kSource) (board_id identity),
             addString (Some kTarget) (Some kControllerTarget),
             addString (Some kProtocolVersion_field) (protocol_version identity),
             writeSchemaObject r identity,
             endObject] of
            None \<Rightarrow> ((CapacityExceeded, ''schema exceeds transmit limit''), [])
          | Some line \<Rightarrow> (ok_status, line))"

definition validateMaximumSchemaSize :: "command_registry \<Rightarrow> board_identity \<Rightarrow> status" where
  "validateMaximumSchemaSize r identity =
     fst (buildSchemaLineWithTimestamp r identity (- 1) (Some kSchemaJsonBufferBytes))"

section \<open>The object it sends\<close>

definition type_member :: "bytes \<Rightarrow> value_type \<Rightarrow> bytes \<times> json" where
  "type_member name t = (name, JString (valueTypeString t))"

definition command_member :: "stored_command \<Rightarrow> bytes \<times> json" where
  "command_member c =
     (sc_name c, JObject
        [(kArgs, JObject (map (\<lambda>a. type_member (sa_name a) (sa_type a)) (sc_args c))),
         (kBlockedByEstop, JBool (sc_blocked_by_estop c))])"

definition schema_members :: "command_registry \<Rightarrow> stored_identity \<Rightarrow> u64 \<Rightarrow> (bytes \<times> json) list" where
  "schema_members r i timestamp =
     [(kType, JString ''schema''), (kSeq, JUnsigned kSchemaSeq), (kTimestamp, JUnsigned timestamp),
      (kSource, JString (si_board_id i)), (kTarget, JString ''controller''),
      (kProtocolVersion_field, JString (si_protocol_version i)),
      (kSchema, JObject
         [(kCommands, JObject (map command_member (cr_commands r))),
          (kTelemetry, JObject (map (\<lambda>f. type_member (sf_name f) (sf_type f)) (cr_telemetry_fields r))),
          (kState, JObject (map (\<lambda>f. type_member (sf_name f) (sf_type f)) (cr_state_fields r))),
          (kFirmwareVersion, JString (si_firmware_version i))])]"

lemma valueTypeString_nul_free [simp]: "nul_free (valueTypeString t)"
  by (cases t) simp_all

lemma writes_type_member:
  "writes (addString (Some n) (Some (valueTypeString t))) (member_events (type_member n t))"
  by (simp add: type_member_def as_events(4) writes_event del: exec_event.simps)

lemma writes_object_field:
  assumes "writes (run_all fs) (concat (map member_events ms))"
  shows "writes (run_all [beginObjectField (Some n), run_all fs, endObject])
           (member_events (n, JObject ms))"
proof -
  have "writes (run_all [beginObjectField (Some n), run_all fs, endObject])
      (concat [[FieldBegin n], concat (map member_events ms), [ObjEnd]])"
    by (rule writes_run_all) (simp add: assms as_events(2,3) writes_event del: exec_event.simps)
  then show ?thesis by simp
qed

lemma writes_type_members:
  "writes (run_all (map (\<lambda>x. addString (Some (nm x)) (Some (valueTypeString (ty x)))) xs))
     (concat (map member_events (map (\<lambda>x. type_member (nm x) (ty x)) xs)))"
  using writes_map [of xs "\<lambda>x. addString (Some (nm x)) (Some (valueTypeString (ty x)))"
      "\<lambda>x. member_events (type_member (nm x) (ty x))"]
  by (simp add: writes_type_member comp_def)

lemma writes_command: "writes (writeCommand c) (member_events (command_member c))"
proof -
  define ms where "ms = map (\<lambda>a. type_member (sa_name a) (sa_type a)) (sc_args c)"
  have "writes (writeCommand c)
      (concat [[FieldBegin (sc_name c)], [FieldBegin kArgs], concat (map member_events ms), [ObjEnd],
        [FieldLit kBlockedByEstop (if sc_blocked_by_estop c then ''true'' else ''false'')], [ObjEnd]])"
    unfolding writeCommand_def ms_def
    by (rule writes_run_all)
      (simp add: writes_type_members as_events(2,3,8) writes_event del: exec_event.simps map_map)
  then show ?thesis by (simp add: command_member_def ms_def)
qed

lemma writes_commands:
  "writes (writeCommands r) (member_events (kCommands, JObject (map command_member (cr_commands r))))"
  unfolding writeCommands_def
  by (rule writes_object_field)
    (use writes_map [of "cr_commands r" writeCommand "member_events \<circ> command_member"] in
      \<open>simp add: writes_command\<close>)

lemma writes_fields:
  "writes (writeFields n fs)
     (member_events (n, JObject (map (\<lambda>f. type_member (sf_name f) (sf_type f)) fs)))"
  unfolding writeFields_def by (rule writes_object_field) (rule writes_type_members)

lemma schema_depth: "json_depth (JObject (schema_members r i ts)) \<le> kMaxJsonNestingDepth"
proof -
  have flat: "foldr max (map (json_depth \<circ> snd) (map (\<lambda>x. type_member (nm x) (ty x)) xs)) 0 = 0"
    for nm ty and xs :: "'x list" by (induction xs) (simp_all add: type_member_def)
  have cmd: "json_depth (snd (command_member c)) = 2" for c
    using flat [of sa_name sa_type "sc_args c"] by (simp add: command_member_def)
  have "foldr max (map (json_depth \<circ> snd) (map command_member cs)) 0 \<le> 2" for cs
    by (induction cs) (simp_all add: cmd)
  from this [of "cr_commands r"] show ?thesis
    using flat [of sf_name sf_type "cr_telemetry_fields r"] flat [of sf_name sf_type "cr_state_fields r"]
    by (simp add: schema_members_def limits)
qed

lemma schema_names: "registry_ok r \<Longrightarrow> json_names_ok (JObject (schema_members r i ts))"
  by (auto simp: schema_members_def registry_ok_def commands_ok_inv_def fields_ok_def args_ok_def
      name_ok_def command_member_def type_member_def)

lemma writes_schema:
  assumes "identity_bounded i"
  shows "writes
     (run_all [beginObject,
             addString (Some kType) (Some (toString_message_type Schema)),
             addUInt64 (Some kSeq) kSchemaSeq,
             addUInt64 (Some kTimestamp) timestamp,
             addString (Some kSource) (Some (si_board_id i)),
             addString (Some kTarget) (Some kControllerTarget),
             addString (Some kProtocolVersion_field) (Some (si_protocol_version i)),
             run_all [beginObjectField (Some kSchema), writeCommands r,
                writeFields kTelemetry (cr_telemetry_fields r), writeFields kState (cr_state_fields r),
                addString (Some kFirmwareVersion) (Some (si_firmware_version i)), endObject],
             endObject])
     (object_events (schema_members r i timestamp))"
proof -
  let ?tel = "map (\<lambda>f. type_member (sf_name f) (sf_type f)) (cr_telemetry_fields r)"
  let ?sta = "map (\<lambda>f. type_member (sf_name f) (sf_type f)) (cr_state_fields r)"
  let ?inner = "concat [[FieldBegin kSchema],
      member_events (kCommands, JObject (map command_member (cr_commands r))),
      member_events (kTelemetry, JObject ?tel), member_events (kState, JObject ?sta),
      [FieldStr kFirmwareVersion (si_firmware_version i)], [ObjEnd]]"
  have ident: "cstr (si_board_id i) = si_board_id i"
    "cstr (si_protocol_version i) = si_protocol_version i"
    "cstr (si_firmware_version i) = si_firmware_version i"
    using assms by (simp_all add: identity_bounded_def)
  have inner: "writes (run_all [beginObjectField (Some kSchema), writeCommands r,
        writeFields kTelemetry (cr_telemetry_fields r), writeFields kState (cr_state_fields r),
        addString (Some kFirmwareVersion) (Some (si_firmware_version i)), endObject]) ?inner"
    by (rule writes_run_all)
      (use writes_commands [of r] in
        \<open>simp add: writes_fields as_events(2-4) writes_event ident
          del: exec_event.simps member_events.simps\<close>)
  have "writes
     (run_all [beginObject,
             addString (Some kType) (Some (toString_message_type Schema)),
             addUInt64 (Some kSeq) kSchemaSeq,
             addUInt64 (Some kTimestamp) timestamp,
             addString (Some kSource) (Some (si_board_id i)),
             addString (Some kTarget) (Some kControllerTarget),
             addString (Some kProtocolVersion_field) (Some (si_protocol_version i)),
             run_all [beginObjectField (Some kSchema), writeCommands r,
                writeFields kTelemetry (cr_telemetry_fields r), writeFields kState (cr_state_fields r),
                addString (Some kFirmwareVersion) (Some (si_firmware_version i)), endObject],
             endObject])
     (concat [[ObjBegin], [FieldStr kType ''schema''], [FieldLit kSeq (dec_u64 kSchemaSeq)],
        [FieldLit kTimestamp (dec_u64 timestamp)], [FieldStr kSource (si_board_id i)],
        [FieldStr kTarget ''controller''], [FieldStr kProtocolVersion_field (si_protocol_version i)],
        ?inner, [ObjEnd]])"
    by (rule writes_run_all)
      (use inner in \<open>simp add: as_events(1,2,4,6) writes_event ident
        del: exec_event.simps member_events.simps concat.simps run_all.simps\<close>)
  then show ?thesis by (simp add: schema_members_def object_events_def)
qed

lemma buildSchemaLine_eq:
  assumes "registry_ok r" and "0 < capacity"
  shows "buildSchemaLineWithTimestamp r (registry_identity r) ts (Some capacity) =
     (let line = line_of (schema_members r (cr_identity r) ts) in
      if length line \<le> min capacity kBoardTxMaxLineBytes then (ok_status, line)
      else ((CapacityExceeded, ''schema exceeds transmit limit''), []))"
proof -
  have i: "identity_bounded (cr_identity r)" using assms(1) by (simp add: registry_ok_def)
  note build = build_line_members [OF assms(2) schema_depth schema_names [OF assms(1)] writes_schema [OF i]]
  show ?thesis
    unfolding buildSchemaLineWithTimestamp_def writeSchemaObject_def registry_identity_def
      option.case board_identity.select_convs build
    by (simp add: Let_def)
qed

section \<open>The startup check covers every session\<close>

lemma length_dec_max: "length (dec_u64 ts) \<le> length (dec_u64 (- 1))"
proof -
  have "unat (- 1 :: u64) = 18446744073709551615"
    by (simp add: unsigned_minus_1_eq_mask mask_eq_exp_minus_1)
  then have "10 ^ 19 \<le> unat (- 1 :: u64)" by simp
  then have "19 < length (dec_u64 (- 1))" unfolding dec_u64_def by (rule dec_nat_length_gt)
  with length_dec_u64 [of ts] show ?thesis by arith
qed

lemma schema_line_length_mono:
  "length (line_of (schema_members r i ts)) \<le> length (line_of (schema_members r i (- 1)))"
proof -
  define a where "a = map member_text [(kType, JString ''schema''), (kSeq, JUnsigned kSchemaSeq)]"
  define b where "b = map member_text (drop 3 (schema_members r i ts))"
  have "drop 3 (schema_members r i ts) = drop 3 (schema_members r i (- 1))"
    by (simp add: schema_members_def)
  then have t: "map member_text (schema_members r i x) =
      a @ [quoted hex_upper kTimestamp @ '':'' @ dec_u64 x] @ b" if "x = ts \<or> x = - 1" for x
    using that by (auto simp: a_def b_def schema_members_def member_text_def)
  have "b \<noteq> []" by (simp add: b_def schema_members_def)
  then have len: "length (join_with '','' (a @ u # b)) =
      length (join_with '','' a) + length u + length (join_with '','' b) + 2" for u
    by (simp add: a_def join_with_Cons)
  show ?thesis
    using length_dec_max [of ts]
    by (simp add: line_of_def serialise_object t len del: serialise.simps)
qed

text \<open>
  C14: from a well-formed registry the builder sends exactly the compact JSON text of the schema
  object (every command with its argument types and e-stop flag, every telemetry and state field,
  the identity) followed by one newline, whenever that fits in 8192 bytes, and refuses otherwise.
\<close>

theorem schema_line_exact:
  assumes "registry_ok r"
  shows "buildSchemaLineWithTimestamp r (registry_identity r) ts (Some kSchemaJsonBufferBytes) =
     (let line = line_of (schema_members r (cr_identity r) ts) in
      if length line \<le> kBoardTxMaxLineBytes then (ok_status, line)
      else ((CapacityExceeded, ''schema exceeds transmit limit''), []))"
  using buildSchemaLine_eq [OF assms, of kSchemaJsonBufferBytes ts] by (simp add: limits)

lemma schema_line_exact_witness:
  "let i = \<lparr>si_board_id = ''b'', si_protocol_version = ''1'', si_firmware_version = ''2''\<rparr>;
       r = new_registry\<lparr>cr_identity := i\<rparr>
   in buildSchemaLineWithTimestamp r (registry_identity r) 5 (Some kSchemaJsonBufferBytes) =
     (let line = line_of (schema_members r i 5) in
      if length line \<le> kBoardTxMaxLineBytes then (ok_status, line)
      else ((CapacityExceeded, ''schema exceeds transmit limit''), []))"
  using schema_line_exact [of "new_registry\<lparr>cr_identity :=
      \<lparr>si_board_id = ''b'', si_protocol_version = ''1'', si_firmware_version = ''2''\<rparr>\<rparr>" 5]
  by (simp add: registry_ok_def new_registry_def identity_bounded_def commands_ok_inv_def
      fields_ok_def limits)

text \<open>
  A registry that passed the size check at startup can send its schema at any later board
  time: the check uses the widest timestamp there is.
\<close>

theorem schema_check_suffices:
  assumes "registry_ok r"
    and "status_ok (validateMaximumSchemaSize r (registry_identity r))"
  shows "buildSchemaLineWithTimestamp r (registry_identity r) ts (Some kSchemaJsonBufferBytes) =
     (ok_status, line_of (schema_members r (cr_identity r) ts)) \<and>
     length (line_of (schema_members r (cr_identity r) ts)) \<le> kBoardTxMaxLineBytes"
proof -
  have cap: "0 < kSchemaJsonBufferBytes" "min kSchemaJsonBufferBytes kBoardTxMaxLineBytes = kBoardTxMaxLineBytes"
    by (simp_all add: limits)
  have "length (line_of (schema_members r (cr_identity r) (- 1))) \<le> kBoardTxMaxLineBytes"
    using assms(2) unfolding validateMaximumSchemaSize_def buildSchemaLine_eq [OF assms(1) cap(1)] cap(2)
    by (simp add: Let_def status_ok_def split: if_splits)
  then have "length (line_of (schema_members r (cr_identity r) ts)) \<le> kBoardTxMaxLineBytes"
    using schema_line_length_mono [of r "cr_identity r" ts] by simp
  then show ?thesis unfolding buildSchemaLine_eq [OF assms(1) cap(1)] cap(2) by (simp add: Let_def)
qed

lemma schema_check_suffices_witness:
  "length (line_of (schema_members new_registry (cr_identity new_registry) 0)) \<le> kBoardTxMaxLineBytes"
proof -
  have len: "length (line_of (schema_members new_registry (cr_identity new_registry) (- 1))) \<le> 8192"
    using length_dec_u64 [of "- 1"]
    by (simp add: line_of_def schema_members_def new_registry_def quoted_plain plain_char_def
        quoted_def [of _ "[]"] kSchemaSeq_def dec_u64_def [of 1] dec_nat.simps)
  have cap: "0 < kSchemaJsonBufferBytes" "min kSchemaJsonBufferBytes kBoardTxMaxLineBytes = 8192"
    by (simp_all add: limits)
  have "status_ok (validateMaximumSchemaSize new_registry (registry_identity new_registry))"
    using len
    unfolding validateMaximumSchemaSize_def buildSchemaLine_eq [OF new_registry_ok cap(1)] cap(2)
    by (simp add: Let_def status_ok_def ok_status_def)
  from schema_check_suffices [OF new_registry_ok this] show ?thesis by blast
qed

end
