(* ===== verification/ObjectWriter.thy ===== *)
theory ObjectWriter
  imports JsonWriter
begin

text \<open>
  The result and telemetry writer handed to board code, \<open>src/api/ObjectWriter.h\<close>: a
  BoundedJsonWriter over \<open>kMaxResultPayloadBytes\<close> that is opened in the constructor, keeps one
  byte back for its closing brace, and refuses the reserved member name.

  The lemmas show that whatever members board code adds, the writer always holds the text of an
  object with exactly the members whose operation returned true, that \<open>close\<close> never fails, and
  that the closed payload is the serialisation of that object.
\<close>

section \<open>State and operations\<close>

record object_writer =
  ow_writer :: bounded_json_writer
  ow_closed :: bool

definition new_object_writer :: object_writer where
  "new_object_writer =
     \<lparr>ow_writer = snd (reserveTailBytes 1 (snd (beginObject (new_writer kMaxResultPayloadBytes)))),
      ow_closed = False\<rparr>"

definition isBoardProcUs :: "c_string \<Rightarrow> bool" where
  "isBoardProcUs name = (case name of None \<Rightarrow> False | Some n \<Rightarrow> strcmp_eq n ''board_proc_us'')"

definition allowed :: "object_writer \<Rightarrow> c_string \<Rightarrow> bool" where
  "allowed o' name \<longleftrightarrow> \<not> ow_closed o' \<and> name \<noteq> None \<and> \<not> isBoardProcUs name"

definition on_writer :: "c_string \<Rightarrow> bounded_json_writer act \<Rightarrow> object_writer act" where
  "on_writer name f o' =
     (if allowed o' name then
        (case f (ow_writer o') of (ok, w) \<Rightarrow> (ok, o'\<lparr>ow_writer := w\<rparr>))
      else (False, o'))"

text \<open>\<open>static_cast<double>(float)\<close> on bit patterns; it is exact.\<close>

fun top_bit :: "nat \<Rightarrow> nat" where
  "top_bit n = (if n < 2 then 0 else Suc (top_bit (n div 2)))"

definition f32_to_f64 :: "u32 \<Rightarrow> f64" where
  "f32_to_f64 b =
     (let n = unat b; s = n div 2 ^ 31; e = (n div 2 ^ 23) mod 2 ^ 8; f = n mod 2 ^ 23;
          pack = (\<lambda>e' f'. word_of_nat (s * 2 ^ 63 + e' * 2 ^ 52 + f') :: f64)
      in if e = 255 then pack 2047 (f * 2 ^ 29)
         else if e = 0 then
           (if f = 0 then pack 0 0
            else let k = top_bit f in pack (k + 874) ((f - 2 ^ k) * 2 ^ (52 - k)))
         else pack (e + 896) (f * 2 ^ 29))"

definition addInt_ow :: "c_string \<Rightarrow> i32 \<Rightarrow> object_writer act" where
  "addInt_ow name value = on_writer name (addInt name value)"

definition addUInt64_ow :: "c_string \<Rightarrow> u64 \<Rightarrow> object_writer act" where
  "addUInt64_ow name value = on_writer name (addUInt64 name value)"

definition addFloat_ow :: "c_string \<Rightarrow> u32 \<Rightarrow> object_writer act" where
  "addFloat_ow name value = on_writer name (addDouble name (f32_to_f64 value))"

definition addDouble_ow :: "c_string \<Rightarrow> f64 \<Rightarrow> object_writer act" where
  "addDouble_ow name value = on_writer name (addDouble name value)"

definition addBool_ow :: "c_string \<Rightarrow> bool \<Rightarrow> object_writer act" where
  "addBool_ow name value = on_writer name (addBool name value)"

definition addString_ow :: "c_string \<Rightarrow> c_string \<Rightarrow> object_writer act" where
  "addString_ow name value = on_writer name (addString name value)"

definition addStringBytes_ow :: "c_string \<Rightarrow> c_string \<Rightarrow> object_writer act" where
  "addStringBytes_ow name value = on_writer name (addStringBytes name value)"

definition close_ow :: "object_writer act" where
  "close_ow o' =
     (if ow_closed o' then (True, o')
      else case endObject (releaseTailReserve (ow_writer o')) of
        (ok, w) \<Rightarrow> (ok, o'\<lparr>ow_writer := w, ow_closed := ok\<rparr>))"

definition payload :: "object_writer \<Rightarrow> bytes" where   \<comment> \<open>\<open>data()\<close> and \<open>size()\<close>\<close>
  "payload o' = bw_text (ow_writer o')"

text \<open>The calls board code can make, as data.\<close>

datatype ow_call =
    AddInt c_string i32
  | AddUInt64 c_string u64
  | AddFloat c_string u32
  | AddDouble c_string f64
  | AddBool c_string bool
  | AddString c_string c_string
  | AddStringBytes c_string c_string
  | Close

fun ow_step :: "ow_call \<Rightarrow> object_writer act" where
  "ow_step (AddInt n v) = addInt_ow n v"
| "ow_step (AddUInt64 n v) = addUInt64_ow n v"
| "ow_step (AddFloat n v) = addFloat_ow n v"
| "ow_step (AddDouble n v) = addDouble_ow n v"
| "ow_step (AddBool n v) = addBool_ow n v"
| "ow_step (AddString n v) = addString_ow n v"
| "ow_step (AddStringBytes n v) = addStringBytes_ow n v"
| "ow_step Close = close_ow"

text \<open>
  A piece of board code that was given the writer \<open>o'\<close> can only leave it in a state reached by
  such calls, whatever it computes between them.
\<close>

inductive ow_reaches :: "object_writer \<Rightarrow> object_writer \<Rightarrow> bool" where
  ow_refl: "ow_reaches o' o'"
| ow_call: "ow_reaches o' o1 \<Longrightarrow> ow_reaches o' (snd (ow_step c o1))"

section \<open>The member list a writer holds\<close>

definition holds_members :: "(bytes \<times> json) list \<Rightarrow> bounded_json_writer \<Rightarrow> bool" where
  "holds_members ms w \<longleftrightarrow>
     writer_ok w \<and> \<not> bw_closed w \<and> writer_stack w = [ms = []] \<and>
     bw_text w = ''{'' @ join_with '','' (map member_text ms)"

lemma join_with_snoc:
  "join_with sep (xs @ [x]) = (if xs = [] then x else join_with sep xs @ sep @ x)"
  by (induction xs) (auto simp: join_with_Cons)

lemma holds_members_step:
  assumes "holds_members ms w" and "nul_free n" and "member_events (n, v) = [e]"
  shows "(\<exists>w'. exec_event e w = (True, w') \<and> holds_members (ms @ [(n, v)]) w' \<and>
            bw_capacity w' = bw_capacity w \<and> bw_tail_reserve w' = bw_tail_reserve w \<and>
            bw_failed w' = bw_failed w \<and>
            length (bw_text w') + bw_tail_reserve w \<le> bw_capacity w) \<or>
         exec_event e w = (False, w\<lparr>bw_failed := True\<rparr>)"
proof -
  have ok: "writer_ok w" "\<not> bw_closed w" and st: "writer_stack w = [ms = []]"
    and t: "bw_text w = ''{'' @ join_with '','' (map member_text ms)"
    using assms(1) by (simp_all add: holds_members_def)
  have ev: "event_text [f] e = comma f @ member_text (n, v)" "event_stack [f] e = [False]" for f
    using writes_member [of "(n, v)"] assms(3) by (auto simp: writes_member_def)
  have e: "event_names_ok e" "event_ok kMaxJsonNestingDepth (writer_stack w) e"
    using assms(2,3) by (cases v; auto simp: st)+
  show ?thesis
  proof (cases "length (event_text (writer_stack w) e) \<le> remaining w")
    case True
    from exec_event_spec(1) [OF ok e True] obtain w'
      where w': "exec_event e w = (True, w')" "performed e w w'" by blast
    have "holds_members (ms @ [(n, v)]) w'"
      using w'(2) by (simp add: performed_def holds_members_def st ev t join_with_snoc comma_def)
    moreover have "length (bw_text w') + bw_tail_reserve w \<le> bw_capacity w"
    proof -
      define k where "k = length (event_text (writer_stack w) e)"
      have "0 < k" by (simp add: k_def st ev member_text_def quoted_def)
      moreover have "k \<le> bw_capacity w - bw_tail_reserve w - length (bw_text w)"
        using True by (simp add: k_def remaining_eq)
      moreover have "length (bw_text w') = length (bw_text w) + k"
        using w'(2) by (simp add: performed_def k_def)
      ultimately show ?thesis by arith
    qed
    ultimately show ?thesis using w' by (auto simp: performed_def)
  next
    case False
    then show ?thesis using exec_event_spec(2) [OF ok e] by simp
  qed
qed

text \<open>
  The invariant of an ObjectWriter: while open, it holds a member list, none of whose names is
  the reserved one, with a byte to spare; once closed, its text is the serialised object.
\<close>

definition ow_holds :: "(bytes \<times> json) list \<Rightarrow> object_writer \<Rightarrow> bool" where
  "ow_holds ms o' \<longleftrightarrow>
     bw_capacity (ow_writer o') = kMaxResultPayloadBytes \<and>
     (\<forall>m \<in> set ms. nul_free (fst m) \<and> fst m \<noteq> ''board_proc_us'') \<and>
     (if ow_closed o'
      then payload o' = serialise (JObject ms) \<and> length (payload o') \<le> kMaxResultPayloadBytes
      else holds_members ms (ow_writer o') \<and> bw_tail_reserve (ow_writer o') = 1 \<and>
           length (payload o') + 1 \<le> kMaxResultPayloadBytes)"

lemma ow_holds_new: "ow_holds [] new_object_writer"
  by (simp add: ow_holds_def new_object_writer_def beginObject_def new_writer_def appendByte_def
      appendBytes_def remaining_def reserveTailBytes_def payload_def holds_members_def writer_ok_def
      writer_stack_def limits eval_nat_numeral)

lemma ow_new_open: "\<not> ow_closed new_object_writer \<and> \<not> bw_failed (ow_writer new_object_writer)"
  by (simp add: new_object_writer_def beginObject_def new_writer_def appendByte_def
      appendBytes_def remaining_def reserveTailBytes_def limits)

text \<open>One member operation, seen through the invariant.\<close>

definition member_call :: "c_string \<Rightarrow> json \<Rightarrow> bounded_json_writer act \<Rightarrow> bool" where
  "member_call name v f \<longleftrightarrow>
     (\<forall>n. name = Some n \<longrightarrow> (\<exists>e. member_events (cstr n, v) = [e] \<and> f = exec_event e))"

lemma ow_holds_member:
  assumes "ow_holds ms o'" and "member_call name v f"
  shows "(fst (on_writer name f o') \<and> (\<exists>n. name = Some n \<and> ow_holds (ms @ [(cstr n, v)]) (snd (on_writer name f o')))) \<or>
         (\<not> fst (on_writer name f o') \<and> ow_holds ms (snd (on_writer name f o')))"
proof (cases "allowed o' name")
  case False
  then show ?thesis using assms(1) by (simp add: on_writer_def)
next
  case True
  then obtain n where n: "name = Some n" by (auto simp: allowed_def)
  then obtain e where e: "member_events (cstr n, v) = [e]" "f = exec_event e"
    using assms(2) by (auto simp: member_call_def)
  have open': "\<not> ow_closed o'" and res: "cstr n \<noteq> ''board_proc_us''"
    using True n by (auto simp: allowed_def isBoardProcUs_def strcmp_eq_def cstr_def)
  have h: "holds_members ms (ow_writer o')" using assms(1) open' by (simp add: ow_holds_def)
  have c: "bw_capacity (ow_writer o') = kMaxResultPayloadBytes" "bw_tail_reserve (ow_writer o') = 1"
    and ms: "\<forall>m \<in> set ms. nul_free (fst m) \<and> fst m \<noteq> ''board_proc_us''"
    using assms(1) open' by (auto simp: ow_holds_def)
  from holds_members_step [OF h nul_free_cstr e(1)] show ?thesis
  proof (elim disjE exE conjE)
    fix w' assume w': "exec_event e (ow_writer o') = (True, w')" "holds_members (ms @ [(cstr n, v)]) w'"
      "bw_capacity w' = bw_capacity (ow_writer o')" "bw_tail_reserve w' = bw_tail_reserve (ow_writer o')"
      "length (bw_text w') + bw_tail_reserve (ow_writer o') \<le> bw_capacity (ow_writer o')"
    have "on_writer name f o' = (True, o'\<lparr>ow_writer := w'\<rparr>)"
      using True e(2) w'(1) by (simp add: on_writer_def)
    moreover have "ow_holds (ms @ [(cstr n, v)]) (o'\<lparr>ow_writer := w'\<rparr>)"
      using w' c ms res open' by (simp add: ow_holds_def payload_def)
    ultimately show ?thesis using n by auto
  next
    assume "exec_event e (ow_writer o') = (False, (ow_writer o')\<lparr>bw_failed := True\<rparr>)"
    then have "on_writer name f o' = (False, o'\<lparr>ow_writer := (ow_writer o')\<lparr>bw_failed := True\<rparr>\<rparr>)"
      using True e(2) by (simp add: on_writer_def)
    moreover have "ow_holds ms (o'\<lparr>ow_writer := (ow_writer o')\<lparr>bw_failed := True\<rparr>\<rparr>)"
    proof -
      have "holds_members ms ((ow_writer o')\<lparr>bw_failed := True\<rparr>)"
        using h by (auto simp: holds_members_def writer_ok_def writer_stack_def)
      with assms(1) open' show ?thesis by (auto simp: ow_holds_def payload_def)
    qed
    ultimately show ?thesis by simp
  qed
qed

text \<open>Which value each call adds.\<close>

lemma dec_i64_signed: "dec_i64 (signed (v :: i32)) = dec_i32 v"
proof -
  have "sint (signed v :: u64) = sint v" by (rule sint_up_scast) (simp add: is_up_def source_size_def target_size_def word_size)
  then show ?thesis by (simp add: dec_i64_def dec_i32_def)
qed

fun call_member :: "ow_call \<Rightarrow> (c_string \<times> json) option" where
  "call_member (AddInt n v) = Some (n, JSigned (signed v))"
| "call_member (AddUInt64 n v) = Some (n, JUnsigned v)"
| "call_member (AddFloat n v) = Some (n, JFloat (f32_to_f64 v))"
| "call_member (AddDouble n v) = Some (n, JFloat v)"
| "call_member (AddBool n v) = Some (n, JBool v)"
| "call_member (AddString n v) = map_option (\<lambda>s. (n, JString (cstr s))) v"
| "call_member (AddStringBytes n v) = map_option (\<lambda>s. (n, JString s)) v"
| "call_member Close = None"

text \<open>
  The member a call added: the one above if the call returned true. \<open>accepted\<close> collects them
  over a sequence of calls, and \<open>run_calls\<close> is the writer after it.
\<close>

definition added :: "ow_call \<Rightarrow> object_writer \<Rightarrow> (bytes \<times> json) list" where
  "added c o' =
     (case (fst (ow_step c o'), call_member c) of
        (True, Some (Some n, v)) \<Rightarrow> [(cstr n, v)]
      | _ \<Rightarrow> [])"

fun run_calls :: "ow_call list \<Rightarrow> object_writer \<Rightarrow> object_writer" where
  "run_calls [] o' = o'"
| "run_calls (c # cs) o' = run_calls cs (snd (ow_step c o'))"

fun accepted :: "ow_call list \<Rightarrow> object_writer \<Rightarrow> (bytes \<times> json) list" where
  "accepted [] o' = []"
| "accepted (c # cs) o' = added c o' @ accepted cs (snd (ow_step c o'))"

lemma on_writer_member_call:
  assumes "ow_holds ms o'" and "member_call name v f"
    and "ow_step c = on_writer name f" and "call_member c = Some (name, v)"
  shows "ow_holds (ms @ added c o') (snd (ow_step c o'))"
  using ow_holds_member [OF assms(1,2)] assms(3,4)
  by (cases "fst (on_writer name f o')") (auto simp: added_def)

lemma on_writer_refused:
  assumes "ow_holds ms o'" and "ow_step c = on_writer name (\<lambda>w. (False, w\<lparr>bw_failed := b w\<rparr>))"
  shows "ow_holds (ms @ added c o') (snd (ow_step c o'))"
proof -
  have "ow_holds ms (o'\<lparr>ow_writer := (ow_writer o')\<lparr>bw_failed := x\<rparr>\<rparr>)" for x
    using assms(1)
    by (auto simp: ow_holds_def payload_def holds_members_def writer_ok_def writer_stack_def)
  then show ?thesis using assms by (simp add: added_def on_writer_def)
qed

lemma writeFieldPrefix_cstr: "writeFieldPrefix (cstr n) = writeFieldPrefix n"
  by (rule ext) (simp only: writeFieldPrefix_def cstr_cstr)

lemma exec_event_cstr:
  "addNumberLiteral (Some n) t = exec_event (FieldLit (cstr n) t)"
  "addStringBytes (Some n) (Some v) = exec_event (FieldStr (cstr n) v)"
  by (simp_all add: fun_eq_iff addNumberLiteral_def addStringBytes_def writeFieldPrefix_cstr
      del: run_all.simps)

lemma member_call_literal:
  "(\<And>n. member_events (n, v) = [FieldLit n t]) \<Longrightarrow> member_call name v (addNumberLiteral name t)"
  unfolding member_call_def using exec_event_cstr(1) by blast

lemma member_call_string: "member_call name (JString s) (addStringBytes name (Some s))"
  unfolding member_call_def using exec_event_cstr(2) member_events.simps(2) by blast

lemma addDouble_eq:
  "addDouble name d =
     (if f64_finite d then addNumberLiteral name (format_g17 d)
      else (\<lambda>w. (False, w\<lparr>bw_failed := True\<rparr>)))"
proof -
  have "length (format_g17 d) < kMaxDoubleLiteralBytes" if "f64_finite d"
    using length_format_g17 [OF that] by (simp add: limits)
  then show ?thesis by (auto simp: addDouble_def fun_eq_iff)
qed

lemma ow_step_members:
  assumes "ow_holds ms o'" and "c \<noteq> Close"
  shows "ow_holds (ms @ added c o') (snd (ow_step c o'))"
proof -
  note ref = on_writer_refused [OF assms(1)]
  note mem = on_writer_member_call [OF assms(1)]
  have fail: "(\<lambda>w. (False, w)) = (\<lambda>w. (False, w\<lparr>bw_failed := bw_failed w\<rparr>))" by simp
  show ?thesis
  proof (cases c)
    case (AddInt n v)
    show ?thesis
      by (rule mem [of n "JSigned (signed v)" "addInt n v"])
        (simp_all add: AddInt addInt_ow_def addInt_def member_call_literal dec_i64_signed)
  next
    case (AddUInt64 n v)
    show ?thesis
      by (rule mem [of n "JUnsigned v" "addUInt64 n v"])
        (simp_all add: AddUInt64 addUInt64_ow_def addUInt64_def member_call_literal)
  next
    case (AddFloat n v)
    show ?thesis
    proof (cases "f64_finite (f32_to_f64 v)")
      case True
      show ?thesis
        by (rule mem [of n "JFloat (f32_to_f64 v)" "addDouble n (f32_to_f64 v)"])
          (simp_all add: AddFloat addFloat_ow_def addDouble_eq True member_call_literal)
    next
      case False
      show ?thesis
        by (rule ref [of c n "\<lambda>_. True"]) (simp add: AddFloat addFloat_ow_def addDouble_eq False)
    qed
  next
    case (AddDouble n v)
    show ?thesis
    proof (cases "f64_finite v")
      case True
      show ?thesis
        by (rule mem [of n "JFloat v" "addDouble n v"])
          (simp_all add: AddDouble addDouble_ow_def addDouble_eq True member_call_literal)
    next
      case False
      show ?thesis
        by (rule ref [of c n "\<lambda>_. True"]) (simp add: AddDouble addDouble_ow_def addDouble_eq False)
    qed
  next
    case (AddBool n v)
    show ?thesis
      by (rule mem [of n "JBool v" "addBool n v"])
        (simp_all add: AddBool addBool_ow_def addBool_def addLiteral_def member_call_literal)
  next
    case (AddString n v)
    show ?thesis
    proof (cases v)
      case None
      show ?thesis
        by (rule ref [of c n "\<lambda>w. bw_failed w"])
          (simp add: AddString None addString_ow_def addString_def [abs_def])
    next
      case (Some s)
      show ?thesis
        by (rule mem [of n "JString (cstr s)" "addString n v"])
          (simp_all add: AddString Some addString_ow_def addString_def [abs_def] member_call_string)
    qed
  next
    case (AddStringBytes n v)
    show ?thesis
    proof (cases v)
      case None
      show ?thesis
        by (rule ref [of c n "\<lambda>_. True"])
          (auto simp: AddStringBytes None addStringBytes_ow_def addStringBytes_def [abs_def] fun_eq_iff
            on_writer_def split: option.splits)
    next
      case (Some s)
      show ?thesis
        by (rule mem [of n "JString s" "addStringBytes n v"])
          (simp_all add: AddStringBytes Some addStringBytes_ow_def member_call_string)
    qed
  next
    case Close
    with assms(2) show ?thesis by simp
  qed
qed

text \<open>Closing: the byte kept back is enough for the brace.\<close>

lemma close_ow_succeeds:
  assumes "ow_holds ms o'"
  shows "fst (close_ow o') \<and> ow_holds ms (snd (close_ow o')) \<and> ow_closed (snd (close_ow o')) \<and>
         bw_failed (ow_writer (snd (close_ow o'))) = bw_failed (ow_writer o')"
proof (cases "ow_closed o'")
  case True
  then show ?thesis using assms by (simp add: close_ow_def)
next
  case False
  define w where "w = releaseTailReserve (ow_writer o')"
  have h: "holds_members ms w" and cap: "length (bw_text w) + 1 \<le> kMaxResultPayloadBytes"
    and c: "bw_capacity w = kMaxResultPayloadBytes" "bw_tail_reserve w = 0"
    "bw_failed w = bw_failed (ow_writer o')"
    using assms False
    by (auto simp: ow_holds_def w_def releaseTailReserve_def payload_def holds_members_def
        writer_ok_def writer_stack_def)
  have "1 \<le> remaining w" using cap c by (simp add: remaining_eq)
  then obtain w' where w': "endObject w = (True, w')" "performed ObjEnd w w'"
    using exec_ObjEnd(1) [of w] h by (auto simp: holds_members_def)
  have close: "close_ow o' = (True, o'\<lparr>ow_writer := w', ow_closed := True\<rparr>)"
    using False w'(1) by (simp add: close_ow_def w_def)
  have "bw_text w' = serialise (JObject ms)"
    using w'(2) h by (simp add: performed_def holds_members_def serialise_object del: serialise.simps)
  moreover have "bw_capacity w' = bw_capacity w" "bw_failed w' = bw_failed w"
    "length (bw_text w') \<le> kMaxResultPayloadBytes"
    using w'(2) cap by (simp_all add: performed_def)
  ultimately show ?thesis
    using close c assms by (auto simp: ow_holds_def payload_def simp del: serialise.simps)
qed

lemma ow_step_holds: "ow_holds ms o' \<Longrightarrow> ow_holds (ms @ added c o') (snd (ow_step c o'))"
proof (cases "c = Close")
  case True
  assume "ow_holds ms o'"
  from close_ow_succeeds [OF this] True show ?thesis by (simp add: added_def)
qed (rule ow_step_members)

lemma run_calls_holds: "ow_holds ms o' \<Longrightarrow> ow_holds (ms @ accepted cs o') (run_calls cs o')"
proof (induction cs arbitrary: ms o')
  case Nil
  then show ?case by simp
next
  case (Cons c cs)
  from Cons.IH [OF ow_step_holds [OF Cons.prems]] show ?case by simp
qed

lemma ow_reaches_holds: "ow_reaches o1 o2 \<Longrightarrow> ow_holds ms o1 \<Longrightarrow> \<exists>ms'. ow_holds ms' o2"
proof (induction rule: ow_reaches.induct)
  case (ow_refl o')
  then show ?case by blast
next
  case (ow_call o' o1 c)
  then obtain ms' where "ow_holds ms' o1" by blast
  then show ?case using ow_step_holds by blast
qed

lemma run_calls_reaches: "ow_reaches o' o1 \<Longrightarrow> ow_reaches o' (run_calls cs o1)"
  by (induction cs arbitrary: o1) (auto intro: ow_call)

section \<open>Property\<close>

text \<open>
  C36: whatever sequence of calls board code makes on a result or telemetry writer, closing it
  succeeds and yields exactly the JSON object of the members whose call returned true, in order:
  never more than 7680 bytes, never the reserved \<open>board_proc_us\<close>, and a refused member leaves no
  trace in the text.
\<close>

theorem object_writer_payload:
  "fst (close_ow (run_calls cs new_object_writer)) \<and>
   payload (snd (close_ow (run_calls cs new_object_writer))) =
     serialise (JObject (accepted cs new_object_writer)) \<and>
   length (payload (snd (close_ow (run_calls cs new_object_writer)))) \<le> kMaxResultPayloadBytes \<and>
   ''board_proc_us'' \<notin> fst ` set (accepted cs new_object_writer)"
proof -
  have h: "ow_holds (accepted cs new_object_writer) (run_calls cs new_object_writer)"
    using run_calls_holds [OF ow_holds_new, of cs] by simp
  from close_ow_succeeds [OF this] h show ?thesis
    by (auto simp: ow_holds_def simp del: serialise.simps)
qed

end
