(* ===== verification/JsonDocument.thy ===== *)
theory JsonDocument
  imports JsonText Limits
begin

text \<open>
  What the inbound path asks of a parsed ArduinoJson document: member lookup, the type tests
  \<open>is<T>()\<close> and the conversions \<open>as<T>()\<close> it uses, and the argument object handed to command
  handlers (\<open>src/api/CommandArgs.h\<close> with the accessors of \<open>src/core/InboundParser.h\<close>).

  The parser itself, \<open>deserializeJson\<close>, is third-party code: it is a function parameter of the
  definitions that use it, from the bytes it is given to a value or an error.
\<close>

section \<open>Numbers\<close>

definition f64_pack :: "bool \<Rightarrow> nat \<Rightarrow> f64" where
  "f64_pack neg magnitude = word_of_nat ((if neg then 2 ^ 63 else 0) + magnitude)"

text \<open>The bits of \<open>static_cast<double>\<close> of an integer: exact below \<open>2^53\<close>, else to nearest even.\<close>

fun floor_log2 :: "nat \<Rightarrow> nat" where
  "floor_log2 n = (if n < 2 then 0 else Suc (floor_log2 (n div 2)))"

declare floor_log2.simps [simp del]

definition f64_of_nat :: "nat \<Rightarrow> nat" where
  "f64_of_nat n =
     (if n = 0 then 0
      else let k = floor_log2 n;
               q = (if k \<le> 52 then n * 2 ^ (52 - k) else round_half_even n (2 ^ (k - 52)))
           in (k + 1023) * 2 ^ 52 + (q - 2 ^ 52))"

text \<open>\<open>as<double>()\<close> of each number variant.\<close>

fun number_as_double :: "json \<Rightarrow> f64 option" where
  "number_as_double (JUnsigned w) = Some (f64_pack False (f64_of_nat (unat w)))"
| "number_as_double (JSigned w) = Some (f64_pack (sint w < 0) (f64_of_nat (nat \<bar>sint w\<bar>)))"
| "number_as_double (JFloat d) = Some d"
| "number_as_double _ = None"

text \<open>
  \<open>static_cast<float>\<close> of a finite double, to nearest even. A value above the float range becomes
  an infinity, as IEEE arithmetic has it.
\<close>

definition f64_to_f32 :: "f64 \<Rightarrow> u32" where
  "f64_to_f32 b =
     (let e = f64_exponent b; m = 2 ^ 52 + f64_fraction b;
          bits = (if e = 0 then 0
                  else if 897 \<le> e then
                    min (255 * 2 ^ 23) ((e - 896) * 2 ^ 23 + (round_half_even m (2 ^ 29) - 2 ^ 23))
                  else round_half_even m (2 ^ (29 + (897 - e))))
      in word_of_nat ((if f64_negative b then 2 ^ 31 else 0) + bits))"

definition f32_infinite :: "u32 \<Rightarrow> bool" where
  "f32_infinite x \<longleftrightarrow> unat x mod 2 ^ 31 = 255 * 2 ^ 23"

section \<open>Members\<close>

text \<open>A key is stored as a NUL-terminated string, and \<open>object[name]\<close> compares with \<open>strcmp\<close>.\<close>

definition find_member :: "bytes \<Rightarrow> (bytes \<times> json) list \<Rightarrow> json option" where
  "find_member name ms = map_option snd (find (\<lambda>m. strcmp_eq (fst m) name) ms)"

definition containsKey :: "bytes \<Rightarrow> (bytes \<times> json) list \<Rightarrow> bool" where
  "containsKey name ms \<longleftrightarrow> find_member name ms \<noteq> None"

definition member :: "bytes \<Rightarrow> (bytes \<times> json) list \<Rightarrow> json" where
  "member name ms = (case find_member name ms of None \<Rightarrow> JNull | Some v \<Rightarrow> v)"

section \<open>Typed access\<close>

definition isFinite :: "f64 \<Rightarrow> bool" where
  "isFinite value \<longleftrightarrow> f64_finite value"

fun getString :: "json \<Rightarrow> bytes option" where
  "getString (JString s) = Some s"
| "getString _ = None"

fun getSeq :: "json \<Rightarrow> u64 option" where
  "getSeq (JUnsigned w) = Some w"
| "getSeq (JSigned w) = (if sint w < 0 then None else Some w)"
| "getSeq _ = None"

definition getFiniteDouble :: "json \<Rightarrow> f64 option" where
  "getFiniteDouble v =
     (case number_as_double v of
        None \<Rightarrow> None
      | Some d \<Rightarrow> if isFinite d then Some d else None)"

fun getContractInt :: "json \<Rightarrow> i32 option" where
  "getContractInt (JUnsigned w) = (if unat w \<le> 2147483647 then Some (ucast w) else None)"
| "getContractInt (JSigned w) =
     (if - 2147483648 \<le> sint w \<and> sint w \<le> 2147483647 then Some (ucast w) else None)"
| "getContractInt _ = None"

fun getBoolean :: "json \<Rightarrow> bool option" where
  "getBoolean (JBool b) = Some b"
| "getBoolean _ = None"

fun getObject :: "json \<Rightarrow> (bytes \<times> json) list option" where
  "getObject (JObject ms) = Some ms"
| "getObject _ = None"

section \<open>The argument object of a command\<close>

text \<open>
  \<open>ArgsBacking\<close>: the reference to the \<open>args\<close> object inside the parser's document, and whether it
  may be used. A null \<open>JsonObject\<close> is None.
\<close>

record args_backing =
  ab_args :: "(bytes \<times> json) list option"
  ab_active :: bool

definition no_args :: args_backing where
  "no_args = \<lparr>ab_args = None, ab_active = False\<rparr>"

definition backingLive :: "args_backing option \<Rightarrow> bool" where
  "backingLive b \<longleftrightarrow> (case b of None \<Rightarrow> False | Some ab \<Rightarrow> ab_active ab \<and> ab_args ab \<noteq> None)"

text \<open>
  A \<open>CommandArgs\<close> is a pointer to the backing with five accessor functions; the default one has
  neither. It is represented by what the pointer designates when an accessor runs, so a
  default \<open>CommandArgs\<close> is None.
\<close>

type_synonym command_args = "args_backing option"

definition live_member :: "command_args \<Rightarrow> c_string \<Rightarrow> json option" where
  "live_member args name =
     (if name = None \<or> \<not> backingLive args then None
      else Some (member (the name) (the (ab_args (the args)))))"

definition args_has :: "command_args \<Rightarrow> c_string \<Rightarrow> bool" where
  "args_has args name \<longleftrightarrow>
     name \<noteq> None \<and> backingLive args \<and> containsKey (the name) (the (ab_args (the args)))"

definition args_getInt :: "command_args \<Rightarrow> c_string \<Rightarrow> i32 option" where
  "args_getInt args name = Option.bind (live_member args name) getContractInt"

definition args_getFloat :: "command_args \<Rightarrow> c_string \<Rightarrow> u32 option" where
  "args_getFloat args name =
     map_option f64_to_f32 (Option.bind (live_member args name) getFiniteDouble)"

definition args_getBool :: "command_args \<Rightarrow> c_string \<Rightarrow> bool option" where
  "args_getBool args name = Option.bind (live_member args name) getBoolean"

definition args_getString :: "command_args \<Rightarrow> c_string \<Rightarrow> (bytes \<times> nat) option" where
  "args_getString args name =
     map_option (\<lambda>s. (s, length (cstr s))) (Option.bind (live_member args name) getString)"

lemma dead_args:
  assumes "\<not> backingLive args"
  shows "\<not> args_has args n" "args_getInt args n = None" "args_getFloat args n = None"
    "args_getBool args n = None" "args_getString args n = None"
  using assms
  by (simp_all add: args_has_def live_member_def args_getInt_def args_getFloat_def
      args_getBool_def args_getString_def)

text \<open>The value an integer accessor returns is the number in the document.\<close>

lemma sint_ucast_u64: "sint (ucast (w :: u64) :: i32) = signed_take_bit 31 (uint w)"
  by (simp add: signed_ucast_eq)

lemma sint_ucast_i64: "sint (ucast (w :: u64) :: i32) = signed_take_bit 31 (sint w)"
proof -
  have "signed_take_bit 31 (sint w) = signed_take_bit 31 (take_bit 32 (signed_take_bit 63 (uint w)))"
    by (simp add: signed_take_bit_take_bit sint_uint)
  also have "\<dots> = signed_take_bit 31 (take_bit 32 (uint w))"
    by (simp add: take_bit_signed_take_bit)
  also have "\<dots> = signed_take_bit 31 (uint w)" by (simp add: signed_take_bit_take_bit)
  finally show ?thesis by (simp add: sint_ucast_u64)
qed

lemma getContractInt_unsigned:
  "getContractInt (JUnsigned w) = Some i \<Longrightarrow> sint i = uint w"
proof -
  assume "getContractInt (JUnsigned w) = Some i"
  then have b: "unat w \<le> 2147483647" and i: "i = ucast w" by (auto split: if_splits)
  have "uint w = int (unat w)" by simp
  with b have "uint w < 2147483648" "- 2147483648 \<le> uint w" by linarith+
  then show ?thesis unfolding i sint_ucast_u64 by (intro signed_take_bit_int_eq_self) simp_all
qed

lemma getContractInt_signed:
  "getContractInt (JSigned w) = Some i \<Longrightarrow> sint i = sint w"
proof -
  assume "getContractInt (JSigned w) = Some i"
  then have b: "- 2147483648 \<le> sint w" "sint w \<le> 2147483647" and i: "i = ucast w"
    by (auto split: if_splits)
  show ?thesis unfolding i sint_ucast_i64 using b by (intro signed_take_bit_int_eq_self) simp_all
qed

end
