(* ===== verification/Environment.thy ===== *)
theory Environment
  imports ObjectWriter JsonDocument Protocol Counters
begin

text \<open>
  The interfaces the core is written against: \<open>src/core/Clock.h\<close>, \<open>src/core/Transport.h\<close>,
  \<open>src/core/NetworkServer.h\<close>, and the callbacks board code registers
  (\<open>src/api/SafetyHooks.h\<close>, \<open>src/api/TelemetryProvider.h\<close>, \<open>CommandHandler\<close>).

  What lies behind them (time, the network, the peer, the board) is a world of an arbitrary type
  \<open>'w\<close>. An environment says how each call reads and changes the world; even a \<open>const\<close> method may
  change it, since time passes and packets arrive. A callback cannot reach the server's own state:
  re-entrant calls into the server are outside the model.
\<close>

section \<open>Types of the interfaces\<close>

datatype transport_connection_state = Open | BytesAvailable | Closed | LinkDown

datatype network_availability = Uninitialized | Link_Down | AddressPending | Ready

record connection_handle =
  ch_slot :: u8
  ch_generation :: u32

definition kInvalidConnection :: connection_handle where
  "kInvalidConnection = \<lparr>ch_slot = 0xFF, ch_generation = 0\<rparr>"

definition isValidConnectionHandle :: "connection_handle \<Rightarrow> bool" where
  "isValidConnectionHandle h \<longleftrightarrow> ch_generation h \<noteq> 0 \<and> ch_slot h \<noteq> ch_slot kInvalidConnection"

definition sameConnection :: "connection_handle \<Rightarrow> connection_handle \<Rightarrow> bool" where
  "sameConnection l r \<longleftrightarrow> ch_slot l = ch_slot r \<and> ch_generation l = ch_generation r"

lemma kInvalidConnection_invalid [simp]: "\<not> isValidConnectionHandle kInvalidConnection"
  by (simp add: isValidConnectionHandle_def kInvalidConnection_def)

lemma sameConnection_iff: "sameConnection l r \<longleftrightarrow> l = r"
  by (auto simp: sameConnection_def intro: connection_handle.equality)

section \<open>The environment\<close>

text \<open>A \<open>Transport*\<close> is the number of the transport object, None for a null pointer.\<close>

type_synonym transport_ptr = nat

record 'w env =
  monotonicMilliseconds :: "'w \<Rightarrow> u64 \<times> 'w"
  monotonicMicroseconds :: "'w \<Rightarrow> u64 \<times> 'w"
  progress :: "'w \<Rightarrow> 'w"
  availability :: "'w \<Rightarrow> network_availability \<times> 'w"
  net_begin :: "u16 \<Rightarrow> 'w \<Rightarrow> bool \<times> 'w"
  isListening :: "'w \<Rightarrow> bool \<times> 'w"
  hasPendingConnection :: "'w \<Rightarrow> bool \<times> 'w"
  accept :: "'w \<Rightarrow> connection_handle \<times> 'w"
  transport :: "connection_handle \<Rightarrow> 'w \<Rightarrow> transport_ptr option \<times> 'w"
  abort :: "connection_handle \<Rightarrow> 'w \<Rightarrow> 'w"
  readSome :: "transport_ptr \<Rightarrow> nat \<Rightarrow> 'w \<Rightarrow> bytes \<times> 'w"
  writeSome :: "transport_ptr \<Rightarrow> bytes \<Rightarrow> 'w \<Rightarrow> nat \<times> 'w"
  flush :: "transport_ptr \<Rightarrow> 'w \<Rightarrow> bool \<times> 'w"
  connectionState :: "transport_ptr \<Rightarrow> 'w \<Rightarrow> transport_connection_state \<times> 'w"
  safetyHook :: "nat \<Rightarrow> 'w \<Rightarrow> bool \<times> 'w"
  telemetryProvider :: "nat \<Rightarrow> object_writer \<Rightarrow> 'w \<Rightarrow> bool \<times> object_writer \<times> 'w"
  commandHandler :: "nat \<Rightarrow> u64 \<Rightarrow> command_args \<Rightarrow> object_writer \<Rightarrow> 'w \<Rightarrow>
     command_result \<times> object_writer \<times> 'w"

section \<open>What implementations document\<close>

text \<open>
  Board code holds a writer only through the ObjectWriter API, and a result only through the
  CommandResult constructors.
\<close>

definition lawful_board :: "'w env \<Rightarrow> bool" where
  "lawful_board E \<longleftrightarrow>
     (\<forall>k w o'. ow_reaches o' (fst (snd (telemetryProvider E k o' w)))) \<and>
     (\<forall>k seq args w o'.
        ow_reaches o' (fst (snd (commandHandler E k seq args o' w))) \<and>
        result_ok (fst (commandHandler E k seq args o' w)))"

text \<open>
  A transport that reports honestly: \<open>sent\<close> reads from the world what went out on transport \<open>t\<close>,
  \<open>writeSome\<close> appends the prefix it reports, and the clock, the network pump and \<open>flush\<close> send
  nothing of their own.
\<close>

definition faithful_transport :: "'w env \<Rightarrow> transport_ptr \<Rightarrow> ('w \<Rightarrow> bytes) \<Rightarrow> bool" where
  "faithful_transport E t sent \<longleftrightarrow>
     (\<forall>d w. fst (writeSome E t d w) \<le> length d \<and>
        sent (snd (writeSome E t d w)) = sent w @ take (fst (writeSome E t d w)) d) \<and>
     (\<forall>w. sent (snd (monotonicMilliseconds E w)) = sent w) \<and>
     (\<forall>w. sent (progress E w) = sent w) \<and>
     (\<forall>w. sent (snd (flush E t w)) = sent w)"

text \<open>
  A clock that runs: \<open>time\<close> is the board time of the world in milliseconds. Reading the clock gives
  it modulo \<open>2^64\<close>, or modulo \<open>2^32\<close> as the platform clock does (\<open>clock_reading\<close>). No call of the
  send loop turns it back or takes \<open>2^30\<close> milliseconds (twelve days), and each pump of the network
  takes some time. The last is what a loop over instantaneous calls would need in order to end.
\<close>

definition clock_reading :: "bool \<Rightarrow> nat \<Rightarrow> u64" where
  "clock_reading wide t = (if wide then word_of_nat t else ucast (word_of_nat t :: u32))"

definition takes_time :: "('w \<Rightarrow> nat) \<Rightarrow> 'w \<Rightarrow> 'w \<Rightarrow> bool" where
  "takes_time time w w' \<longleftrightarrow> time w \<le> time w' \<and> time w' < time w + 2 ^ 30"

definition running_clock :: "'w env \<Rightarrow> ('w \<Rightarrow> nat) \<Rightarrow> bool" where
  "running_clock E time \<longleftrightarrow>
     (\<exists>wide. \<forall>w. fst (monotonicMilliseconds E w) = clock_reading wide (time (snd (monotonicMilliseconds E w)))) \<and>
     (\<forall>w. takes_time time w (snd (monotonicMilliseconds E w))) \<and>
     (\<forall>t d w. takes_time time w (snd (writeSome E t d w))) \<and>
     (\<forall>w. takes_time time w (progress E w) \<and> time w < time (progress E w))"

section \<open>An instance\<close>

text \<open>
  A small environment that meets these descriptions: the world is a millisecond count and the bytes
  sent, transport 0 accepts at most \<open>k\<close> bytes per write, the network is ready with nobody waiting.
\<close>

definition sample_env :: "nat \<Rightarrow> (nat \<times> bytes) env" where
  "sample_env k =
     \<lparr>monotonicMilliseconds = (\<lambda>(t, s). (word_of_nat t, (t, s))),
      monotonicMicroseconds = (\<lambda>(t, s). (word_of_nat (1000 * t), (t, s))),
      progress = (\<lambda>(t, s). (t + 1, s)),
      availability = (\<lambda>w. (Ready, w)),
      net_begin = (\<lambda>port w. (True, w)),
      isListening = (\<lambda>w. (True, w)),
      hasPendingConnection = (\<lambda>w. (False, w)),
      accept = (\<lambda>w. (\<lparr>ch_slot = 0, ch_generation = 1\<rparr>, w)),
      transport = (\<lambda>h w. (Some 0, w)),
      abort = (\<lambda>h w. w),
      readSome = (\<lambda>t n w. ([], w)),
      writeSome = (\<lambda>p d (t, s). (min k (length d), (t, s @ take k d))),
      flush = (\<lambda>p w. (True, w)),
      connectionState = (\<lambda>p w. (Open, w)),
      safetyHook = (\<lambda>n w. (True, w)),
      telemetryProvider = (\<lambda>n o' w. (True, o', w)),
      commandHandler = (\<lambda>n seq args o' w. (ok_result, o', w))\<rparr>"

lemma sample_env_running: "running_clock (sample_env k) fst"
  by (auto simp: running_clock_def takes_time_def sample_env_def clock_reading_def split_beta intro: exI [of _ True])

lemma sample_env_faithful: "faithful_transport (sample_env k) t snd"
  by (auto simp: faithful_transport_def sample_env_def split_beta min_def)

lemma sample_env_lawful: "lawful_board (sample_env k)"
  by (simp add: lawful_board_def sample_env_def ow_refl)

end
