(* ===== verification/OutboundWriter.thy ===== *)
theory OutboundWriter
  imports Environment
begin

text \<open>
  Deadline-bounded transmission of one line, \<open>src/core/OutboundWriter.h\<close>. The callback
  \<open>requestTeardown\<close> the writer may make is the last thing a send does, so it is returned as a
  reason for the caller, the session driver, to act on.

  The send loop is a partial function: a transport that accepts nothing under a clock that stands
  still keeps it spinning. The lemmas show that it returns under a running clock, that the bytes
  sent are the line or a proper prefix of it, and when a failure ends the session.
\<close>

section \<open>Types and state\<close>

datatype message_class = Critical | Telemetry_Class

datatype outbound_send_result = Sent | InvalidLine | NoActiveTransport | Busy | DeadlineExpired

datatype teardown_reason =
    CriticalTransmitFailure | TelemetryTransmitFailureStreak | ConnectionLost | LinkLost
  | SchemaSendFailure | ExplicitShutdown | Superseded

text \<open>
  \<open>wr_attached\<close>: the network, clock and counters pointers and the callback are set, which the
  session driver's constructor does and the default constructor does not.
\<close>

record outbound_writer =
  wr_attached :: bool
  wr_transport :: "transport_ptr option"
  wr_failures :: u8
  wr_send_in_progress :: bool

definition default_writer :: outbound_writer where
  "default_writer = \<lparr>wr_attached = False, wr_transport = None, wr_failures = 0,
     wr_send_in_progress = False\<rparr>"

definition attached_writer :: outbound_writer where
  "attached_writer = default_writer\<lparr>wr_attached := True\<rparr>"

definition beginSession :: "outbound_writer \<Rightarrow> outbound_writer" where
  "beginSession wr = wr\<lparr>wr_failures := 0\<rparr>"

definition bindTransport :: "transport_ptr \<Rightarrow> outbound_writer \<Rightarrow> outbound_writer" where
  "bindTransport t wr = beginSession (wr\<lparr>wr_transport := Some t\<rparr>)"

definition clearTransport :: "outbound_writer \<Rightarrow> outbound_writer" where
  "clearTransport wr = beginSession (wr\<lparr>wr_transport := None, wr_send_in_progress := False\<rparr>)"

section \<open>Sending a line\<close>

definition isValidWireLine :: "bytes \<Rightarrow> bool" where
  "isValidWireLine line \<longleftrightarrow>
     line \<noteq> [] \<and> length line \<le> kBoardTxMaxLineBytes \<and> last line = LF \<and> LF \<notin> set (butlast line)"

lemma isValidWireLine_line_of:
  "isValidWireLine (line_of ms) \<longleftrightarrow> length (line_of ms) \<le> kBoardTxMaxLineBytes"
  by (simp add: isValidWireLine_def line_of_shape)

definition deadlineExpired :: "u64 \<Rightarrow> u64 \<Rightarrow> bool" where
  "deadlineExpired start_ms now_ms \<longleftrightarrow> kTransmitDeadlineMs \<le> now_ms - start_ms"

text \<open>How the loop of \<open>sendValidLine\<close> ends: the deadline, the exact length, or past the length.\<close>

datatype send_end = Ended_Deadline | Ended_Flushed | Ended_Past

partial_function (option) send_loop ::
    "'w env \<Rightarrow> transport_ptr \<Rightarrow> bytes \<Rightarrow> u64 \<Rightarrow> nat \<Rightarrow> 'w \<Rightarrow> (send_end \<times> 'w) option" where
  "send_loop E t line start_ms taken w =
     (if length line \<le> taken then Some (Ended_Past, w)
      else case monotonicMilliseconds E w of
        (now, w1) \<Rightarrow>
          if deadlineExpired start_ms now then Some (Ended_Deadline, w1)
          else case writeSome E t (drop taken line) w1 of
            (written, w2) \<Rightarrow>
              if taken + written = length line
              then Some (Ended_Flushed, snd (flush E t w2))
              else send_loop E t line start_ms (taken + written) (progress E w2))"

definition handleDeadline ::
    "message_class \<Rightarrow> outbound_writer \<times> counters \<Rightarrow>
     (outbound_send_result \<times> teardown_reason option) \<times> outbound_writer \<times> counters" where
  "handleDeadline message_class st =
     (case st of (wr, c) \<Rightarrow>
        if message_class = Critical then
          ((DeadlineExpired, Some CriticalTransmitFailure), (wr, increment tx_failures_update c))
        else
          let c1 = increment telemetry_dropped_update c;
              below = wr_failures wr < kTelemetryDeadlineFailuresToTeardown;
              wr1 = (if below then wr\<lparr>wr_failures := wr_failures wr + 1\<rparr> else wr)
          in ((DeadlineExpired,
               if below \<and> kTelemetryDeadlineFailuresToTeardown \<le> wr_failures wr1
               then Some TelemetryTransmitFailureStreak else None), (wr1, c1)))"

type_synonym 'w writer_state = "outbound_writer \<times> counters \<times> 'w"

definition sendValidLine ::
    "'w env \<Rightarrow> transport_ptr \<Rightarrow> bytes \<Rightarrow> message_class \<Rightarrow> 'w writer_state \<Rightarrow>
     ((outbound_send_result \<times> teardown_reason option) \<times> 'w writer_state) option" where
  "sendValidLine E t line message_class st =
     (case st of (wr, c, w) \<Rightarrow>
        case monotonicMilliseconds E w of
          (start_ms, w1) \<Rightarrow>
            case send_loop E t line start_ms 0 w1 of
              None \<Rightarrow> None
            | Some (Ended_Deadline, w2) \<Rightarrow>
                (case handleDeadline message_class (wr, c) of
                   (r, (wr1, c1)) \<Rightarrow> Some (r, (wr1, c1, w2)))
            | Some (Ended_Flushed, w2) \<Rightarrow>
                Some ((Sent, None),
                  ((if message_class = Telemetry_Class then wr\<lparr>wr_failures := 0\<rparr> else wr), c, w2))
            | Some (Ended_Past, w2) \<Rightarrow> Some ((Sent, None), (wr, c, w2)))"

text \<open>A line is a pointer, possibly null, with a size; a non-null one is its bytes.\<close>

definition sendLine ::
    "'w env \<Rightarrow> c_string \<Rightarrow> message_class \<Rightarrow> 'w writer_state \<Rightarrow>
     ((outbound_send_result \<times> teardown_reason option) \<times> 'w writer_state) option" where
  "sendLine E line message_class st =
     (case st of (wr, c, w) \<Rightarrow>
        if wr_send_in_progress wr then Some ((Busy, None), st)
        else case line of
          None \<Rightarrow> Some ((InvalidLine, None), st)
        | Some l \<Rightarrow>
            if \<not> isValidWireLine l then Some ((InvalidLine, None), st)
            else case wr_transport wr of
              None \<Rightarrow> Some ((NoActiveTransport, None), st)
            | Some t \<Rightarrow>
                if \<not> wr_attached wr then Some ((NoActiveTransport, None), st)
                else case sendValidLine E t l message_class
                            (wr\<lparr>wr_send_in_progress := True\<rparr>, c, w) of
                  None \<Rightarrow> None
                | Some (r, (wr1, c1, w1)) \<Rightarrow>
                    Some (r, (wr1\<lparr>wr_send_in_progress := False\<rparr>, c1, w1)))"

section \<open>The bytes that go out\<close>

text \<open>
  \<open>sends_prefix\<close>: a run of the loop from \<open>taken\<close> on sends the next bytes of the line, all of them
  unless it ends at the deadline.
\<close>

definition sends_prefix ::
    "('w \<Rightarrow> bytes) \<Rightarrow> 'w env \<Rightarrow> transport_ptr \<Rightarrow> bytes \<Rightarrow> nat \<Rightarrow> 'w \<Rightarrow> send_end \<times> 'w \<Rightarrow> bool" where
  "sends_prefix sent E t line taken w r \<longleftrightarrow>
     (faithful_transport E t sent \<longrightarrow> taken \<le> length line \<longrightarrow>
     (\<exists>k. sent (snd r) = sent w @ take k (drop taken line) \<and> taken + k \<le> length line \<and>
         (fst r = Ended_Deadline \<longleftrightarrow> taken + k < length line) \<and>
         (fst r = Ended_Past \<longrightarrow> length line \<le> taken)))"

lemma send_loop_sent_step:
  assumes IH: "\<And>E t line start taken w r. loop E t line start taken w = Some r \<Longrightarrow>
      sends_prefix sent E t line taken w r"
    and body: "(if length line \<le> taken then Some (Ended_Past, w)
      else case monotonicMilliseconds E w of
        (now, w1) \<Rightarrow>
          if deadlineExpired start now then Some (Ended_Deadline, w1)
          else case writeSome E t (drop taken line) w1 of
            (written, w2) \<Rightarrow>
              if taken + written = length line
              then Some (Ended_Flushed, snd (flush E t w2))
              else loop E t line start (taken + written) (progress E w2)) = Some r"
  shows "sends_prefix sent E t line taken w r"
  unfolding sends_prefix_def
  proof (intro impI)
    assume F: "faithful_transport E t sent" and le: "taken \<le> length line"
    note F' = F [unfolded faithful_transport_def]
    obtain now w1 where now: "monotonicMilliseconds E w = (now, w1)"
      by (cases "monotonicMilliseconds E w")
    obtain n w2 where wr: "writeSome E t (drop taken line) w1 = (n, w2)"
      by (cases "writeSome E t (drop taken line) w1")
    have s1: "sent w1 = sent w" using F' now by (metis snd_conv)
    have "fst (writeSome E t (drop taken line) w1) \<le> length (drop taken line)"
      "sent (snd (writeSome E t (drop taken line) w1)) =
         sent w1 @ take (fst (writeSome E t (drop taken line) w1)) (drop taken line)"
      using F' by blast+
    then have n: "n \<le> length line - taken" "sent w2 = sent w @ take n (drop taken line)"
      by (simp_all add: wr s1)
    consider "length line \<le> taken" | "taken < length line" "deadlineExpired start now"
      | "taken < length line" "\<not> deadlineExpired start now" "taken + n = length line"
      | "taken < length line" "\<not> deadlineExpired start now" "taken + n \<noteq> length line"
      by linarith
    then show "\<exists>k. sent (snd r) = sent w @ take k (drop taken line) \<and> taken + k \<le> length line \<and>
         (fst r = Ended_Deadline \<longleftrightarrow> taken + k < length line) \<and>
         (fst r = Ended_Past \<longrightarrow> length line \<le> taken)"
    proof cases
      case 1
      with body have "r = (Ended_Past, w)" by auto
      with 1 le show ?thesis by (intro exI [of _ 0]) simp
    next
      case 2
      with body now have "r = (Ended_Deadline, w1)" by auto
      with 2 s1 show ?thesis by (intro exI [of _ 0]) simp
    next
      case 3
      with body now wr have "r = (Ended_Flushed, snd (flush E t w2))" by auto
      with 3 n F' show ?thesis by (intro exI [of _ n]) simp
    next
      case 4
      then have le': "taken + n \<le> length line" using n by linarith
      from 4 body now wr have "loop E t line start (taken + n) (progress E w2) = Some r" by simp
      from IH [OF this, unfolded sends_prefix_def] F le' obtain k where
        k: "sent (snd r) = sent (progress E w2) @ take k (drop (taken + n) line)"
        "taken + n + k \<le> length line" "fst r = Ended_Deadline \<longleftrightarrow> taken + n + k < length line"
        "fst r = Ended_Past \<longrightarrow> length line \<le> taken + n"
        by blast
      have "sent (snd r) = sent w @ take (n + k) (drop taken line)"
        using k(1) n(2) F' by (simp add: take_add [of n k] add.commute [of taken n])
      moreover have "taken + n < length line" using 4 le' by simp
      ultimately show ?thesis using k by (intro exI [of _ "n + k"]) (simp add: add.assoc)
    qed
  qed

lemma send_loop_sent:
  assumes "send_loop E t line start taken w = Some r"
  shows "sends_prefix sent E t line taken w r"
  by (rule send_loop.raw_induct
      [where P = "\<lambda>E t line start taken w r. sends_prefix sent E t line taken w r", OF _ assms])
    (rule send_loop_sent_step, assumption+)

section \<open>The loop ends\<close>

lemma elapsed_word:
  "T0 \<le> T \<Longrightarrow> T - T0 < 2 ^ 64 \<Longrightarrow> unat (word_of_nat T - word_of_nat T0 :: u64) = T - T0"
proof -
  assume T: "T0 \<le> T" "T - T0 < 2 ^ 64"
  then have "word_of_nat T - word_of_nat T0 = (word_of_nat (T - T0) :: u64)"
    by (simp add: of_nat_diff)
  with unat_word_small [OF T(2)] show ?thesis by (simp only:)
qed

lemma deadline_iff:
  "T0 \<le> T \<Longrightarrow> T - T0 < 2 ^ 64 \<Longrightarrow> deadlineExpired (word_of_nat T0) (word_of_nat T) \<longleftrightarrow> T0 + 100 \<le> T"
  by (auto simp: deadlineExpired_def word_le_nat_alt elapsed_word limits)

text \<open>
  A clock that is narrower than its 64-bit readings jumps back when it wraps. The difference is then
  huge, so the deadline is over early but never missed.
\<close>

lemma deadline_passed:
  assumes "T0 + 100 \<le> T" and "T - T0 < 2 ^ 32"
  shows "deadlineExpired (clock_reading wide T0) (clock_reading wide T)"
proof (cases wide)
  case True
  with assms show ?thesis by (simp add: clock_reading_def deadline_iff)
next
  case False
  define a b where "a = T0 mod 2 ^ 32" and "b = T mod 2 ^ 32"
  have u: "clock_reading wide T0 = word_of_nat a" "clock_reading wide T = word_of_nat b"
    using False by (simp_all add: clock_reading_def a_def b_def unsigned_of_nat take_bit_eq_mod)
  have lt: "a < 2 ^ 32" "b < 2 ^ 32" by (simp_all add: a_def b_def)
  show ?thesis
  proof (cases "a \<le> b")
    case True
    define k where "k = T - T0"
    have k: "100 \<le> k" "k < 2 ^ 32" "T = T0 + k" using assms by (simp_all add: k_def)
    have "b = (a + k) mod 2 ^ 32" by (simp add: a_def b_def k(3) mod_simps)
    then have "b = (if a + k < 2 ^ 32 then a + k else a + k - 2 ^ 32)"
      using lt k(2) by (simp add: le_mod_geq)
    then have "a + 100 \<le> b" using True k lt by (simp split: if_splits)
    then show ?thesis using lt True by (simp add: u deadline_iff)
  next
    case less: False
    define m where "m = 2 ^ 64 - (a - b)"
    have m: "m < 2 ^ 64" "100 \<le> m" "m + a = 2 ^ 64 + b" using less lt by (simp_all add: m_def)
    have "word_of_nat m + word_of_nat a = (word_of_nat (m + a) :: u64)" by simp
    also have "\<dots> = word_of_nat b" by (simp only: m(3)) simp
    finally have "word_of_nat b - word_of_nat a = (word_of_nat m :: u64)"
      by (simp only: eq_diff_eq [symmetric])
    then show ?thesis
      using m(2) by (simp add: u deadlineExpired_def word_le_nat_alt limits unat_word_small [OF m(1)])
  qed
qed

lemma send_loop_ends:
  assumes R: "running_clock E time"
    and wide: "\<And>w. fst (monotonicMilliseconds E w) = clock_reading wide (time (snd (monotonicMilliseconds E w)))"
  shows "T0 \<le> time w \<Longrightarrow> time w - T0 < 2 ^ 31 + 100 \<Longrightarrow>
     \<exists>r. send_loop E t line (clock_reading wide T0) taken w = Some r"
proof (induction "T0 + 100 - time w" arbitrary: w taken rule: less_induct)
  case less
  note R' = R [unfolded running_clock_def takes_time_def]
  obtain now w1 where now: "monotonicMilliseconds E w = (now, w1)"
    by (cases "monotonicMilliseconds E w")
  obtain n w2 where wr: "writeSome E t (drop taken line) w1 = (n, w2)"
    by (cases "writeSome E t (drop taken line) w1")
  have t1: "now = clock_reading wide (time w1)" "time w \<le> time w1" "time w1 < time w + 2 ^ 30"
    using wide [of w] R' now by (simp, metis snd_conv, metis snd_conv)
  have t2: "time w1 \<le> time w2" "time w2 < time w1 + 2 ^ 30"
    using R' wr by (metis snd_conv)+
  have t3: "time w2 < time (progress E w2)" "time (progress E w2) < time w2 + 2 ^ 30"
    using R' by blast+
  have d: "deadlineExpired (clock_reading wide T0) now" if "T0 + 100 \<le> time w1"
    unfolding t1(1) using less.prems t1(3) that by (intro deadline_passed) simp_all
  show ?case
  proof (cases "length line \<le> taken \<or> T0 + 100 \<le> time w1 \<or> taken + n = length line")
    case True
    then show ?thesis by (subst send_loop.simps) (auto simp: now wr d)
  next
    case False
    then have early: "time w1 < T0 + 100" by simp
    have "\<exists>r. send_loop E t line (clock_reading wide T0) (taken + n) (progress E w2) = Some r"
    proof (rule less.hyps)
      show "T0 + 100 - time (progress E w2) < T0 + 100 - time w"
        using early t1(2) t2(1) t3(1) by arith
      show "T0 \<le> time (progress E w2)" using less.prems t1(2) t2(1) t3(1) by arith
      have "time (progress E w2) < T0 + 100 + 2 ^ 30 + 2 ^ 30" using early t2(2) t3(2) by linarith
      then show "time (progress E w2) - T0 < 2 ^ 31 + 100" by simp
    qed
    with False show ?thesis by (subst send_loop.simps) (simp add: now wr)
  qed
qed

lemma sendValidLine_returns:
  assumes "running_clock E time"
  shows "\<exists>r. sendValidLine E t line mc st = Some r"
proof -
  obtain wr c w where st: "st = (wr, c, w)" by (cases st) auto
  obtain start w1 where s: "monotonicMilliseconds E w = (start, w1)"
    by (cases "monotonicMilliseconds E w")
  obtain wide where wide: "\<And>w. fst (monotonicMilliseconds E w) =
      clock_reading wide (time (snd (monotonicMilliseconds E w)))"
    using assms unfolding running_clock_def by blast
  from wide [of w] send_loop_ends [OF assms wide, of "time w1" w1 t line 0]
  obtain e w2 where "send_loop E t line start 0 w1 = Some (e, w2)" by (auto simp: s)
  then show ?thesis by (cases e) (simp_all add: sendValidLine_def st s split: prod.split)
qed

lemma sendLine_returns:
  assumes "running_clock E time"
  shows "\<exists>r. sendLine E line mc st = Some r"
proof -
  obtain wr c w where st: "st = (wr, c, w)" by (cases st) auto
  show ?thesis
    using sendValidLine_returns [OF assms]
    by (auto simp: sendLine_def st split: option.splits)
       (metis option.distinct(1))+
qed

section \<open>Results\<close>

definition writer_ready :: "transport_ptr \<Rightarrow> outbound_writer \<Rightarrow> bool" where
  "writer_ready t wr \<longleftrightarrow>
     wr_attached wr \<and> wr_transport wr = Some t \<and> \<not> wr_send_in_progress wr"

text \<open>What a send leaves of the writer: the binding, and no send in progress.\<close>

lemma sendLine_frame:
  assumes "sendLine E line mc (wr, c, w) = Some (r, (wr', c', w'))"
  shows "wr_transport wr' = wr_transport wr" "wr_attached wr' = wr_attached wr"
    "wr_send_in_progress wr' = wr_send_in_progress wr"
  using assms
  by (auto simp: sendLine_def sendValidLine_def handleDeadline_def Let_def
      split: if_splits option.splits prod.splits send_end.splits)

text \<open>One send through a ready writer and an honest transport.\<close>

lemma sendLine_ready:
  assumes "sendLine E (Some l) mc (wr, c, w) = Some ((res, td), (wr', c', w'))"
    and "writer_ready t wr" and "isValidWireLine l" and "faithful_transport E t sent"
  shows "(res = Sent \<and> td = None \<and> sent w' = sent w @ l \<and> c' = c \<and>
            wr_failures wr' = (if mc = Telemetry_Class then 0 else wr_failures wr)) \<or>
         (res = DeadlineExpired \<and> (\<exists>k < length l. sent w' = sent w @ take k l) \<and>
            (\<exists>wr1. handleDeadline mc (wr\<lparr>wr_send_in_progress := True\<rparr>, c) = ((res, td), (wr1, c')) \<and>
               wr_failures wr' = wr_failures wr1))"
proof -
  obtain start w1 where s: "monotonicMilliseconds E w = (start, w1)"
    by (cases "monotonicMilliseconds E w")
  have keep: "sent w1 = sent w"
    using assms(4) s unfolding faithful_transport_def by (metis snd_conv)
  obtain e w2 where e: "send_loop E t l start 0 w1 = Some (e, w2)"
    using assms(1-3) by (cases "send_loop E t l start 0 w1")
      (auto simp: sendLine_def writer_ready_def sendValidLine_def s)
  from send_loop_sent [OF e, of sent] assms(4) obtain k where
    k: "sent w2 = sent w @ take k l" "k \<le> length l" "e = Ended_Deadline \<longleftrightarrow> k < length l"
    "e = Ended_Past \<longrightarrow> length l \<le> 0" by (auto simp: sends_prefix_def keep)
  have "l \<noteq> []" using assms(3) by (simp add: isValidWireLine_def)
  with k(4) have "e \<noteq> Ended_Past" by auto
  then consider "e = Ended_Deadline" | "e = Ended_Flushed" by (cases e) auto
  then show ?thesis
  proof cases
    case 1
    obtain rt wr1 c1 where h: "handleDeadline mc (wr\<lparr>wr_send_in_progress := True\<rparr>, c) = (rt, (wr1, c1))"
      by (metis surj_pair)
    then have "fst rt = DeadlineExpired"
      by (auto simp: handleDeadline_def Let_def split: if_splits)
    with 1 assms(1-3) h e s k show ?thesis
      by (auto simp: sendLine_def writer_ready_def sendValidLine_def)
  next
    case 2
    with k have "k = length l" by simp
    with 2 assms(1-3) e s k show ?thesis
      by (auto simp: sendLine_def writer_ready_def sendValidLine_def)
  qed
qed

lemma sendLine_not_ready:
  assumes "sendLine E line mc st = Some ((res, td), st')"
    and "\<not> (\<exists>l t. line = Some l \<and> isValidWireLine l \<and> writer_ready t (fst st))"
  shows "st' = st \<and> td = None \<and> res \<in> {InvalidLine, NoActiveTransport, Busy}"
  using assms
  by (cases st) (auto simp: sendLine_def writer_ready_def split: if_splits option.splits)

text \<open>In the sample environment a transport that takes a whole line sends it at once.\<close>

lemma sample_env_sends:
  assumes "isValidWireLine l" and "length l \<le> k" and "writer_ready t wr" and "mc = Critical"
  shows "sendLine (sample_env k) (Some l) mc (wr, c, (T, s)) = Some ((Sent, None), (wr, c, (T, s @ l)))"
proof -
  have "deadlineExpired n n = False" for n by (simp add: deadlineExpired_def limits)
  then have "send_loop (sample_env k) t l (word_of_nat T) 0 (T, s) = Some (Ended_Flushed, (T, s @ l))"
    using assms(1,2) by (subst send_loop.simps) (auto simp: sample_env_def isValidWireLine_def)
  moreover have "monotonicMilliseconds (sample_env k) (T, s) = (word_of_nat T, (T, s))"
    by (simp add: sample_env_def)
  ultimately show ?thesis
    using assms(1,3,4) by (simp add: sendLine_def writer_ready_def sendValidLine_def)
qed

section \<open>Failure streaks\<close>

text \<open>\<open>streaks k rs\<close>: how many sends have failed in a row after each of \<open>rs\<close>, \<open>k\<close> before the first.\<close>

fun streaks :: "nat \<Rightarrow> outbound_send_result list \<Rightarrow> nat list" where
  "streaks k [] = []"
| "streaks k (r # rs) =
     (let k' = (if r = DeadlineExpired then Suc k else 0) in k' # streaks k' rs)"

fun send_all ::
    "'w env \<Rightarrow> bytes list \<Rightarrow> 'w writer_state \<Rightarrow>
     ((outbound_send_result \<times> teardown_reason option) list \<times> 'w writer_state) option" where
  "send_all E [] st = Some ([], st)"
| "send_all E (l # ls) st =
     (case sendLine E (Some l) Telemetry_Class st of
        None \<Rightarrow> None
      | Some (r, st') \<Rightarrow> map_option (\<lambda>(rs, st''). (r # rs, st'')) (send_all E ls st'))"

definition streak_holds :: "nat \<Rightarrow> outbound_writer \<Rightarrow> bool" where
  "streak_holds k wr \<longleftrightarrow> unat (wr_failures wr) = min 10 k"

lemma handleDeadline_streak:
  assumes "handleDeadline Telemetry_Class (wr, c) = ((res, td), (wr', c'))" and "streak_holds k wr"
  shows "td = (if Suc k = 10 then Some TelemetryTransmitFailureStreak else None)"
    and "streak_holds (Suc k) wr'"
proof -
  define f where "f = wr_failures wr"
  have f: "unat f = min 10 k" using assms(2) by (simp add: streak_holds_def f_def)
  have below: "f < kTelemetryDeadlineFailuresToTeardown \<longleftrightarrow> k < 10"
    by (auto simp add: limits word_less_nat_alt f)
  have inc: "k < 10 \<Longrightarrow> unat (f + 1) = Suc k"
    using f by (simp add: unat_word_ariths)
  have at: "k < 10 \<Longrightarrow> kTelemetryDeadlineFailuresToTeardown \<le> f + 1 \<longleftrightarrow> Suc k = 10"
    by (auto simp add: limits word_le_nat_alt inc simp del: word_arith_nat_add)
  have ks: "td = (if k < 10 \<and> kTelemetryDeadlineFailuresToTeardown \<le> f + 1
      then Some TelemetryTransmitFailureStreak else None)"
    "wr_failures wr' = (if k < 10 then f + 1 else f)"
    using assms(1) by (auto simp: handleDeadline_def Let_def below [unfolded f_def] f_def)
  show "td = (if Suc k = 10 then Some TelemetryTransmitFailureStreak else None)"
    using ks(1) at by auto
  show "streak_holds (Suc k) wr'"
    using ks(2) inc f by (auto simp: streak_holds_def min_def simp del: word_arith_nat_add)
qed

lemma send_all_streaks:
  assumes "faithful_transport E t sent"
  shows "send_all E ls (wr, c, w) = Some (rs, st') \<Longrightarrow> writer_ready t wr \<Longrightarrow>
     list_all isValidWireLine ls \<Longrightarrow> streak_holds k wr \<Longrightarrow>
     map snd rs = map (\<lambda>n. if n = 10 then Some TelemetryTransmitFailureStreak else None)
       (streaks k (map fst rs))"
proof (induction ls arbitrary: wr c w rs k)
  case Nil
  then show ?case by simp
next
  case (Cons l ls)
  from Cons.prems(1) obtain res td wr1 c1 w1 rs1 where
    one: "sendLine E (Some l) Telemetry_Class (wr, c, w) = Some ((res, td), (wr1, c1, w1))"
    and rest: "send_all E ls (wr1, c1, w1) = Some (rs1, st')" and rs: "rs = (res, td) # rs1"
    by (auto split: option.splits)
  have valid: "isValidWireLine l" "list_all isValidWireLine ls" using Cons.prems(3) by simp_all
  have ready: "writer_ready t wr1"
    using Cons.prems(2) sendLine_frame [OF one] by (simp add: writer_ready_def)
  define k' where "k' = (if res = DeadlineExpired then Suc k else 0)"
  have "td = (if k' = 10 then Some TelemetryTransmitFailureStreak else None) \<and> streak_holds k' wr1"
    using sendLine_ready [OF one Cons.prems(2) valid(1) assms]
  proof (elim disjE conjE exE)
    assume "res = Sent" "td = None" "wr_failures wr1 = (if Telemetry_Class = Telemetry_Class then 0 else wr_failures wr)"
    then show ?thesis by (simp add: k'_def streak_holds_def)
  next
    fix wr2 assume h: "handleDeadline Telemetry_Class (wr\<lparr>wr_send_in_progress := True\<rparr>, c) = ((res, td), (wr2, c1))"
      and res: "res = DeadlineExpired" and f: "wr_failures wr1 = wr_failures wr2"
    have "streak_holds k (wr\<lparr>wr_send_in_progress := True\<rparr>)"
      using Cons.prems(4) by (simp add: streak_holds_def)
    from handleDeadline_streak [OF h this] show ?thesis
      using f by (simp add: k'_def res streak_holds_def)
  qed
  with Cons.IH [OF rest ready valid(2), of k'] show ?case
    by (simp add: rs k'_def Let_def)
qed

text \<open>
  Under a clock that runs, sending a line always returns, whatever the transport does: the
  transmit deadline bounds the loop.
\<close>

theorem sendLine_terminates:
  "running_clock E time \<Longrightarrow> sendLine E line message_class st \<noteq> None"
  using sendLine_returns [of E time line message_class st] by auto

lemma sendLine_terminates_witness:
  "sendLine (sample_env 0) (Some [LF]) Critical (bindTransport 0 attached_writer, zero_counters, (7, []))
     \<noteq> None"
  by (rule sendLine_terminates [OF sample_env_running])

text \<open>
  What a send reports is what went out. \<open>Sent\<close> means the whole line was handed to the
  transport, in order and once; an expired deadline means a proper prefix was, and for a critical
  message it requests the teardown that abandons the connection; a refused send changes nothing.
\<close>

theorem sendLine_reports:
  assumes "faithful_transport E t sent" and "wr_transport wr = Some t"
    and "sendLine E (Some l) mc (wr, c, w) = Some ((res, td), (wr', c', w'))"
  shows "(case res of
            Sent \<Rightarrow> sent w' = sent w @ l \<and> td = None
          | DeadlineExpired \<Rightarrow>
              (\<exists>k < length l. sent w' = sent w @ take k l) \<and>
              (mc = Critical \<longrightarrow> td = Some CriticalTransmitFailure \<and>
                 c' = increment tx_failures_update c)
          | _ \<Rightarrow> (wr', c', w') = (wr, c, w) \<and> td = None)"
proof (cases "isValidWireLine l \<and> writer_ready t wr")
  case True
  from sendLine_ready [OF assms(3) _ _ assms(1)] True show ?thesis
    by (auto simp: handleDeadline_def)
next
  case False
  with assms(2) have "\<not> (\<exists>l' t'. Some l = Some l' \<and> isValidWireLine l' \<and> writer_ready t' (fst (wr, c, w)))"
    by (auto simp: writer_ready_def)
  from sendLine_not_ready [OF assms(3) this] show ?thesis by auto
qed

lemma sendLine_reports_witness:
  "\<exists>res td wr' c' w'.
     sendLine (sample_env 0) (Some [LF]) Critical (bindTransport 0 attached_writer, zero_counters, (7, []))
       = Some ((res, td), (wr', c', w')) \<and> (res = Sent \<longrightarrow> snd w' = [LF])"
proof -
  obtain res td wr' c' w' where
    s: "sendLine (sample_env 0) (Some [LF]) Critical (bindTransport 0 attached_writer, zero_counters, (7, []))
       = Some ((res, td), (wr', c', w'))"
    using sendLine_returns [OF sample_env_running] by (metis surj_pair)
  have "wr_transport (bindTransport 0 attached_writer) = Some 0"
    by (simp add: bindTransport_def beginSession_def)
  from sendLine_reports [OF sample_env_faithful this s] s show ?thesis by (cases res) auto
qed

text \<open>
  C32: telemetry failures end the session exactly once a streak of them reaches ten. In any
  sequence of telemetry sends of a session, the teardown request comes with the send that makes
  ten failures in a row and with no other.
\<close>

theorem telemetry_teardown_at_ten:
  assumes "faithful_transport E t sent"
    and "wr = bindTransport t attached_writer" and "list_all isValidWireLine ls"
    and "send_all E ls (wr, c, w) = Some (rs, st')"
  shows "map snd rs = map (\<lambda>n. if n = 10 then Some TelemetryTransmitFailureStreak else None)
       (streaks 0 (map fst rs))"
  by (rule send_all_streaks [OF assms(1) assms(4) _ assms(3)])
    (simp_all add: assms(2) writer_ready_def bindTransport_def beginSession_def attached_writer_def
      default_writer_def streak_holds_def)

lemma telemetry_teardown_at_ten_witness:
  "\<exists>rs st'. send_all (sample_env 0) [[LF]] (bindTransport 0 attached_writer, zero_counters, (0, []))
       = Some (rs, st') \<and>
     map snd rs = map (\<lambda>n. if n = 10 then Some TelemetryTransmitFailureStreak else None)
       (streaks 0 (map fst rs))"
proof -
  obtain r where "sendLine (sample_env 0) (Some [LF]) Telemetry_Class
      (bindTransport 0 attached_writer, zero_counters, (0, [])) = Some r"
    using sendLine_returns [OF sample_env_running] by blast
  then obtain rs st' where
    run: "send_all (sample_env 0) [[LF]] (bindTransport 0 attached_writer, zero_counters, (0, []))
       = Some (rs, st')" by (cases r) auto
  have "list_all isValidWireLine [[LF]]" by (simp add: isValidWireLine_def limits)
  from telemetry_teardown_at_ten [OF sample_env_faithful refl this run] run show ?thesis by blast
qed

end
