(* ===== verification/SessionDriver.thy ===== *)
theory SessionDriver
  imports LineFramer SchemaBuilder OutboundWriter
begin

text \<open>
  The session state machine, \<open>src/core/SessionState.h\<close> and \<open>src/core/SessionDriver.h\<close>: network
  start, listening, accepting a controller, sending the schema, reading lines, and the teardown
  that runs the controller-loss hook.

  A session is the driver's own record with the counters and the world it shares with the rest.
  Calls that may wait for the transport are partial. \<open>promoteAcceptedConnection\<close> and
  \<open>applyPendingTeardown\<close> call each other in C++; here the first takes the second as a parameter,
  and the recursion ends because a promotion never sets a replacement.
\<close>

section \<open>Session states\<close>

datatype session_state =
    BOOT_SAFE | NETWORK_STARTING | LISTENING | SESSION_CONNECTED | SESSION_ACTIVE | SESSION_CLOSING

fun toString_session_state :: "session_state \<Rightarrow> bytes" where
  "toString_session_state BOOT_SAFE = ''BOOT_SAFE''"
| "toString_session_state NETWORK_STARTING = ''NETWORK_STARTING''"
| "toString_session_state LISTENING = ''LISTENING''"
| "toString_session_state SESSION_CONNECTED = ''SESSION_CONNECTED''"
| "toString_session_state SESSION_ACTIVE = ''SESSION_ACTIVE''"
| "toString_session_state SESSION_CLOSING = ''SESSION_CLOSING''"

fun isValidTransition :: "session_state \<Rightarrow> session_state \<Rightarrow> bool" where
  "isValidTransition BOOT_SAFE to = (to = NETWORK_STARTING)"
| "isValidTransition NETWORK_STARTING to = (to = LISTENING)"
| "isValidTransition LISTENING to = (to = SESSION_CONNECTED)"
| "isValidTransition SESSION_CONNECTED to = (to = SESSION_ACTIVE \<or> to = SESSION_CLOSING)"
| "isValidTransition SESSION_ACTIVE to = (to = SESSION_CLOSING)"
| "isValidTransition SESSION_CLOSING to = (to = LISTENING)"

section \<open>The driver\<close>

text \<open>
  \<open>sd_configured\<close>: built by the constructor with arguments, so that every pointer is set. The
  registry is a constant reference to a sealed registry, so its content is kept by value.
\<close>

record session_driver =
  sd_configured :: bool
  sd_registry :: command_registry
  sd_identity :: board_identity
  sd_controller_loss_hook :: "nat option"
  sd_listen_port :: u16
  sd_state :: session_state
  sd_active_handle :: connection_handle
  sd_replacement_handle :: connection_handle
  sd_pending_teardown_reason :: teardown_reason
  sd_teardown_pending :: bool
  sd_network_init_attempted :: bool
  sd_next_network_init_ms :: u64
  sd_framer :: line_framer
  sd_writer :: outbound_writer

definition new_session_driver ::
    "command_registry \<Rightarrow> board_identity \<Rightarrow> nat option \<Rightarrow> u16 \<Rightarrow> session_driver" where
  "new_session_driver registry identity hook port =
     \<lparr>sd_configured = True, sd_registry = registry, sd_identity = identity,
      sd_controller_loss_hook = hook, sd_listen_port = port, sd_state = BOOT_SAFE,
      sd_active_handle = kInvalidConnection, sd_replacement_handle = kInvalidConnection,
      sd_pending_teardown_reason = ExplicitShutdown, sd_teardown_pending = False,
      sd_network_init_attempted = False, sd_next_network_init_ms = 0,
      sd_framer = new_framer, sd_writer = attached_writer\<rparr>"

type_synonym 'w session = "session_driver \<times> counters \<times> 'w"

definition transitionTo :: "session_state \<Rightarrow> session_driver \<Rightarrow> session_driver" where
  "transitionTo next_state d =
     (if sd_state d = next_state then d
      else if isValidTransition (sd_state d) next_state then d\<lparr>sd_state := next_state\<rparr>
      else d)"

definition requestTeardown :: "teardown_reason \<Rightarrow> session_driver \<Rightarrow> session_driver" where
  "requestTeardown reason d =
     (if sd_teardown_pending d then d
      else let d1 = d\<lparr>sd_teardown_pending := True, sd_pending_teardown_reason := reason\<rparr> in
        if sd_state d1 = SESSION_CONNECTED \<or> sd_state d1 = SESSION_ACTIVE
        then transitionTo SESSION_CLOSING d1 else d1)"

definition requestShutdown :: "session_driver \<Rightarrow> session_driver" where
  "requestShutdown = requestTeardown ExplicitShutdown"

definition sessionActive :: "session_driver \<Rightarrow> bool" where
  "sessionActive d \<longleftrightarrow> sd_state d = SESSION_ACTIVE \<and> isValidConnectionHandle (sd_active_handle d)"

text \<open>The callback the outbound writer makes, when it made one.\<close>

definition teardown_callback :: "teardown_reason option \<Rightarrow> session_driver \<Rightarrow> session_driver" where
  "teardown_callback td d = (case td of None \<Rightarrow> d | Some reason \<Rightarrow> requestTeardown reason d)"

definition sendActiveLine ::
    "'w env \<Rightarrow> c_string \<Rightarrow> message_class \<Rightarrow> 'w session \<Rightarrow>
     (outbound_send_result \<times> 'w session) option" where
  "sendActiveLine E line message_class s =
     (case s of (d, c, w) \<Rightarrow>
        if \<not> sessionActive d \<or> sd_teardown_pending d then Some (NoActiveTransport, s)
        else case sendLine E line message_class (sd_writer d, c, w) of
          None \<Rightarrow> None
        | Some ((result, td), (wr, c1, w1)) \<Rightarrow>
            Some (result, (teardown_callback td (d\<lparr>sd_writer := wr\<rparr>), c1, w1)))"

definition driver_begin :: "'w env \<Rightarrow> 'w session \<Rightarrow> 'w session" where
  "driver_begin E s =
     (case s of (d, c, w) \<Rightarrow>
        if sd_state d \<noteq> BOOT_SAFE then s
        else case monotonicMilliseconds E w of
          (now, w1) \<Rightarrow> ((transitionTo NETWORK_STARTING d)\<lparr>sd_next_network_init_ms := now\<rparr>, c, w1))"

section \<open>Teardown and promotion\<close>

definition runControllerLossHook :: "'w env \<Rightarrow> 'w session \<Rightarrow> 'w session" where
  "runControllerLossHook E s =
     (case s of (d, c, w) \<Rightarrow>
        case sd_controller_loss_hook d of
          None \<Rightarrow> s
        | Some hook \<Rightarrow>
            case monotonicMicroseconds E w of
              (start_us, w1) \<Rightarrow>
                case safetyHook E hook w1 of
                  (_, w2) \<Rightarrow>
                    case monotonicMicroseconds E w2 of
                      (end_us, w3) \<Rightarrow>
                        (d, if kHookBudgetMs * 1000 < end_us - start_us
                            then increment controller_loss_hook_over_budget_update c else c, w3))"

definition replacePendingTeardownReason :: "teardown_reason \<Rightarrow> session_driver \<Rightarrow> session_driver" where
  "replacePendingTeardownReason reason d =
     (if \<not> sd_teardown_pending d then requestTeardown reason d
      else d\<lparr>sd_pending_teardown_reason := reason\<rparr>)"

text \<open>\<open>promoteAcceptedConnection\<close>; \<open>apply_teardown\<close> is \<open>applyPendingTeardown\<close>.\<close>

definition promote_with ::
    "('w session \<Rightarrow> 'w session option) \<Rightarrow> 'w env \<Rightarrow> connection_handle \<Rightarrow> 'w session \<Rightarrow>
     'w session option" where
  "promote_with apply_teardown E handle s =
     (case s of (d, c, w) \<Rightarrow>
        case transport E handle w of
          (None, w1) \<Rightarrow> Some (d, increment sessions_rejected_update c, w1)
        | (Some t, w1) \<Rightarrow>
            let d1 = transitionTo SESSION_CONNECTED
                  (d\<lparr>sd_active_handle := handle, sd_writer := bindTransport t (sd_writer d),
                     sd_framer := closeSession (sd_framer d)\<rparr>) in
            case monotonicMilliseconds E w1 of
              (now, w2) \<Rightarrow>
                case buildSchemaLineWithTimestamp (sd_registry d1) (sd_identity d1) now
                       (Some kSchemaJsonBufferBytes) of
                  (schema_status, schema_line) \<Rightarrow>
                    if \<not> status_ok schema_status
                    then apply_teardown (requestTeardown SchemaSendFailure d1, c, w2)
                    else case sendLine E (Some (take kSchemaJsonBufferBytes (cstr schema_line)))
                                Critical (sd_writer d1, c, w2) of
                      None \<Rightarrow> None
                    | Some ((result, td), (wr, c1, w3)) \<Rightarrow>
                        let d2 = teardown_callback td (d1\<lparr>sd_writer := wr\<rparr>) in
                        if result \<noteq> Sent
                        then apply_teardown (replacePendingTeardownReason SchemaSendFailure d2, c1, w3)
                        else Some (transitionTo SESSION_ACTIVE d2,
                                   increment schemas_sent_update c1, w3))"

lemma requestTeardown_frame [frame_simps]:
  "sd_replacement_handle (requestTeardown r d) = sd_replacement_handle d"
  "sd_active_handle (requestTeardown r d) = sd_active_handle d"
  "sd_framer (requestTeardown r d) = sd_framer d"
  "sd_writer (requestTeardown r d) = sd_writer d"
  "sd_configured (requestTeardown r d) = sd_configured d"
  "sd_registry (requestTeardown r d) = sd_registry d"
  "sd_identity (requestTeardown r d) = sd_identity d"
  "sd_controller_loss_hook (requestTeardown r d) = sd_controller_loss_hook d"
  "sd_teardown_pending (requestTeardown r d)"
  by (simp_all add: requestTeardown_def transitionTo_def Let_def)

lemma transitionTo_frame [frame_simps]:
  "sd_replacement_handle (transitionTo n d) = sd_replacement_handle d"
  "sd_active_handle (transitionTo n d) = sd_active_handle d"
  "sd_framer (transitionTo n d) = sd_framer d"
  "sd_writer (transitionTo n d) = sd_writer d"
  "sd_configured (transitionTo n d) = sd_configured d"
  "sd_registry (transitionTo n d) = sd_registry d"
  "sd_identity (transitionTo n d) = sd_identity d"
  "sd_controller_loss_hook (transitionTo n d) = sd_controller_loss_hook d"
  "sd_teardown_pending (transitionTo n d) = sd_teardown_pending d"
  by (simp_all add: transitionTo_def)

lemma teardown_callback_frame [frame_simps]:
  "sd_replacement_handle (teardown_callback td d) = sd_replacement_handle d"
  "sd_active_handle (teardown_callback td d) = sd_active_handle d"
  "sd_framer (teardown_callback td d) = sd_framer d"
  "sd_writer (teardown_callback td d) = sd_writer d"
  "sd_configured (teardown_callback td d) = sd_configured d"
  "sd_registry (teardown_callback td d) = sd_registry d"
  "sd_identity (teardown_callback td d) = sd_identity d"
  "sd_controller_loss_hook (teardown_callback td d) = sd_controller_loss_hook d"
  by (simp_all add: teardown_callback_def frame_simps split: option.split)

lemma replacePendingTeardownReason_frame [frame_simps]:
  "sd_replacement_handle (replacePendingTeardownReason r d) = sd_replacement_handle d"
  "sd_active_handle (replacePendingTeardownReason r d) = sd_active_handle d"
  "sd_framer (replacePendingTeardownReason r d) = sd_framer d"
  "sd_writer (replacePendingTeardownReason r d) = sd_writer d"
  "sd_configured (replacePendingTeardownReason r d) = sd_configured d"
  "sd_registry (replacePendingTeardownReason r d) = sd_registry d"
  "sd_identity (replacePendingTeardownReason r d) = sd_identity d"
  "sd_controller_loss_hook (replacePendingTeardownReason r d) = sd_controller_loss_hook d"
  "sd_teardown_pending (replacePendingTeardownReason r d)"
  by (simp_all add: replacePendingTeardownReason_def frame_simps)

lemma promote_with_cong [fundef_cong]:
  assumes "E = E'" and "handle = handle'" and "s = s'"
    and "\<And>s1. sd_replacement_handle (fst s1) = sd_replacement_handle (fst s') \<Longrightarrow> f s1 = g s1"
  shows "promote_with f E handle s = promote_with g E' handle' s'"
  using assms
  by (auto simp: promote_with_def frame_simps Let_def split: prod.splits option.splits)

function applyPendingTeardown :: "'w env \<Rightarrow> 'w session \<Rightarrow> 'w session option" where
  "applyPendingTeardown E (d, c, w) =
     (if \<not> sd_teardown_pending d \<or> \<not> sd_configured d then Some (d, c, w)
      else
        let had_active = isValidConnectionHandle (sd_active_handle d) in
        case (if had_active then runControllerLossHook E (d, c, w) else (d, c, w)) of
          (d1, c1, w1) \<Rightarrow>
            let d2 = d1\<lparr>sd_framer := closeSession (sd_framer d1),
                        sd_writer := clearTransport (sd_writer d1)\<rparr> in
            case (if had_active
                  then (d2\<lparr>sd_active_handle := kInvalidConnection\<rparr>,
                        increment controller_disconnects_update c1,
                        abort E (sd_active_handle d2) w1)
                  else (d2, c1, w1)) of
              (d3, c3, w3) \<Rightarrow>
                let d4 = transitionTo LISTENING
                      (d3\<lparr>sd_teardown_pending := False,
                          sd_pending_teardown_reason := ExplicitShutdown\<rparr>) in
                if isValidConnectionHandle (sd_replacement_handle d4)
                then promote_with (applyPendingTeardown E) E (sd_replacement_handle d4)
                       (d4\<lparr>sd_replacement_handle := kInvalidConnection\<rparr>, c3, w3)
                else Some (d4, c3, w3))"
  by pat_completeness auto

termination
  by (relation "measure (\<lambda>(E, s).
        if isValidConnectionHandle (sd_replacement_handle (fst s)) then 1 else 0)")
    (auto simp: runControllerLossHook_def frame_simps split: if_splits option.splits prod.splits)

declare applyPendingTeardown.simps [simp del]

definition promoteAcceptedConnection ::
    "'w env \<Rightarrow> connection_handle \<Rightarrow> 'w session \<Rightarrow> 'w session option" where
  "promoteAcceptedConnection E = promote_with (applyPendingTeardown E) E"

section \<open>Reading\<close>

definition detectActiveLoss :: "'w env \<Rightarrow> 'w session \<Rightarrow> 'w session" where
  "detectActiveLoss E s =
     (case s of (d, c, w) \<Rightarrow>
        case transport E (sd_active_handle d) w of
          (None, w1) \<Rightarrow> (requestTeardown ConnectionLost d, c, w1)
        | (Some t, w1) \<Rightarrow>
            case connectionState E t w1 of
              (st, w2) \<Rightarrow>
                (if st = Closed then requestTeardown ConnectionLost d
                 else if st = LinkDown then requestTeardown LinkLost d
                 else d, c, w2))"

text \<open>
  The loop of \<open>readAvailable\<close>, which ends with a line held, a reason to tear down, nothing
  more to read now, or an empty read. What \<open>append\<close> reports to have consumed is not looked at.
\<close>

datatype read_end = Read_Done | Read_Loss teardown_reason | Read_Empty

partial_function (option) read_loop ::
    "'w env \<Rightarrow> transport_ptr \<Rightarrow> line_framer \<Rightarrow> counters \<Rightarrow> 'w \<Rightarrow>
     (read_end \<times> line_framer \<times> counters \<times> 'w) option" where
  "read_loop E t f c w =
     (if hasLine f then Some (Read_Done, f, c, w)
      else case connectionState E t w of
        (st, w1) \<Rightarrow>
          if st = Closed then Some (Read_Loss ConnectionLost, f, c, w1)
          else if st = LinkDown then Some (Read_Loss LinkLost, f, c, w1)
          else if st \<noteq> BytesAvailable then Some (Read_Done, f, c, w1)
          else case readSome E t 64 w1 of
            (read, w2) \<Rightarrow>
              if read = [] then Some (Read_Empty, f, c, w2)
              else case append_framer read (c, f) of
                (_, (c1, f1)) \<Rightarrow> read_loop E t f1 c1 w2)"

definition readAvailable :: "'w env \<Rightarrow> 'w session \<Rightarrow> 'w session option" where
  "readAvailable E s =
     (case s of (d, c, w) \<Rightarrow>
        case transport E (sd_active_handle d) w of
          (None, w1) \<Rightarrow> Some (requestTeardown ConnectionLost d, c, w1)
        | (Some t, w1) \<Rightarrow>
            case read_loop E t (sd_framer d) c w1 of
              None \<Rightarrow> None
            | Some (e, f, c1, w2) \<Rightarrow>
                let d1 = d\<lparr>sd_framer := f\<rparr> in
                case e of
                  Read_Done \<Rightarrow> Some (d1, c1, w2)
                | Read_Loss reason \<Rightarrow> Some (requestTeardown reason d1, c1, w2)
                | Read_Empty \<Rightarrow> Some (detectActiveLoss E (d1, c1, w2)))"

definition nextLine :: "'w env \<Rightarrow> 'w session \<Rightarrow> (bytes option \<times> 'w session) option" where
  "nextLine E s =
     (case s of (d, c, w) \<Rightarrow>
        if \<not> sessionActive d \<or> sd_teardown_pending d then Some (None, s)
        else case (if hasLine (sd_framer d) then Some s else readAvailable E s) of
          None \<Rightarrow> None
        | Some (d1, c1, w1) \<Rightarrow>
            if \<not> hasLine (sd_framer d1) then Some (None, (d1, c1, w1))
            else case acquireLine (sd_framer d1) of
              (line, f) \<Rightarrow> Some (line, (d1\<lparr>sd_framer := f\<rparr>, c1, w1)))"

definition driver_releaseLine :: "session_driver \<Rightarrow> session_driver" where
  "driver_releaseLine d =
     (if sd_configured d then d\<lparr>sd_framer := releaseLine (sd_framer d)\<rparr> else d)"

section \<open>Polling\<close>

definition pumpNetworkStarting :: "'w env \<Rightarrow> 'w session \<Rightarrow> 'w session" where
  "pumpNetworkStarting E s =
     (case s of (d, c, w) \<Rightarrow>
        case availability E w of
          (a, w1) \<Rightarrow>
            if a \<noteq> Ready then (d, c, w1)
            else case (if sd_network_init_attempted d then monotonicMilliseconds E w1 else (0, w1)) of
              (now, w2) \<Rightarrow>
                if sd_network_init_attempted d \<and>
                   now - sd_next_network_init_ms d < kNetworkInitRetryMs
                then (d, c, w2)
                else
                  let d1 = d\<lparr>sd_network_init_attempted := True\<rparr> in
                  case net_begin E (sd_listen_port d1) w2 of
                    (False, w3) \<Rightarrow>
                      (case monotonicMilliseconds E w3 of
                         (now', w4) \<Rightarrow> (d1\<lparr>sd_next_network_init_ms := now'\<rparr>, c, w4))
                  | (True, w3) \<Rightarrow> (transitionTo LISTENING d1, c, w3))"

text \<open>The acceptance test both \<open>pumpListening\<close> and \<open>acceptReplacement\<close> make.\<close>

definition accept_valid :: "'w env \<Rightarrow> 'w \<Rightarrow> connection_handle option \<times> 'w" where
  "accept_valid E w =
     (case accept E w of
        (h, w1) \<Rightarrow>
          if \<not> isValidConnectionHandle h then (None, w1)
          else case transport E h w1 of
            (t, w2) \<Rightarrow> (if t = None then None else Some h, w2))"

definition pumpListening :: "'w env \<Rightarrow> 'w session \<Rightarrow> 'w session option" where
  "pumpListening E s =
     (case s of (d, c, w) \<Rightarrow>
        case availability E w of
          (a, w1) \<Rightarrow>
            case (if a = Ready then isListening E w1 else (True, w1)) of
              (listening, w2) \<Rightarrow>
                let w3 = (if a = Ready \<and> \<not> listening
                          then snd (net_begin E (sd_listen_port d) w2) else w2) in
                case hasPendingConnection E w3 of
                  (False, w4) \<Rightarrow> Some (d, c, w4)
                | (True, w4) \<Rightarrow>
                    (case accept_valid E w4 of
                       (None, w5) \<Rightarrow> Some (d, increment sessions_rejected_update c, w5)
                     | (Some h, w5) \<Rightarrow>
                         promoteAcceptedConnection E h
                           (d, increment sessions_accepted_update c, w5)))"

definition acceptReplacement :: "'w env \<Rightarrow> 'w session \<Rightarrow> 'w session" where
  "acceptReplacement E s =
     (case s of (d, c, w) \<Rightarrow>
        case accept_valid E w of
          (None, w1) \<Rightarrow> (d, increment sessions_rejected_update c, w1)
        | (Some h, w1) \<Rightarrow>
            (requestTeardown Superseded (d\<lparr>sd_replacement_handle := h\<rparr>),
             increment sessions_superseded_update (increment sessions_accepted_update c), w1))"

definition poll :: "'w env \<Rightarrow> 'w session \<Rightarrow> 'w session option" where
  "poll E s =
     (case s of (d, c, w0) \<Rightarrow>
        if \<not> sd_configured d then Some s
        else
          let w = progress E w0 in
          if sd_state d = NETWORK_STARTING then Some (pumpNetworkStarting E (d, c, w))
          else if sd_state d = LISTENING then pumpListening E (d, c, w)
          else if sd_state d = SESSION_CONNECTED \<or> sd_state d = SESSION_ACTIVE then
            (case hasPendingConnection E w of
               (True, w1) \<Rightarrow> Some (acceptReplacement E (d, c, w1))
             | (False, w1) \<Rightarrow>
                 (case detectActiveLoss E (d, c, w1) of
                    (d1, c1, w2) \<Rightarrow>
                      if sd_state d1 = SESSION_ACTIVE \<and> \<not> sd_teardown_pending d1
                      then readAvailable E (d1, c1, w2)
                      else Some (d1, c1, w2)))
          else Some (d, c, w))"

section \<open>Invariant\<close>

text \<open>
  The driver between two calls: an active handle exactly in the states of a session, a pending
  teardown exactly while closing, a replacement only then, a bound writer while the session is
  active, and never a send in progress. \<open>SESSION_CONNECTED\<close> is passed through within one call.
\<close>

definition in_session :: "session_state \<Rightarrow> bool" where
  "in_session st \<longleftrightarrow> st = SESSION_CONNECTED \<or> st = SESSION_ACTIVE \<or> st = SESSION_CLOSING"

definition driver_base :: "session_driver \<Rightarrow> bool" where
  "driver_base d \<longleftrightarrow>
     sd_configured d \<and>
     (sd_teardown_pending d \<longleftrightarrow> sd_state d = SESSION_CLOSING) \<and>
     (isValidConnectionHandle (sd_active_handle d) \<longleftrightarrow> in_session (sd_state d)) \<and>
     (isValidConnectionHandle (sd_replacement_handle d) \<longrightarrow> sd_teardown_pending d) \<and>
     framer_ok (sd_framer d) \<and>
     wr_attached (sd_writer d) \<and> \<not> wr_send_in_progress (sd_writer d) \<and>
     (sd_state d = SESSION_ACTIVE \<longrightarrow> wr_transport (sd_writer d) \<noteq> None)"

definition driver_ok :: "session_driver \<Rightarrow> bool" where
  "driver_ok d \<longleftrightarrow> driver_base d \<and> sd_state d \<noteq> SESSION_CONNECTED"

lemma framer_ok_operations [intro]:
  "framer_ok (closeSession f)" "framer_ok new_framer"
  "framer_ok f \<Longrightarrow> framer_ok (releaseLine f)"
  "framer_ok f \<Longrightarrow> framer_ok (snd (acquireLine f))"
  by (auto simp: framer_ok_def closeSession_def new_framer_def releaseLine_def acquireLine_def
      promotePendingIfPossible_def)

lemma framer_ok_append_byte:
  "framer_ok f \<Longrightarrow> \<not> lf_pending_ready f \<Longrightarrow> framer_ok (snd (append_byte b (c, f)))"
  by (auto simp: framer_ok_def append_byte_def completeAccumulatedLine_def
      promotePendingIfPossible_def)

lemma framer_ok_append: "framer_ok (snd cf) \<Longrightarrow> framer_ok (snd (snd (append_framer bs cf)))"
proof (induction bs cf rule: append_framer.induct)
  case (1 s)
  then show ?case by simp
next
  case (2 b bs s)
  show ?case
  proof (cases "lf_pending_ready (snd s)")
    case False
    with 2 framer_ok_append_byte [of "snd s" b "fst s"] show ?thesis by (simp add: split_beta)
  qed (use 2 in simp)
qed

lemma read_loop_step:
  assumes IH: "\<And>E t f c w r. loop E t f c w = Some r \<Longrightarrow> framer_ok f \<longrightarrow> framer_ok (fst (snd r))"
    and body: "(if hasLine f then Some (Read_Done, f, c, w)
      else case connectionState E t w of
        (st, w1) \<Rightarrow>
          if st = Closed then Some (Read_Loss ConnectionLost, f, c, w1)
          else if st = LinkDown then Some (Read_Loss LinkLost, f, c, w1)
          else if st \<noteq> BytesAvailable then Some (Read_Done, f, c, w1)
          else case readSome E t 64 w1 of
            (read, w2) \<Rightarrow>
              if read = [] then Some (Read_Empty, f, c, w2)
              else case append_framer read (c, f) of
                (_, (c1, f1)) \<Rightarrow> loop E t f1 c1 w2) = Some r"
  shows "framer_ok f \<longrightarrow> framer_ok (fst (snd r))"
proof (cases "\<exists>read n c1 f1 w2. append_framer read (c, f) = (n, (c1, f1)) \<and> loop E t f1 c1 w2 = Some r")
  case True
  then obtain read n c1 f1 w2 where a: "append_framer read (c, f) = (n, (c1, f1))"
    and l: "loop E t f1 c1 w2 = Some r" by blast
  have "framer_ok f \<longrightarrow> framer_ok f1" using framer_ok_append [of "(c, f)" read] a by simp
  with IH [OF l] show ?thesis by blast
next
  case False
  with body show ?thesis by (auto split: if_splits prod.splits)
qed

lemma read_loop_ok:
  assumes "read_loop E t f c w = Some r" and "framer_ok f"
  shows "framer_ok (fst (snd r))"
proof -
  have "framer_ok f \<longrightarrow> framer_ok (fst (snd r))"
    by (rule read_loop.raw_induct
        [where P = "\<lambda>E t f c w r. framer_ok f \<longrightarrow> framer_ok (fst (snd r))", OF _ assms(1)])
      (rule read_loop_step, assumption+)
  with assms(2) show ?thesis by blast
qed

text \<open>What the operations never touch.\<close>

definition same_config :: "session_driver \<Rightarrow> session_driver \<Rightarrow> bool" where
  "same_config d d' \<longleftrightarrow>
     sd_configured d' = sd_configured d \<and> sd_registry d' = sd_registry d \<and>
     sd_identity d' = sd_identity d \<and> sd_controller_loss_hook d' = sd_controller_loss_hook d"

lemma same_config_refl [simp]: "same_config d d"
  by (simp add: same_config_def)

lemma same_config_trans: "same_config d1 d2 \<Longrightarrow> same_config d2 d3 \<Longrightarrow> same_config d1 d3"
  by (simp add: same_config_def)

lemma same_config_steps [simp]:
  "same_config d (requestTeardown r d1) = same_config d d1"
  "same_config d (transitionTo n d1) = same_config d d1"
  "same_config d (teardown_callback td d1) = same_config d d1"
  "same_config d (replacePendingTeardownReason r d1) = same_config d d1"
  "same_config d (d1\<lparr>sd_framer := f\<rparr>) = same_config d d1"
  "same_config d (d1\<lparr>sd_writer := wr\<rparr>) = same_config d d1"
  "same_config d (d1\<lparr>sd_active_handle := h\<rparr>) = same_config d d1"
  "same_config d (d1\<lparr>sd_replacement_handle := h\<rparr>) = same_config d d1"
  "same_config d (d1\<lparr>sd_teardown_pending := b\<rparr>) = same_config d d1"
  "same_config d (d1\<lparr>sd_pending_teardown_reason := r\<rparr>) = same_config d d1"
  "same_config d (d1\<lparr>sd_network_init_attempted := b\<rparr>) = same_config d d1"
  "same_config d (d1\<lparr>sd_next_network_init_ms := m\<rparr>) = same_config d d1"
  by (simp_all add: same_config_def frame_simps)

lemma requestTeardown_base:
  "driver_base d \<Longrightarrow> in_session (sd_state d) \<Longrightarrow>
     driver_ok (requestTeardown r d) \<and> sd_state (requestTeardown r d) = SESSION_CLOSING"
  by (auto simp: driver_ok_def driver_base_def requestTeardown_def transitionTo_def in_session_def
      Let_def)

lemma sendLine_sent: "sendLine E line mc st = Some ((Sent, td), st') \<Longrightarrow> td = None"
  by (auto simp: sendLine_def sendValidLine_def handleDeadline_def Let_def
      split: if_splits option.splits prod.splits send_end.splits)

lemma base_writer:
  "driver_base d \<Longrightarrow> wr_transport wr = wr_transport (sd_writer d) \<Longrightarrow>
     wr_attached wr = wr_attached (sd_writer d) \<Longrightarrow>
     wr_send_in_progress wr = wr_send_in_progress (sd_writer d) \<Longrightarrow> driver_base (d\<lparr>sd_writer := wr\<rparr>)"
  by (auto simp: driver_base_def)

lemma connected_base:
  assumes "driver_ok d" and "sd_state d = LISTENING" and "isValidConnectionHandle h"
  shows "driver_base (transitionTo SESSION_CONNECTED
      (d\<lparr>sd_active_handle := h, sd_writer := bindTransport t (sd_writer d),
         sd_framer := closeSession (sd_framer d)\<rparr>)) \<and>
    sd_state (transitionTo SESSION_CONNECTED
      (d\<lparr>sd_active_handle := h, sd_writer := bindTransport t (sd_writer d),
         sd_framer := closeSession (sd_framer d)\<rparr>)) = SESSION_CONNECTED"
  using assms
  by (auto simp: driver_ok_def driver_base_def transitionTo_def in_session_def bindTransport_def
      beginSession_def)

text \<open>
  A promotion, given that the teardown it may fall back to brings a closing driver without a
  replacement back to listening.
\<close>

definition tears_down :: "('w session \<Rightarrow> 'w session option) \<Rightarrow> bool" where
  "tears_down f \<longleftrightarrow>
     (\<forall>s s'. f s = Some s' \<longrightarrow> driver_ok (fst s) \<longrightarrow> sd_state (fst s) = SESSION_CLOSING \<longrightarrow>
        \<not> isValidConnectionHandle (sd_replacement_handle (fst s)) \<longrightarrow>
        driver_ok (fst s') \<and> sd_state (fst s') = LISTENING \<and> same_config (fst s) (fst s'))"

lemma promote_with_ok:
  assumes f: "tears_down f" and run: "promote_with f E h (d, c, w) = Some s'"
    and d: "driver_ok d" "sd_state d = LISTENING" and h: "isValidConnectionHandle h"
  shows "driver_ok (fst s') \<and> (sd_state (fst s') = LISTENING \<or> sd_state (fst s') = SESSION_ACTIVE) \<and>
     same_config d (fst s')"
proof -
  obtain tr w1 where tr: "transport E h w = (tr, w1)" by (cases "transport E h w")
  show ?thesis
  proof (cases tr)
    case None
    then show ?thesis using run tr d by (auto simp: promote_with_def)
  next
    case (Some t)
    define d1 where "d1 = transitionTo SESSION_CONNECTED
      (d\<lparr>sd_active_handle := h, sd_writer := bindTransport t (sd_writer d),
         sd_framer := closeSession (sd_framer d)\<rparr>)"
    have d1: "driver_base d1" "sd_state d1 = SESSION_CONNECTED" "same_config d d1"
      using connected_base [OF d h] by (simp_all add: d1_def)
    have norep: "\<not> isValidConnectionHandle (sd_replacement_handle d1)"
      using d1 by (auto simp: driver_base_def)
    have fallback: "driver_ok (fst s') \<and> sd_state (fst s') = LISTENING \<and> same_config d (fst s')"
      if "f (d2, c2, w2) = Some s'" "driver_ok d2" "sd_state d2 = SESSION_CLOSING"
        "sd_replacement_handle d2 = sd_replacement_handle d1" "same_config d d2" for d2 c2 w2
      using f [unfolded tears_down_def, rule_format, OF that(1)] that norep
      by (auto intro: same_config_trans)
    obtain now w2 where now: "monotonicMilliseconds E w1 = (now, w2)"
      by (cases "monotonicMilliseconds E w1")
    obtain st line where b: "buildSchemaLineWithTimestamp (sd_registry d1) (sd_identity d1) now
        (Some kSchemaJsonBufferBytes) = (st, line)" by (metis surj_pair)
    note run' = run [unfolded promote_with_def prod.case tr Some option.case Let_def,
        folded d1_def, unfolded now prod.case b]
    show ?thesis
    proof (cases "status_ok st")
      case False
      with run' have "f (requestTeardown SchemaSendFailure d1, c, w2) = Some s'" by simp
      moreover have "driver_ok (requestTeardown SchemaSendFailure d1) \<and>
          sd_state (requestTeardown SchemaSendFailure d1) = SESSION_CLOSING"
        using requestTeardown_base [OF d1(1)] d1(2) by (simp add: in_session_def)
      ultimately show ?thesis using fallback d1(3) by (simp add: frame_simps)
    next
      case True
      let ?send = "sendLine E (Some (take kSchemaJsonBufferBytes (cstr line))) Critical (sd_writer d1, c, w2)"
      obtain result td wr c1 w3 where send: "?send = Some ((result, td), (wr, c1, w3))"
        using run' True by (cases ?send) auto
      note fr = sendLine_frame [OF send]
      have d2: "driver_base (d1\<lparr>sd_writer := wr\<rparr>)" by (rule base_writer [OF d1(1)]) (simp_all add: fr)
      have d2s: "in_session (sd_state (d1\<lparr>sd_writer := wr\<rparr>))" using d1(2) by (simp add: in_session_def)
      show ?thesis
      proof (cases "result = Sent")
        case False
        define d3 where "d3 = replacePendingTeardownReason SchemaSendFailure
            (teardown_callback td (d1\<lparr>sd_writer := wr\<rparr>))"
        have call: "f (d3, c1, w3) = Some s'"
          using run' True send False by (simp add: d3_def)
        have "driver_ok d3 \<and> sd_state d3 = SESSION_CLOSING"
        proof (cases td)
          case None
          with requestTeardown_base [OF d2 d2s] d2 d1(2) show ?thesis
            by (auto simp: d3_def teardown_callback_def replacePendingTeardownReason_def driver_base_def)
        next
          case (Some r)
          with requestTeardown_base [OF d2 d2s, of r] show ?thesis
            by (auto simp: d3_def teardown_callback_def replacePendingTeardownReason_def frame_simps
                driver_ok_def driver_base_def)
        qed
        with fallback [OF call] d1(3) show ?thesis by (simp add: d3_def frame_simps)
      next
        case True': True
        with send have "td = None" using sendLine_sent by blast
        then have s': "s' = (transitionTo SESSION_ACTIVE (d1\<lparr>sd_writer := wr\<rparr>),
            increment schemas_sent_update c1, w3)"
          using run' True send True' by (simp add: teardown_callback_def)
        have "wr_transport wr \<noteq> None" using fr(1) d1_def
          by (simp add: frame_simps bindTransport_def beginSession_def)
        then have "driver_ok (transitionTo SESSION_ACTIVE (d1\<lparr>sd_writer := wr\<rparr>)) \<and>
            sd_state (transitionTo SESSION_ACTIVE (d1\<lparr>sd_writer := wr\<rparr>)) = SESSION_ACTIVE"
          using d2 d1(2) by (auto simp: driver_ok_def driver_base_def transitionTo_def in_session_def)
        with s' d1(3) show ?thesis by simp
      qed
    qed
  qed
qed

lemma runControllerLossHook_frame:
  "fst (runControllerLossHook E (d, c, w)) = d"
  by (simp add: runControllerLossHook_def split: option.split prod.split)

text \<open>The part of \<open>applyPendingTeardown\<close> before the promotion of a replacement.\<close>

definition torn_down :: "'w env \<Rightarrow> 'w session \<Rightarrow> 'w session" where
  "torn_down E s =
     (case s of (d, c, w) \<Rightarrow>
        let had_active = isValidConnectionHandle (sd_active_handle d);
            (d1, c1, w1) = (if had_active then runControllerLossHook E (d, c, w) else (d, c, w))
        in (transitionTo LISTENING
              (d\<lparr>sd_framer := closeSession (sd_framer d), sd_writer := clearTransport (sd_writer d),
                 sd_active_handle :=
                   (if had_active then kInvalidConnection else sd_active_handle d),
                 sd_teardown_pending := False, sd_pending_teardown_reason := ExplicitShutdown\<rparr>),
            if had_active then increment controller_disconnects_update c1 else c1,
            if had_active then abort E (sd_active_handle d) w1 else w1))"

lemma applyPendingTeardown_eq:
  "applyPendingTeardown E (d, c, w) =
     (if \<not> sd_teardown_pending d \<or> \<not> sd_configured d then Some (d, c, w)
      else case torn_down E (d, c, w) of
        (d1, c1, w1) \<Rightarrow>
          if isValidConnectionHandle (sd_replacement_handle d)
          then promoteAcceptedConnection E (sd_replacement_handle d)
                 (d1\<lparr>sd_replacement_handle := kInvalidConnection\<rparr>, c1, w1)
          else Some (d1, c1, w1))"
proof -
  have d1: "d1 = d" if "runControllerLossHook E (d, c, w) = (d1, c1, w1)" for d1 c1 w1
    using runControllerLossHook_frame [of E d c w] that by simp
  show ?thesis
    by (subst applyPendingTeardown.simps)
      (auto simp: torn_down_def promoteAcceptedConnection_def Let_def frame_simps
        split: prod.split dest: d1)
qed

lemma torn_down_ok:
  assumes "driver_ok d" and "sd_state d = SESSION_CLOSING"
  shows "driver_ok ((fst (torn_down E (d, c, w)))\<lparr>sd_replacement_handle := kInvalidConnection\<rparr>) \<and>
     sd_state (fst (torn_down E (d, c, w))) = LISTENING \<and>
     same_config d (fst (torn_down E (d, c, w))) \<and>
     sd_replacement_handle (fst (torn_down E (d, c, w))) = sd_replacement_handle d"
  using assms
  by (auto simp: torn_down_def Let_def driver_ok_def driver_base_def transitionTo_def in_session_def
      clearTransport_def beginSession_def same_config_def split: prod.split)

lemma no_replacement_id:
  "\<not> isValidConnectionHandle (sd_replacement_handle d) \<Longrightarrow>
     driver_ok (d\<lparr>sd_replacement_handle := kInvalidConnection\<rparr>) = driver_ok d"
  by (auto simp: driver_ok_def driver_base_def)

lemma applyPendingTeardown_tears_down: "tears_down (applyPendingTeardown E)"
  unfolding tears_down_def
proof (intro allI impI)
  fix s s' :: "'a session"
  assume run: "applyPendingTeardown E s = Some s'" and s: "driver_ok (fst s)"
    "sd_state (fst s) = SESSION_CLOSING" "\<not> isValidConnectionHandle (sd_replacement_handle (fst s))"
  obtain d c w where dcw: "s = (d, c, w)" by (cases s)
  have pend: "sd_teardown_pending d" "sd_configured d"
    using s by (simp_all add: dcw driver_ok_def driver_base_def)
  obtain d1 c1 w1 where t: "torn_down E (d, c, w) = (d1, c1, w1)" by (cases "torn_down E (d, c, w)")
  have "s' = (d1, c1, w1)"
    using run s(3) pend by (simp add: dcw applyPendingTeardown_eq t)
  moreover have "driver_ok (d1\<lparr>sd_replacement_handle := kInvalidConnection\<rparr>)"
    "sd_state d1 = LISTENING" "same_config d d1" "sd_replacement_handle d1 = sd_replacement_handle d"
    using torn_down_ok [of d E c w] s by (simp_all add: dcw t)
  ultimately show "driver_ok (fst s') \<and> sd_state (fst s') = LISTENING \<and>
      same_config (fst s) (fst s')" using s(3) no_replacement_id [of d1] by (simp add: dcw)
qed

lemma promoteAcceptedConnection_ok:
  assumes "promoteAcceptedConnection E h (d, c, w) = Some s'"
    and "driver_ok d" and "sd_state d = LISTENING" and "isValidConnectionHandle h"
  shows "driver_ok (fst s') \<and> (sd_state (fst s') = LISTENING \<or> sd_state (fst s') = SESSION_ACTIVE) \<and>
     same_config d (fst s')"
  by (rule promote_with_ok [OF applyPendingTeardown_tears_down
        assms(1) [unfolded promoteAcceptedConnection_def] assms(2-4)])

lemma applyPendingTeardown_ok:
  assumes "applyPendingTeardown E (d, c, w) = Some s'" and "driver_ok d"
  shows "driver_ok (fst s') \<and> same_config d (fst s') \<and> \<not> sd_teardown_pending (fst s') \<and>
     (sd_teardown_pending d \<longrightarrow> sd_state (fst s') = LISTENING \<or> sd_state (fst s') = SESSION_ACTIVE) \<and>
     (\<not> sd_teardown_pending d \<longrightarrow> s' = (d, c, w))"
proof (cases "sd_teardown_pending d")
  case False
  with assms(1) have "s' = (d, c, w)" by (simp add: applyPendingTeardown_eq)
  with False assms(2) show ?thesis by simp
next
  case True
  have d: "sd_state d = SESSION_CLOSING" "sd_configured d"
    using True assms(2) by (simp_all add: driver_ok_def driver_base_def)
  obtain d1 c1 w1 where t: "torn_down E (d, c, w) = (d1, c1, w1)" by (cases "torn_down E (d, c, w)")
  note ok = torn_down_ok [OF assms(2) d(1), of E c w, unfolded t fst_conv]
  have idle: "\<not> sd_teardown_pending (fst s')"
    if "driver_ok (fst s')" "sd_state (fst s') = LISTENING \<or> sd_state (fst s') = SESSION_ACTIVE"
    using that by (auto simp: driver_ok_def driver_base_def)
  show ?thesis
  proof (cases "isValidConnectionHandle (sd_replacement_handle d)")
    case rep: True
    then have "promoteAcceptedConnection E (sd_replacement_handle d)
        (d1\<lparr>sd_replacement_handle := kInvalidConnection\<rparr>, c1, w1) = Some s'"
      using assms(1) True d by (simp add: applyPendingTeardown_eq t)
    from promoteAcceptedConnection_ok [OF this _ _ rep] ok
    have "driver_ok (fst s')" "sd_state (fst s') = LISTENING \<or> sd_state (fst s') = SESSION_ACTIVE"
      "same_config d1 (fst s')" "same_config d d1" by (auto simp: same_config_def)
    with idle True show ?thesis by (auto intro: same_config_trans)
  next
    case rep: False
    then have "s' = (d1, c1, w1)" using assms(1) True d by (simp add: applyPendingTeardown_eq t)
    with ok rep idle True no_replacement_id [of d1] show ?thesis by simp
  qed
qed

text \<open>
  One call in a session: the driver stays well formed, and afterwards the session goes on or is
  closing. \<open>stays\<close> is that relation.
\<close>

definition stays :: "session_driver \<Rightarrow> session_driver \<Rightarrow> bool" where
  "stays d d' \<longleftrightarrow>
     driver_ok d' \<and> same_config d d' \<and>
     (sd_state d' = sd_state d \<or> sd_state d = SESSION_ACTIVE \<and> sd_state d' = SESSION_CLOSING)"

lemma stays_refl: "driver_ok d \<Longrightarrow> stays d d"
  by (simp add: stays_def)

lemma stays_trans: "stays d1 d2 \<Longrightarrow> stays d2 d3 \<Longrightarrow> stays d1 d3"
  by (auto simp: stays_def intro: same_config_trans)

lemma stays_requestTeardown:
  "driver_ok d \<Longrightarrow> in_session (sd_state d) \<Longrightarrow> stays d (requestTeardown r d)"
  using requestTeardown_base [of d r] by (auto simp: stays_def driver_ok_def in_session_def)

lemma stays_framer: "driver_ok d \<Longrightarrow> framer_ok f \<Longrightarrow> stays d (d\<lparr>sd_framer := f\<rparr>)"
  by (auto simp: stays_def driver_ok_def driver_base_def)

lemma sessionActive_state: "sessionActive d \<Longrightarrow> in_session (sd_state d)"
  by (simp add: sessionActive_def in_session_def)

lemma driver_ok_framer: "driver_ok d \<Longrightarrow> framer_ok (sd_framer d)"
  by (simp add: driver_ok_def driver_base_def)

lemma stays_active: "stays d d' \<Longrightarrow> in_session (sd_state d) \<Longrightarrow> in_session (sd_state d')"
  by (auto simp: stays_def in_session_def)

lemma detectActiveLoss_stays:
  assumes "driver_ok d" and "in_session (sd_state d)"
  shows "stays d (fst (detectActiveLoss E (d, c, w)))"
  using assms by (auto simp: detectActiveLoss_def stays_requestTeardown stays_refl
      split: prod.split option.split)

lemma readAvailable_stays:
  assumes "readAvailable E (d, c, w) = Some s'" and "driver_ok d" and "in_session (sd_state d)"
  shows "stays d (fst s')"
proof -
  obtain tr w1 where tr: "transport E (sd_active_handle d) w = (tr, w1)"
    by (cases "transport E (sd_active_handle d) w")
  show ?thesis
  proof (cases tr)
    case None
    with assms tr show ?thesis by (auto simp: readAvailable_def stays_requestTeardown)
  next
    case (Some t)
    then obtain e f c1 w2 where r: "read_loop E t (sd_framer d) c w1 = Some (e, f, c1, w2)"
      using assms(1) tr by (cases "read_loop E t (sd_framer d) c w1") (auto simp: readAvailable_def)
    have "framer_ok f" using read_loop_ok [OF r driver_ok_framer [OF assms(2)]] by simp
    then have st: "stays d (d\<lparr>sd_framer := f\<rparr>)" by (rule stays_framer [OF assms(2)])
    then have d1: "driver_ok (d\<lparr>sd_framer := f\<rparr>)" by (simp add: stays_def)
    have in1: "in_session (sd_state (d\<lparr>sd_framer := f\<rparr>))" using assms(3) by simp
    have "stays d (requestTeardown reason (d\<lparr>sd_framer := f\<rparr>))" for reason
      by (rule stays_trans [OF st stays_requestTeardown [OF d1 in1]])
    moreover have "stays d (fst (detectActiveLoss E (d\<lparr>sd_framer := f\<rparr>, c1, w2)))"
      by (rule stays_trans [OF st detectActiveLoss_stays [OF d1 in1]])
    ultimately show ?thesis
      using assms(1) tr Some r st by (auto simp: readAvailable_def Let_def split: read_end.splits)
  qed
qed

lemma nextLine_stays:
  assumes "nextLine E (d, c, w) = Some (line, s')" and "driver_ok d"
  shows "stays d (fst s') \<and> (line \<noteq> None \<longrightarrow> lf_active_acquired (sd_framer (fst s')))"
proof (cases "sessionActive d \<and> \<not> sd_teardown_pending d")
  case False
  with assms have "line = None" "s' = (d, c, w)" by (auto simp: nextLine_def)
  with assms(2) show ?thesis by (simp add: stays_refl)
next
  case True
  let ?read = "if hasLine (sd_framer d) then Some (d, c, w) else readAvailable E (d, c, w)"
  obtain d1 c1 w1 where r: "?read = Some (d1, c1, w1)"
    using assms(1) True by (cases ?read) (auto simp: nextLine_def)
  have st: "stays d d1"
    using r readAvailable_stays [of E d c w] assms(2) True sessionActive_state
    by (auto simp: stays_refl split: if_splits)
  then have d1: "driver_ok d1" by (simp add: stays_def)
  show ?thesis
  proof (cases "hasLine (sd_framer d1)")
    case False
    with assms(1) True r have "line = None" "s' = (d1, c1, w1)" by (simp_all add: nextLine_def)
    with st show ?thesis by simp
  next
    case has: True
    obtain l f where a: "acquireLine (sd_framer d1) = (l, f)" by (cases "acquireLine (sd_framer d1)")
    have "framer_ok f"
      using framer_ok_operations(4) [OF driver_ok_framer [OF d1]] a by (metis snd_conv)
    then have "stays d (d1\<lparr>sd_framer := f\<rparr>)" by (rule stays_trans [OF st stays_framer [OF d1]])
    moreover have "lf_active_acquired f" using a has by (auto simp: acquireLine_def hasLine_def)
    ultimately show ?thesis using assms(1) True r has a by (auto simp: nextLine_def)
  qed
qed

lemma sendActiveLine_stays:
  assumes "sendActiveLine E line mc (d, c, w) = Some (result, s')" and "driver_ok d"
  shows "stays d (fst s') \<and> (\<not> sessionActive d \<longrightarrow> s' = (d, c, w) \<and> result = NoActiveTransport)"
proof (cases "sessionActive d \<and> \<not> sd_teardown_pending d")
  case False
  with assms have "s' = (d, c, w)" "result = NoActiveTransport" by (auto simp: sendActiveLine_def)
  with assms(2) show ?thesis by (simp add: stays_refl)
next
  case True
  then obtain td wr c1 w1 where send: "sendLine E line mc (sd_writer d, c, w) = Some ((result, td), (wr, c1, w1))"
    and s': "s' = (teardown_callback td (d\<lparr>sd_writer := wr\<rparr>), c1, w1)"
    using assms(1) by (auto simp: sendActiveLine_def split: option.splits)
  note fr = sendLine_frame [OF send]
  have base: "driver_base (d\<lparr>sd_writer := wr\<rparr>)"
    by (rule base_writer) (use assms(2) fr in \<open>simp_all add: driver_ok_def\<close>)
  then have ok: "driver_ok (d\<lparr>sd_writer := wr\<rparr>)" using assms(2) by (simp add: driver_ok_def)
  then have "stays d (d\<lparr>sd_writer := wr\<rparr>)" by (simp add: stays_def)
  moreover have "in_session (sd_state (d\<lparr>sd_writer := wr\<rparr>))" using True by (simp add: sessionActive_state)
  ultimately have "stays d (fst s')"
    using stays_requestTeardown [OF ok] s'
    by (auto simp: teardown_callback_def intro: stays_trans split: option.split)
  with True show ?thesis by simp
qed

lemma driver_releaseLine_stays: "driver_ok d \<Longrightarrow> stays d (driver_releaseLine d)"
  unfolding driver_releaseLine_def by (auto intro: stays_framer stays_refl driver_ok_framer)

lemma accept_valid_handle: "accept_valid E w = (Some h, w') \<Longrightarrow> isValidConnectionHandle h"
  by (auto simp: accept_valid_def split: prod.splits if_splits)

lemma pumpListening_cases:
  assumes "pumpListening E (d, c, w) = Some s'"
  shows "fst s' = d \<or>
     (\<exists>h c1 w1. isValidConnectionHandle h \<and> promoteAcceptedConnection E h (d, c1, w1) = Some s')"
  using assms accept_valid_handle
  by (fastforce simp: pumpListening_def Let_def split: prod.splits bool.splits option.splits)

lemma poll_ok:
  assumes "poll E (d, c, w) = Some s'" and "driver_ok d"
  shows "driver_ok (fst s') \<and> same_config d (fst s')"
proof -
  have conf: "sd_configured d" using assms(2) by (simp add: driver_ok_def driver_base_def)
  consider "sd_state d = BOOT_SAFE \<or> sd_state d = SESSION_CLOSING" | "sd_state d = NETWORK_STARTING"
    | "sd_state d = LISTENING" | "sd_state d = SESSION_ACTIVE"
    using assms(2) by (cases "sd_state d") (auto simp: driver_ok_def)
  then show ?thesis
  proof cases
    case 1
    with assms conf show ?thesis by (auto simp: poll_def Let_def)
  next
    case 2
    then have "s' = pumpNetworkStarting E (d, c, progress E w)" using assms(1) conf by (simp add: poll_def)
    with assms(2) 2 show ?thesis
      by (auto simp: pumpNetworkStarting_def driver_ok_def driver_base_def transitionTo_def
          in_session_def Let_def same_config_def split: prod.split bool.split)
  next
    case 3
    then have "pumpListening E (d, c, progress E w) = Some s'" using assms(1) conf by (simp add: poll_def)
    from pumpListening_cases [OF this] show ?thesis
    proof (elim disjE exE conjE)
      fix h c1 w1
      assume h: "isValidConnectionHandle h" "promoteAcceptedConnection E h (d, c1, w1) = Some s'"
      from promoteAcceptedConnection_ok [OF h(2) assms(2) 3 h(1)] show ?thesis by blast
    qed (use assms(2) in simp)
  next
    case 4
    obtain p w1 where hp: "hasPendingConnection E (progress E w) = (p, w1)"
      by (cases "hasPendingConnection E (progress E w)")
    show ?thesis
    proof (cases p)
      case True
      then have s': "s' = acceptReplacement E (d, c, w1)" using assms(1) conf 4 hp by (simp add: poll_def)
      have "driver_ok (requestTeardown Superseded (d\<lparr>sd_replacement_handle := h\<rparr>))" for h
        using assms(2) 4
        by (auto simp: requestTeardown_def transitionTo_def driver_ok_def driver_base_def in_session_def
            Let_def)
      with s' assms(2) show ?thesis by (auto simp: acceptReplacement_def split: prod.split option.split)
    next
      case False
      obtain d1 c1 w2 where l: "detectActiveLoss E (d, c, w1) = (d1, c1, w2)"
        by (cases "detectActiveLoss E (d, c, w1)")
      have st: "stays d d1"
        using detectActiveLoss_stays [OF assms(2), of E c w1] 4 l by (simp add: in_session_def)
      show ?thesis
      proof (cases "sd_state d1 = SESSION_ACTIVE \<and> \<not> sd_teardown_pending d1")
        case True
        then have "readAvailable E (d1, c1, w2) = Some s'"
          using assms(1) conf 4 hp False l by (simp add: poll_def)
        from readAvailable_stays [OF this] True st show ?thesis
          by (auto simp: stays_def in_session_def intro: same_config_trans)
      next
        case no: False
        then have "s' = (d1, c1, w2)" using assms(1) conf 4 hp False l by (auto simp: poll_def)
        with st show ?thesis by (simp add: stays_def)
      qed
    qed
  qed
qed

lemma new_session_driver_ok: "driver_ok (new_session_driver r i h p)"
  by (auto simp: new_session_driver_def driver_ok_def driver_base_def in_session_def
      attached_writer_def default_writer_def)

lemma driver_begin_ok:
  "driver_ok d \<Longrightarrow> driver_ok (fst (driver_begin E (d, c, w))) \<and> same_config d (fst (driver_begin E (d, c, w)))"
  by (auto simp: driver_begin_def transitionTo_def driver_ok_def driver_base_def in_session_def
      same_config_def split: prod.split)

section \<open>Promotion in detail\<close>

lemma promote_with_active:
  assumes f: "tears_down f" and run: "promote_with f E h (d, c, w) = Some (d', c', w')"
    and d: "driver_ok d" "sd_state d = LISTENING" and h: "isValidConnectionHandle h"
    and act: "sd_state d' = SESSION_ACTIVE"
  shows "\<exists>t w1 now w2 line wr c1.
     transport E h w = (Some t, w1) \<and> monotonicMilliseconds E w1 = (now, w2) \<and>
     buildSchemaLineWithTimestamp (sd_registry d) (sd_identity d) now (Some kSchemaJsonBufferBytes) =
       (ok_status, line) \<and>
     sendLine E (Some (take kSchemaJsonBufferBytes (cstr line))) Critical
       (bindTransport t (sd_writer d), c, w2) = Some ((Sent, None), (wr, c1, w')) \<and>
     c' = increment schemas_sent_update c1 \<and> sd_active_handle d' = h \<and> sd_writer d' = wr \<and>
     sd_framer d' = closeSession (sd_framer d)"
proof -
  obtain tr w1 where tr: "transport E h w = (tr, w1)" by (cases "transport E h w")
  show ?thesis
  proof (cases tr)
    case None
    then show ?thesis using run tr d act by (auto simp: promote_with_def)
  next
    case (Some t)
    define d1 where "d1 = transitionTo SESSION_CONNECTED
      (d\<lparr>sd_active_handle := h, sd_writer := bindTransport t (sd_writer d),
         sd_framer := closeSession (sd_framer d)\<rparr>)"
    have d1: "driver_base d1" "sd_state d1 = SESSION_CONNECTED"
      using connected_base [OF d h] by (simp_all add: d1_def)
    have keep: "sd_registry d1 = sd_registry d" "sd_identity d1 = sd_identity d"
      "sd_active_handle d1 = h" "sd_writer d1 = bindTransport t (sd_writer d)"
      "sd_framer d1 = closeSession (sd_framer d)"
      by (simp_all add: d1_def frame_simps)
    have norep: "\<not> isValidConnectionHandle (sd_replacement_handle d1)"
      using d1 by (auto simp: driver_base_def)
    have no: "f (d2, c2, w2) \<noteq> Some (d', c', w')"
      if "driver_ok d2" "sd_state d2 = SESSION_CLOSING"
        "sd_replacement_handle d2 = sd_replacement_handle d1" for d2 c2 w2
      using f [unfolded tears_down_def, rule_format, of "(d2, c2, w2)" "(d', c', w')"] that norep act
      by auto
    obtain now w2 where now: "monotonicMilliseconds E w1 = (now, w2)"
      by (cases "monotonicMilliseconds E w1")
    obtain st line where b: "buildSchemaLineWithTimestamp (sd_registry d1) (sd_identity d1) now
        (Some kSchemaJsonBufferBytes) = (st, line)" by (metis surj_pair)
    note run' = run [unfolded promote_with_def prod.case tr Some option.case Let_def,
        folded d1_def, unfolded now prod.case b]
    have closing: "driver_ok (requestTeardown r d2) \<and> sd_state (requestTeardown r d2) = SESSION_CLOSING \<and>
        sd_replacement_handle (requestTeardown r d2) = sd_replacement_handle d1"
      if "driver_base d2" "sd_state d2 = SESSION_CONNECTED"
        "sd_replacement_handle d2 = sd_replacement_handle d1" for r d2
      using requestTeardown_base [OF that(1)] that(2,3) by (simp add: in_session_def frame_simps)
    have ok: "status_ok st" using run' no closing [OF d1] by (auto split: if_splits)
    let ?send = "sendLine E (Some (take kSchemaJsonBufferBytes (cstr line))) Critical (sd_writer d1, c, w2)"
    obtain result td wr c1 w3 where send: "?send = Some ((result, td), (wr, c1, w3))"
      using run' ok by (cases ?send) auto
    note fr = sendLine_frame [OF send]
    have d2: "driver_base (d1\<lparr>sd_writer := wr\<rparr>)" by (rule base_writer [OF d1(1)]) (simp_all add: fr)
    note cl = closing [OF d2, of SchemaSendFailure] closing [OF d2]
    have sent: "result = Sent"
    proof (rule ccontr)
      assume ns: "result \<noteq> Sent"
      define d3 where "d3 = replacePendingTeardownReason SchemaSendFailure
          (teardown_callback td (d1\<lparr>sd_writer := wr\<rparr>))"
      have "f (d3, c1, w3) = Some (d', c', w')" using run' ok send ns by (simp add: d3_def)
      moreover have "driver_ok d3 \<and> sd_state d3 = SESSION_CLOSING \<and>
          sd_replacement_handle d3 = sd_replacement_handle d1"
      proof (cases td)
        case None
        with cl(1) d2 d1(2) show ?thesis
          by (auto simp: d3_def teardown_callback_def replacePendingTeardownReason_def driver_base_def)
      next
        case (Some r)
        with cl(2) [of r] d1(2) show ?thesis
          by (auto simp: d3_def teardown_callback_def replacePendingTeardownReason_def frame_simps
              driver_ok_def driver_base_def)
      qed
      ultimately show False using no by blast
    qed
    with send have td: "td = None" using sendLine_sent by blast
    have code: "st = ok_status"
      using b ok unfolding buildSchemaLineWithTimestamp_def
      by (auto simp: status_ok_def split: option.splits)
    show ?thesis
      using run' ok send sent td tr Some now b keep code
      by (auto simp: teardown_callback_def frame_simps)
  qed
qed

section \<open>Calls return\<close>

text \<open>
  The transport holds finitely many bytes until the network is pumped again: looking at it adds
  none, and a read that returns bytes leaves fewer.
\<close>

definition finite_backlog :: "'w env \<Rightarrow> ('w \<Rightarrow> nat) \<Rightarrow> bool" where
  "finite_backlog E backlog \<longleftrightarrow>
     (\<forall>t w. backlog (snd (connectionState E t w)) \<le> backlog w) \<and>
     (\<forall>t n w. fst (readSome E t n w) \<noteq> [] \<longrightarrow> backlog (snd (readSome E t n w)) < backlog w)"

lemma read_loop_ends:
  assumes "finite_backlog E backlog"
  shows "returns (read_loop E t f c w)"
proof (induction "backlog w" arbitrary: f c w rule: less_induct)
  case less
  obtain st w1 where st: "connectionState E t w = (st, w1)" by (cases "connectionState E t w")
  obtain bs w2 where rd: "readSome E t 64 w1 = (bs, w2)" by (cases "readSome E t 64 w1")
  have "backlog w1 \<le> backlog w" "bs \<noteq> [] \<Longrightarrow> backlog w2 < backlog w1"
    using assms st rd unfolding finite_backlog_def by (metis snd_conv, metis fst_conv snd_conv)
  then have "bs \<noteq> [] \<Longrightarrow> returns (read_loop E t f1 c1 w2)" for f1 c1
    using less [of w2] by simp
  then show ?case by (subst read_loop.simps) (auto simp: st rd split: prod.split)
qed

lemma readAvailable_returns: "finite_backlog E backlog \<Longrightarrow> returns (readAvailable E s)"
  by (simp add: readAvailable_def Let_def read_loop_ends split: prod.split option.split read_end.split)

lemma promote_with_returns:
  assumes "running_clock E time"
    and "\<And>s1. sd_replacement_handle (fst s1) = sd_replacement_handle (fst s) \<Longrightarrow> returns (f s1)"
  shows "returns (promote_with f E h s)"
proof -
  have send: "returns (sendLine E l mc st)" for l mc st
    using sendLine_returns [OF assms(1)] by (simp add: returns_iff)
  show ?thesis
    using assms(2)
    by (auto simp: promote_with_def Let_def frame_simps send split: prod.split option.split)
qed

lemma applyPendingTeardown_returns:
  assumes "running_clock E time"
  shows "returns (applyPendingTeardown E s)"
proof -
  have norep: "returns (applyPendingTeardown E s1)"
    if "\<not> isValidConnectionHandle (sd_replacement_handle (fst s1))" for s1
    using that by (cases s1) (auto simp: applyPendingTeardown_eq split: prod.split)
  have "returns (promoteAcceptedConnection E h (d1\<lparr>sd_replacement_handle := kInvalidConnection\<rparr>, c1, w1))"
    for h d1 c1 w1
    unfolding promoteAcceptedConnection_def
    by (rule promote_with_returns [OF assms]) (use norep in simp)
  then show ?thesis by (cases s) (auto simp: applyPendingTeardown_eq split: prod.split)
qed

lemma promoteAcceptedConnection_returns:
  "running_clock E time \<Longrightarrow> returns (promoteAcceptedConnection E h s)"
  unfolding promoteAcceptedConnection_def
  by (rule promote_with_returns) (use applyPendingTeardown_returns in blast)+

lemma poll_returns:
  assumes "running_clock E time" and "finite_backlog E backlog"
  shows "returns (poll E s)"
  by (simp add: poll_def pumpListening_def Let_def promoteAcceptedConnection_returns [OF assms(1)]
      readAvailable_returns [OF assms(2)] split: prod.split bool.split option.split)

lemma nextLine_returns: "finite_backlog E backlog \<Longrightarrow> returns (nextLine E s)"
  by (simp add: nextLine_def readAvailable_returns split: prod.split)

lemma sendActiveLine_returns:
  assumes "running_clock E time"
  shows "returns (sendActiveLine E line mc s)"
proof -
  have "returns (sendLine E l m st)" for l m st
    using sendLine_returns [OF assms] by (simp add: returns_iff)
  then show ?thesis by (simp add: sendActiveLine_def split: prod.split)
qed

section \<open>Properties\<close>

text \<open>
  The calls the service loop makes on a session, in any order and with anything happening in the
  world and the counters between them. A teardown is only requested during a session.
\<close>

inductive driver_reaches :: "'w env \<Rightarrow> session_driver \<Rightarrow> session_driver \<Rightarrow> bool" for E :: "'w env" where
  dr_start: "driver_reaches E d d"
| dr_begin: "driver_reaches E d0 d \<Longrightarrow> driver_reaches E d0 (fst (driver_begin E (d, c, w)))"
| dr_poll: "driver_reaches E d0 d \<Longrightarrow> poll E (d, c, w) = Some s \<Longrightarrow> driver_reaches E d0 (fst s)"
| dr_nextLine: "driver_reaches E d0 d \<Longrightarrow> nextLine E (d, c, w) = Some (line, s) \<Longrightarrow>
     driver_reaches E d0 (fst s)"
| dr_release: "driver_reaches E d0 d \<Longrightarrow> driver_reaches E d0 (driver_releaseLine d)"
| dr_send: "driver_reaches E d0 d \<Longrightarrow> sendActiveLine E line mc (d, c, w) = Some (result, s) \<Longrightarrow>
     driver_reaches E d0 (fst s)"
| dr_request: "driver_reaches E d0 d \<Longrightarrow> in_session (sd_state d) \<Longrightarrow>
     driver_reaches E d0 (requestTeardown reason d)"
| dr_apply: "driver_reaches E d0 d \<Longrightarrow> applyPendingTeardown E (d, c, w) = Some s \<Longrightarrow>
     driver_reaches E d0 (fst s)"

lemma driver_reaches_ok:
  "driver_reaches E d0 d \<Longrightarrow> driver_ok d0 \<Longrightarrow> driver_ok d \<and> same_config d0 d"
proof (induction rule: driver_reaches.induct)
  case (dr_begin d0 d c w)
  then show ?case using driver_begin_ok [of d E c w] by (auto intro: same_config_trans)
next
  case (dr_poll d0 d c w s)
  then show ?case using poll_ok [of E d c w s] by (auto intro: same_config_trans)
next
  case (dr_nextLine d0 d c w line s)
  then show ?case using nextLine_stays [of E d c w line s] by (auto simp: stays_def intro: same_config_trans)
next
  case (dr_release d0 d)
  then show ?case using driver_releaseLine_stays [of d] by (auto simp: stays_def intro: same_config_trans)
next
  case (dr_send d0 d line mc c w result s)
  then show ?case
    using sendActiveLine_stays [of E line mc d c w result s] by (auto simp: stays_def intro: same_config_trans)
next
  case (dr_request d0 d reason)
  then show ?case using stays_requestTeardown [of d reason] by (auto simp: stays_def intro: same_config_trans)
next
  case (dr_apply d0 d c w s)
  then show ?case using applyPendingTeardown_ok [of E d c w s] by (auto intro: same_config_trans)
qed simp



text \<open>
  C15: the schema comes first. When accepting a connection leads to an active session, the bytes
  that went out on that connection are exactly the schema line of the registry, complete, before
  anything else; it is counted, and the session is on that connection.
\<close>

theorem session_opens_with_schema:
  assumes "promoteAcceptedConnection E handle (d, c, w) = Some (d', c', w')"
    and "driver_ok d" and "sd_state d = LISTENING" and "isValidConnectionHandle handle"
    and "sd_state d' = SESSION_ACTIVE"
    and "registry_ok (sd_registry d)" and "sd_identity d = registry_identity (sd_registry d)"
    and "transport E handle w = (Some t, w1)" and "faithful_transport E t sent"
  shows "\<exists>now. sent w' = sent w1 @ line_of (schema_members (sd_registry d) (cr_identity (sd_registry d)) now) \<and>
     sd_active_handle d' = handle \<and> wr_transport (sd_writer d') = Some t \<and>
     schemas_sent c' = schemas_sent c + 1"
proof -
  from promote_with_active [OF applyPendingTeardown_tears_down
      assms(1) [unfolded promoteAcceptedConnection_def] assms(2-5)] assms(8)
  obtain now w2 line wr c1 where
    now: "monotonicMilliseconds E w1 = (now, w2)"
    and b: "buildSchemaLineWithTimestamp (sd_registry d) (sd_identity d) now
        (Some kSchemaJsonBufferBytes) = (ok_status, line)"
    and send: "sendLine E (Some (take kSchemaJsonBufferBytes (cstr line))) Critical
        (bindTransport t (sd_writer d), c, w2) = Some ((Sent, None), (wr, c1, w'))"
    and out: "c' = increment schemas_sent_update c1" "sd_active_handle d' = handle" "sd_writer d' = wr"
    by auto
  have cap: "0 < kSchemaJsonBufferBytes" "kSchemaJsonBufferBytes = 8192" "kBoardTxMaxLineBytes = 8192"
    by (simp_all add: limits)
  have line: "line = line_of (schema_members (sd_registry d) (cr_identity (sd_registry d)) now)"
    "length line \<le> 8192"
    using b unfolding assms(7) buildSchemaLine_eq [OF assms(6) cap(1)]
    by (auto simp: Let_def cap(2,3) ok_status_def split: if_splits)
  have "nul_free line" unfolding line(1) by (rule line_of_shape)
  then have whole: "take kSchemaJsonBufferBytes (cstr line) = line" using line(2) cap by simp
  have ready: "writer_ready t (bindTransport t (sd_writer d))"
    using assms(2) by (simp add: writer_ready_def bindTransport_def beginSession_def driver_ok_def
        driver_base_def)
  have valid: "isValidWireLine line"
    using send ready unfolding whole
    by (auto simp: sendLine_def writer_ready_def split: if_splits)
  from sendLine_ready [OF send [unfolded whole] ready valid assms(9)]
  have "sent w' = sent w2 @ line" "c1 = c" by auto
  moreover have "sent w2 = sent w1"
    using assms(9) now unfolding faithful_transport_def by (metis snd_conv)
  moreover have "wr_transport wr = Some t"
    using sendLine_frame(1) [OF send] by (simp add: bindTransport_def beginSession_def)
  ultimately show ?thesis using out line(1) by auto
qed

lemma session_opens_with_schema_witness:
  "let r = new_registry;
       d = (new_session_driver r (registry_identity r) None 80)\<lparr>sd_state := LISTENING\<rparr>;
       h = \<lparr>ch_slot = 0, ch_generation = 1\<rparr>
   in \<exists>d' c' w'. promoteAcceptedConnection (sample_env 8192) h (d, zero_counters, (3, [])) = Some (d', c', w') \<and>
        (\<exists>now. snd w' = line_of (schema_members r (cr_identity r) now)) \<and> sd_active_handle d' = h"
proof -
  define r where "r = new_registry"
  define d where "d = (new_session_driver r (registry_identity r) None 80)\<lparr>sd_state := LISTENING\<rparr>"
  define h where "h = \<lparr>ch_slot = 0, ch_generation = (1 :: u32)\<rparr>"
  define line where "line = line_of (schema_members r (cr_identity r) 3)"
  define d1 where "d1 = transitionTo SESSION_CONNECTED
      (d\<lparr>sd_active_handle := h, sd_writer := bindTransport 0 (sd_writer d),
         sd_framer := closeSession (sd_framer d)\<rparr>)"
  have ok: "driver_ok d" "sd_state d = LISTENING" "isValidConnectionHandle h" "registry_ok r"
    using new_session_driver_ok [of r "registry_identity r" None 80] new_registry_ok
    by (auto simp: driver_ok_def driver_base_def d_def h_def r_def in_session_def new_session_driver_def
        isValidConnectionHandle_def kInvalidConnection_def)
  have len: "length line \<le> kBoardTxMaxLineBytes"
    by (simp add: line_def r_def line_of_def schema_members_def new_registry_def quoted_plain plain_char_def
        quoted_def [of _ "[]"] kSchemaSeq_def dec_u64_def dec_nat.simps limits)
  have build: "buildSchemaLineWithTimestamp r (registry_identity r) 3 (Some kSchemaJsonBufferBytes) =
      (ok_status, line)"
    using buildSchemaLine_eq [OF ok(4), of kSchemaJsonBufferBytes 3] len
    by (simp add: Let_def line_def limits)
  have whole: "take kSchemaJsonBufferBytes (cstr line) = line"
    using len line_of_shape(1) by (simp add: line_def limits)
  have ready: "writer_ready 0 (sd_writer d1)"
    by (simp add: d1_def frame_simps d_def new_session_driver_def bindTransport_def beginSession_def
        writer_ready_def attached_writer_def default_writer_def)
  have valid: "isValidWireLine line" unfolding line_def isValidWireLine_line_of
    using len by (simp add: line_def)
  have send: "sendLine (sample_env 8192) (Some line) Critical (sd_writer d1, zero_counters, (3, [])) =
      Some ((Sent, None), (sd_writer d1, zero_counters, (3, [] @ line)))"
    by (rule sample_env_sends [OF valid _ ready]) (use len in \<open>simp_all add: limits\<close>)
  have cfg: "sd_registry d1 = r" "sd_identity d1 = registry_identity r"
    by (simp_all add: d1_def frame_simps d_def new_session_driver_def)
  have env: "transport (sample_env 8192) h (3, []) = (Some 0, (3, []))"
    "monotonicMilliseconds (sample_env 8192) (3, []) = (3, (3, []))"
    by (simp_all add: sample_env_def)
  have run: "promoteAcceptedConnection (sample_env 8192) h (d, zero_counters, (3, [])) =
      Some (transitionTo SESSION_ACTIVE d1, increment schemas_sent_update zero_counters, (3, line))"
    unfolding promoteAcceptedConnection_def promote_with_def prod.case env option.case Let_def
      d1_def [symmetric] cfg build whole send
    by (simp add: status_ok_def ok_status_def teardown_callback_def)
  have "sd_state d1 = SESSION_CONNECTED" using connected_base [OF ok(1-3)] by (simp add: d1_def)
  then have "sd_state (transitionTo SESSION_ACTIVE d1) = SESSION_ACTIVE"
    by (simp add: transitionTo_def)
  from session_opens_with_schema [OF run ok(1-3) this _ _ env(1) sample_env_faithful]
  have "\<exists>now. line = line_of (schema_members r (cr_identity r) now)" 
    "sd_active_handle (transitionTo SESSION_ACTIVE d1) = h"
    using ok(4) by (auto simp: d_def new_session_driver_def)
  then show ?thesis unfolding Let_def r_def [symmetric] d_def [symmetric] h_def [symmetric]
    using run by auto
qed



text \<open>
  Under a clock that runs and with a peer whose bytes come to an end, no operation of the
  session driver hangs.
\<close>

theorem driver_calls_return:
  assumes "running_clock E time" and "finite_backlog E backlog"
  shows "poll E s \<noteq> None \<and> nextLine E s \<noteq> None \<and> applyPendingTeardown E s \<noteq> None \<and>
     sendActiveLine E line message_class s \<noteq> None"
  using poll_returns [OF assms, of s] nextLine_returns [OF assms(2), of s]
    applyPendingTeardown_returns [OF assms(1), of s]
    sendActiveLine_returns [OF assms(1), of line message_class s]
  by (simp add: returns_def)

lemma sample_env_backlog: "finite_backlog (sample_env k) (\<lambda>w. 0)"
  by (auto simp: finite_backlog_def sample_env_def)

lemma driver_calls_return_witness:
  "poll (sample_env 0) (new_session_driver new_registry (registry_identity new_registry) None 80,
     zero_counters, (3, [])) \<noteq> None"
  using driver_calls_return [OF sample_env_running sample_env_backlog] by blast

section \<open>Bytes a read can lose\<close>

text \<open>
  An environment whose transport 0 hands out the chunks of a list, one to a read.
\<close>

definition chunk_env :: "bytes list env" where
  "chunk_env =
     \<lparr>monotonicMilliseconds = (\<lambda>w. (0, w)), monotonicMicroseconds = (\<lambda>w. (0, w)),
      progress = (\<lambda>w. w), availability = (\<lambda>w. (Ready, w)), net_begin = (\<lambda>port w. (True, w)),
      isListening = (\<lambda>w. (True, w)), hasPendingConnection = (\<lambda>w. (False, w)),
      accept = (\<lambda>w. (kInvalidConnection, w)), transport = (\<lambda>h w. (Some 0, w)),
      abort = (\<lambda>h w. w),
      readSome = (\<lambda>t n w. case w of [] \<Rightarrow> ([], []) | c # cs \<Rightarrow> (take n c, cs)),
      writeSome = (\<lambda>p d w. (length d, w)), flush = (\<lambda>p w. (True, w)),
      connectionState = (\<lambda>p w. (if w = [] then Open else BytesAvailable, w)),
      safetyHook = (\<lambda>n w. (True, w)), telemetryProvider = (\<lambda>n o' w. (True, o', w)),
      commandHandler = (\<lambda>n seq args o' w. (ok_result, o', w))\<rparr>"

text \<open>The lines the service loop gets when it takes and releases \<open>n\<close> of them.\<close>

fun take_lines :: "'w env \<Rightarrow> nat \<Rightarrow> 'w session \<Rightarrow> bytes option list" where
  "take_lines E 0 s = []"
| "take_lines E (Suc n) s =
     (case nextLine E s of
        None \<Rightarrow> []
      | Some (line, (d, c, w)) \<Rightarrow> line # take_lines E n (driver_releaseLine d, c, w))"


end
