(* ===== verification/LineBuffer.thy ===== *)
theory LineBuffer
  imports Environment
begin

text \<open>
  Appending to a fixed line array, as \<open>TelemetryScheduler\<close> and \<open>CommandDispatcher\<close> each do with
  their own copy of the same functions: the content \<open>line_[0 .. line_size_)\<close> is a byte list, one
  byte of the array is kept for the NUL behind it. Each class names its operations in its own
  theory and interprets \<open>line_sink\<close> on them; this theory holds what is common.
\<close>

section \<open>Bounded append\<close>

definition append_bounded :: "nat \<Rightarrow> bytes \<Rightarrow> bytes act" where
  "append_bounded capacity value line =
     (if capacity \<le> length value \<or> capacity - 1 - length value < length line then (False, line)
      else (True, line @ value))"

definition line_sound :: "nat \<Rightarrow> bytes \<Rightarrow> bool" where
  "line_sound capacity line \<longleftrightarrow> length line < capacity"

definition line_extend :: "bytes \<Rightarrow> bytes \<Rightarrow> bytes" where
  "line_extend t line = line @ t"

definition line_room :: "nat \<Rightarrow> bytes \<Rightarrow> nat" where
  "line_room capacity line = capacity - 1 - length line"

abbreviation emits_line :: "nat \<Rightarrow> bytes act \<Rightarrow> bytes \<Rightarrow> bool" where
  "emits_line capacity \<equiv> emits_on (line_sound capacity) line_extend (line_room capacity)"

lemma line_sink_append_bounded:
  "line_sink (line_sound capacity) (append_bounded capacity) line_extend (line_room capacity)"
  by unfold_locales
    (auto simp: emits_on_def append_bounded_def line_sound_def line_extend_def line_room_def)

text \<open>From the empty line, a text that fits is written and one that does not is refused.\<close>

lemma emits_line_empty:
  assumes "emits_line capacity f t" and "0 < capacity"
  shows "length t < capacity \<Longrightarrow> f [] = (True, t)" and "capacity \<le> length t \<Longrightarrow> \<not> fst (f [])"
proof -
  have s: "line_sound capacity []" using assms(2) by (simp add: line_sound_def)
  show "length t < capacity \<Longrightarrow> f [] = (True, t)"
    using emits_on_fits [OF assms(1) s] by (simp add: line_room_def line_extend_def)
  show "capacity \<le> length t \<Longrightarrow> \<not> fst (f [])"
    using emits_on_full [OF assms(1) s] assms(2) by (simp add: line_room_def)
qed

section \<open>A chain of appends with a clock reading in it\<close>

definition on_line :: "bytes act \<Rightarrow> (bytes \<times> 'w) act" where
  "on_line f st = (case st of (l, w) \<Rightarrow> case f l of (ok, l') \<Rightarrow> (ok, (l', w)))"

definition stamp :: "'w env \<Rightarrow> (u64 \<Rightarrow> bytes act) \<Rightarrow> (bytes \<times> 'w) act" where
  "stamp E put st =
     (case st of (l, w) \<Rightarrow>
        case monotonicMilliseconds E w of (now, w1) \<Rightarrow>
        case put now l of (ok, l') \<Rightarrow> (ok, (l', w1)))"

lemma run_all_on_line:
  "run_all (map on_line fs) (l, w) = (case run_all fs l of (ok, l') \<Rightarrow> (ok, (l', w)))"
  by (induction fs arbitrary: l) (auto simp: on_line_def split: prod.splits)

lemma stamped_run:
  assumes "run_all pre l = (True, l1)" and "monotonicMilliseconds E w = (now, w1)"
  shows "run_all (map on_line pre @ stamp E put # map on_line post) (l, w) =
     (case run_all (put now # post) l1 of (ok, l2) \<Rightarrow> (ok, (l2, w1)))"
  using assms by (auto simp: run_all_append run_all_on_line stamp_def split: prod.splits)

lemma stamped_run_fails:
  assumes "run_all pre l = (False, l1)"
  shows "run_all (map on_line pre @ stamp E put # map on_line post) (l, w) = (False, (l1, w))"
  using assms by (simp add: run_all_append run_all_on_line)

text \<open>
  With texts for all the appends and a prefix that fits, the whole chain writes their concatenation
  exactly when it fits, and reads the clock once.
\<close>

lemma stamped_emits:
  assumes sink: "line_sink (line_sound capacity) ap line_extend (line_room capacity)"
    and pre: "list_all2 (emits_line capacity) pre ts" and fits: "length (concat ts) < capacity"
    and post: "list_all2 (emits_line capacity) post us"
    and put: "\<And>n. emits_line capacity (put n) (text_of n)"
    and clock: "monotonicMilliseconds E w = (now, w1)"
  shows "if length (concat ts @ text_of now @ concat us) < capacity
     then run_all (map on_line pre @ stamp E put # map on_line post) ([], w) =
       (True, (concat ts @ text_of now @ concat us, w1))
     else \<exists>l. run_all (map on_line pre @ stamp E put # map on_line post) ([], w) = (False, (l, w1))"
proof -
  have cap: "0 < capacity" using fits by simp
  have p: "run_all pre [] = (True, concat ts)"
    using emits_line_empty(1) [OF line_sink.on_run_all [OF sink pre] cap fits] .
  have s: "line_sound capacity (concat ts)" using fits by (simp add: line_sound_def)
  have "list_all2 (emits_line capacity) (put now # post) (text_of now # us)" using put post by simp
  note rest = line_sink.on_run_all [OF sink this]
  obtain ok l2 where r: "run_all (put now # post) (concat ts) = (ok, l2)"
    by (cases "run_all (put now # post) (concat ts)")
  show ?thesis
    using emits_on_fits [OF rest s] emits_on_full [OF rest s] r fits
    by (auto simp: stamped_run [OF p clock] line_room_def line_extend_def simp del: run_all.simps)
qed

end
