(* ===== verification/OutboundScheduler.thy ===== *)
theory OutboundScheduler
  imports OutboundWriter
begin

text \<open>
  The outbound queue, \<open>src/core/OutboundScheduler.h\<close>: up to four critical lines served by
  priority and one telemetry line that newer telemetry replaces. The array with its count is a
  list; an entry owns its bytes.

  The locale \<open>critical_queue\<close> is the contract of \<open>enqueueCritical\<close> the handlers rely on. The
  lemmas give the queue's invariant, the order in which it is drained (safety events before
  responses before heartbeat acknowledgements, first in first out within each), and that the end
  of a session accounts for every line that was queued.
\<close>

section \<open>Types\<close>

datatype outbound_kind = CommandResponse | EstopAck | EstopTriggered | HeartbeatAck | Telemetry_Line

datatype outbound_completion = Completed_Sent | SendFailed | CanceledBySessionEnd

record outbound_outcome =
  oo_kind :: outbound_kind
  oo_completion :: outbound_completion

datatype outbound_enqueue_result = Queued | Invalid_Line | TeardownRequested

datatype estop_triggered_pending_state = NotPending | PendingNotQueued | Pending_Queued

datatype priority = Safety_Priority | CommandResponse_Priority | HeartbeatAck_Priority

text \<open>The numbering of the enumerators, compared as integers.\<close>

fun priority_number :: "priority \<Rightarrow> nat" where
  "priority_number Safety_Priority = 0"
| "priority_number CommandResponse_Priority = 1"
| "priority_number HeartbeatAck_Priority = 2"

instantiation priority :: linorder
begin

definition less_eq_priority :: "priority \<Rightarrow> priority \<Rightarrow> bool" where
  "less_eq_priority a b \<longleftrightarrow> priority_number a \<le> priority_number b"

definition less_priority :: "priority \<Rightarrow> priority \<Rightarrow> bool" where
  "less_priority a b \<longleftrightarrow> priority_number a < priority_number b"

instance
proof
  fix a b :: priority
  show "a \<le> b \<Longrightarrow> b \<le> a \<Longrightarrow> a = b" by (cases a; cases b) (simp_all add: less_eq_priority_def)
qed (auto simp: less_eq_priority_def less_priority_def)

end

record critical_entry =
  ce_kind :: outbound_kind
  ce_priority :: priority
  ce_bytes :: bytes

record outbound_scheduler =
  os_critical :: "critical_entry list"
  os_telemetry :: "bytes option"
  os_estop_triggered :: estop_triggered_pending_state

definition new_scheduler :: outbound_scheduler where
  "new_scheduler = \<lparr>os_critical = [], os_telemetry = None, os_estop_triggered = NotPending\<rparr>"

section \<open>Operations\<close>

definition priorityFor :: "outbound_kind \<Rightarrow> priority" where
  "priorityFor kind =
     (if kind = EstopAck \<or> kind = EstopTriggered then Safety_Priority
      else if kind = HeartbeatAck then HeartbeatAck_Priority
      else CommandResponse_Priority)"

definition isValidLine :: "c_string \<Rightarrow> bool" where
  "isValidLine line \<longleftrightarrow>
     (case line of None \<Rightarrow> False
      | Some l \<Rightarrow> l \<noteq> [] \<and> length l \<le> kOutboundCriticalEntryMaxBytes \<and> last l = LF)"

definition enqueueCritical ::
    "outbound_kind \<Rightarrow> c_string \<Rightarrow> outbound_scheduler \<Rightarrow> outbound_enqueue_result \<times> outbound_scheduler" where
  "enqueueCritical kind line s =
     (if kind = Telemetry_Line \<or> \<not> isValidLine line then (Invalid_Line, s)
      else if kOutboundCriticalQueueCapacity \<le> length (os_critical s) then (TeardownRequested, s)
      else (Queued,
        s\<lparr>os_critical := os_critical s @
            [\<lparr>ce_kind = kind, ce_priority = priorityFor kind, ce_bytes = the line\<rparr>],
          os_estop_triggered :=
            (if kind = EstopTriggered then Pending_Queued else os_estop_triggered s)\<rparr>))"

definition markEstopTriggeredPending :: "outbound_scheduler \<Rightarrow> outbound_scheduler" where
  "markEstopTriggeredPending s =
     (if os_estop_triggered s = NotPending then s\<lparr>os_estop_triggered := PendingNotQueued\<rparr> else s)"

definition replaceTelemetry ::
    "c_string \<Rightarrow> counters \<times> outbound_scheduler \<Rightarrow>
     outbound_enqueue_result \<times> counters \<times> outbound_scheduler" where
  "replaceTelemetry line st =
     (case st of (c, s) \<Rightarrow>
        if \<not> isValidLine line then (Invalid_Line, (c, s))
        else (Queued,
          ((if os_telemetry s \<noteq> None then increment telemetry_coalesced_update c else c),
           s\<lparr>os_telemetry := line\<rparr>)))"

definition hasPending :: "outbound_scheduler \<Rightarrow> bool" where
  "hasPending s \<longleftrightarrow> 0 < length (os_critical s) \<or> os_telemetry s \<noteq> None"

text \<open>The selection loop: the first entry of the smallest priority number. None is \<open>-1\<close>.\<close>

definition selectCriticalIndex :: "outbound_scheduler \<Rightarrow> nat option" where
  "selectCriticalIndex s =
     (if os_critical s = [] then None
      else Some (fold (\<lambda>i selected.
          if ce_priority (os_critical s ! i) < ce_priority (os_critical s ! selected) then i
          else selected) [1..<length (os_critical s)] 0))"

definition removeCritical :: "nat \<Rightarrow> outbound_scheduler \<Rightarrow> outbound_scheduler" where
  "removeCritical index s =
     (if length (os_critical s) \<le> index then s
      else s\<lparr>os_estop_triggered :=
               (if ce_kind (os_critical s ! index) = EstopTriggered then NotPending
                else os_estop_triggered s),
             os_critical := take index (os_critical s) @ drop (Suc index) (os_critical s)\<rparr>)"

definition completionFor :: "outbound_send_result \<Rightarrow> outbound_completion" where
  "completionFor result = (if result = Sent then Completed_Sent else SendFailed)"

text \<open>
  \<open>drainOne\<close> sends through the session's \<open>sendActiveLine\<close>, which is the parameter \<open>send\<close> over a
  session state; it may not return.
\<close>

definition drainOne ::
    "(c_string \<Rightarrow> message_class \<Rightarrow> 's \<Rightarrow> (outbound_send_result \<times> 's) option) \<Rightarrow>
     outbound_scheduler \<Rightarrow> 's \<Rightarrow> (outbound_outcome option \<times> outbound_scheduler \<times> 's) option" where
  "drainOne send s session =
     (case selectCriticalIndex s of
        Some index \<Rightarrow>
          (case send (Some (ce_bytes (os_critical s ! index))) Critical session of
             None \<Rightarrow> None
           | Some (result, session') \<Rightarrow>
               Some (Some \<lparr>oo_kind = ce_kind (os_critical s ! index),
                           oo_completion = completionFor result\<rparr>,
                     removeCritical index s, session'))
      | None \<Rightarrow>
          case os_telemetry s of
            Some line \<Rightarrow>
              (case send (Some line) Telemetry_Class session of
                 None \<Rightarrow> None
               | Some (result, session') \<Rightarrow>
                   Some (Some \<lparr>oo_kind = Telemetry_Line, oo_completion = completionFor result\<rparr>,
                         s\<lparr>os_telemetry := None\<rparr>, session'))
          | None \<Rightarrow> Some (None, s, session))"

definition batch_append :: "outbound_outcome \<Rightarrow> outbound_outcome list \<Rightarrow> bool \<times> outbound_outcome list" where
  "batch_append outcome batch =
     (if kOutboundCancellationBatchCapacity \<le> length batch then (False, batch)
      else (True, batch @ [outcome]))"

definition canceled :: "outbound_kind \<Rightarrow> outbound_outcome" where
  "canceled kind = \<lparr>oo_kind = kind, oo_completion = CanceledBySessionEnd\<rparr>"

definition clearForSessionEnd :: "outbound_scheduler \<Rightarrow> outbound_outcome list \<times> outbound_scheduler" where
  "clearForSessionEnd s =
     (let (batch, estop) =
        fold (\<lambda>e (batch, estop).
            (snd (batch_append (canceled (ce_kind e)) batch),
             if ce_kind e = EstopTriggered then PendingNotQueued else estop))
          (os_critical s) ([], os_estop_triggered s);
        s1 = s\<lparr>os_critical := [], os_estop_triggered := estop\<rparr>
      in case os_telemetry s1 of
           None \<Rightarrow> (batch, s1)
         | Some _ \<Rightarrow> (snd (batch_append (canceled Telemetry_Line) batch), s1\<lparr>os_telemetry := None\<rparr>))"

definition clear_scheduler :: "outbound_scheduler \<Rightarrow> outbound_scheduler" where
  "clear_scheduler s = s\<lparr>os_critical := [], os_telemetry := None, os_estop_triggered := NotPending\<rparr>"

section \<open>Invariant\<close>

definition entry_ok :: "critical_entry \<Rightarrow> bool" where
  "entry_ok e \<longleftrightarrow>
     ce_kind e \<noteq> Telemetry_Line \<and> ce_priority e = priorityFor (ce_kind e) \<and>
     isValidLine (Some (ce_bytes e))"

definition scheduler_ok :: "outbound_scheduler \<Rightarrow> bool" where
  "scheduler_ok s \<longleftrightarrow>
     length (os_critical s) \<le> kOutboundCriticalQueueCapacity \<and>
     list_all entry_ok (os_critical s) \<and>
     (os_telemetry s \<noteq> None \<longrightarrow> isValidLine (os_telemetry s)) \<and>
     (os_estop_triggered s = Pending_Queued \<longrightarrow> EstopTriggered \<in> ce_kind ` set (os_critical s))"

lemma new_scheduler_ok: "scheduler_ok new_scheduler"
  by (simp add: scheduler_ok_def new_scheduler_def)

lemma enqueueCritical_ok: "scheduler_ok s \<Longrightarrow> scheduler_ok (snd (enqueueCritical kind line s))"
  by (cases line) (simp_all add: enqueueCritical_def scheduler_ok_def entry_ok_def isValidLine_def)

lemma markEstopTriggeredPending_ok: "scheduler_ok s \<Longrightarrow> scheduler_ok (markEstopTriggeredPending s)"
  by (simp add: markEstopTriggeredPending_def scheduler_ok_def)

lemma replaceTelemetry_ok:
  "scheduler_ok s \<Longrightarrow> scheduler_ok (snd (snd (replaceTelemetry line (c, s))))"
  by (simp add: replaceTelemetry_def scheduler_ok_def)

lemma removeCritical_split:
  "os_critical s = xs @ e # ys \<Longrightarrow>
     removeCritical (length xs) s =
       s\<lparr>os_estop_triggered := (if ce_kind e = EstopTriggered then NotPending else os_estop_triggered s),
         os_critical := xs @ ys\<rparr>"
  by (simp add: removeCritical_def)

lemma split_at: "i < length q \<Longrightarrow> \<exists>xs ys. q = xs @ q ! i # ys \<and> length xs = i"
  by (metis id_take_nth_drop length_take less_imp_le min.absorb2)

lemma removeCritical_ok: "scheduler_ok s \<Longrightarrow> scheduler_ok (removeCritical index s)"
proof -
  assume s: "scheduler_ok s"
  show ?thesis
  proof (cases "index < length (os_critical s)")
    case True
    then obtain xs e ys where q: "os_critical s = xs @ e # ys" "length xs = index"
      using split_at by blast
    then have "removeCritical index s =
        s\<lparr>os_estop_triggered := (if ce_kind e = EstopTriggered then NotPending else os_estop_triggered s),
          os_critical := xs @ ys\<rparr>" using removeCritical_split by blast
    with s q show ?thesis by (auto simp: scheduler_ok_def)
  qed (use s in \<open>simp add: removeCritical_def\<close>)
qed

lemma drainOne_ok:
  "scheduler_ok s \<Longrightarrow> drainOne send s session = Some (outcome, s', session') \<Longrightarrow> scheduler_ok s'"
  using removeCritical_ok [of s]
  by (auto simp: drainOne_def split: option.splits) (simp add: scheduler_ok_def)

section \<open>The contract of enqueueCritical\<close>

text \<open>
  The handlers only know that a valid line is taken when there is room and that otherwise the
  queue says so and stays as it is. \<open>held\<close> is what the queue holds in the order it was given.
\<close>

definition critical_line :: "outbound_kind \<Rightarrow> c_string \<Rightarrow> bool" where
  "critical_line kind line \<longleftrightarrow> kind \<noteq> Telemetry_Line \<and> isValidLine line"

lemma line_of_critical:
  "length (line_of ms) \<le> kOutboundCriticalEntryMaxBytes \<Longrightarrow> kind \<noteq> Telemetry_Line \<Longrightarrow>
     critical_line kind (Some (line_of ms))"
  by (simp add: critical_line_def isValidLine_def line_of_shape)

locale critical_queue =
  fixes enq :: "outbound_kind \<Rightarrow> c_string \<Rightarrow> 's \<Rightarrow> outbound_enqueue_result \<times> 's"
    and held :: "'s \<Rightarrow> (outbound_kind \<times> bytes) list"
    and room :: "'s \<Rightarrow> bool"
  assumes enq_room: "critical_line kind line \<Longrightarrow> room s \<Longrightarrow>
      fst (enq kind line s) = Queued \<and> held (snd (enq kind line s)) = held s @ [(kind, the line)]"
    and enq_full: "critical_line kind line \<Longrightarrow> \<not> room s \<Longrightarrow> enq kind line s = (TeardownRequested, s)"
    and enq_invalid: "\<not> critical_line kind line \<Longrightarrow> enq kind line s = (Invalid_Line, s)"
begin

lemma enq_queued_iff: "fst (enq kind line s) = Queued \<longleftrightarrow> critical_line kind line \<and> room s"
  using enq_room [of kind line s] enq_full [of kind line s] enq_invalid [of kind line s]
  by (cases "critical_line kind line"; cases "room s") auto

lemma enq_not_queued: "fst (enq kind line s) \<noteq> Queued \<Longrightarrow> snd (enq kind line s) = s"
  using enq_full [of kind line s] enq_invalid [of kind line s] enq_queued_iff [of kind line s]
  by (cases "critical_line kind line") auto

lemma enq_result:
  "enq kind line s = (r, s') \<Longrightarrow>
     (r = Queued \<and> critical_line kind line \<and> held s' = held s @ [(kind, the line)]) \<or>
     (r \<noteq> Queued \<and> s' = s)"
  using enq_room [of kind line s] enq_queued_iff [of kind line s] enq_not_queued [of kind line s]
  by (cases "r = Queued") auto

end

definition held_lines :: "outbound_scheduler \<Rightarrow> (outbound_kind \<times> bytes) list" where
  "held_lines s = map (\<lambda>e. (ce_kind e, ce_bytes e)) (os_critical s)"

definition has_room :: "outbound_scheduler \<Rightarrow> bool" where
  "has_room s \<longleftrightarrow> length (os_critical s) < kOutboundCriticalQueueCapacity"

interpretation cq: critical_queue enqueueCritical held_lines has_room
  by unfold_locales
    (auto simp: critical_line_def enqueueCritical_def held_lines_def has_room_def not_less)

section \<open>The order of draining\<close>

lemma fold_select:
  fixes f :: "nat \<Rightarrow> 'p :: linorder"
  defines "step \<equiv> \<lambda>i selected. if f i < f selected then i else selected"
  shows "1 \<le> n \<Longrightarrow> fold step [1..<n] 0 < n \<and> (\<forall>i<n. f (fold step [1..<n] 0) \<le> f i) \<and>
     (\<forall>i<fold step [1..<n] 0. f (fold step [1..<n] 0) < f i)"
proof (induction n rule: nat_induct_at_least)
  case base
  then show ?case by simp
next
  case (Suc n)
  define j where "j = fold step [1..<n] 0"
  have "fold step [1..<Suc n] 0 = (if f n < f j then n else j)"
    using Suc.hyps by (simp add: j_def step_def)
  with Suc.IH [folded j_def] show ?case
    by (auto simp: less_Suc_eq intro: less_le_trans)
qed

lemma selectCriticalIndex_first:
  assumes "selectCriticalIndex s = Some index"
  shows "\<exists>xs e ys. os_critical s = xs @ e # ys \<and> length xs = index \<and>
     (\<forall>x \<in> set xs. ce_priority e < ce_priority x) \<and>
     (\<forall>y \<in> set ys. ce_priority e \<le> ce_priority y)"
proof -
  let ?q = "os_critical s"
  have ne: "1 \<le> length ?q" using assms by (cases ?q) (simp_all add: selectCriticalIndex_def)
  have idx: "index = fold (\<lambda>i selected.
      if ce_priority (?q ! i) < ce_priority (?q ! selected) then i else selected) [1..<length ?q] 0"
    using assms by (simp add: selectCriticalIndex_def split: if_splits)
  note sel = fold_select [where f = "\<lambda>i. ce_priority (?q ! i)", OF ne, folded idx]
  then obtain xs ys where split: "?q = xs @ ?q ! index # ys" "length xs = index"
    using split_at [of index ?q] by blast
  have "ce_priority (?q ! index) < ce_priority x" if "x \<in> set xs" for x
  proof -
    from that obtain i where "i < index" "x = xs ! i" using split(2) by (auto simp: in_set_conv_nth)
    then have "x = ?q ! i" by (subst split(1)) (simp add: nth_append split(2))
    with \<open>i < index\<close> sel show ?thesis by blast
  qed
  moreover have "ce_priority (?q ! index) \<le> ce_priority y" if "y \<in> set ys" for y
  proof -
    have "y \<in> set ?q" by (subst split(1)) (use that in simp)
    then obtain i where "i < length ?q" "y = ?q ! i" by (auto simp: in_set_conv_nth)
    with sel show ?thesis by blast
  qed
  ultimately show ?thesis using split by blast
qed

text \<open>
  The queue as the protocol describes it: three lanes, each first in first out, and the order in
  which their lines go out when nothing new arrives.
\<close>

definition lane :: "priority \<Rightarrow> critical_entry list \<Rightarrow> critical_entry list" where
  "lane p q = filter (\<lambda>e. ce_priority e = p) q"

definition drain_order :: "critical_entry list \<Rightarrow> critical_entry list" where
  "drain_order q =
     lane Safety_Priority q @ lane CommandResponse_Priority q @ lane HeartbeatAck_Priority q"

lemma lane_append: "lane p (a @ b) = lane p a @ lane p b"
  by (simp add: lane_def)

lemma drain_order_first:
  assumes "\<forall>x \<in> set xs. ce_priority e < ce_priority x" and "\<forall>y \<in> set ys. ce_priority e \<le> ce_priority y"
  shows "drain_order (xs @ e # ys) = e # drain_order (xs @ ys)"
proof -
  have none: "lane p q = []" if "\<forall>x \<in> set q. p < ce_priority x" for p q
    using that by (auto simp: lane_def filter_empty_conv)
  have own: "lane (ce_priority e) xs = []" using assms(1) by (rule none)
  have above: "lane p xs = [] \<and> lane p ys = []" if "p < ce_priority e" for p
    using assms that by (auto intro!: none intro: less_trans less_le_trans)
  have lt: "Safety_Priority < CommandResponse_Priority" "Safety_Priority < HeartbeatAck_Priority"
    "CommandResponse_Priority < HeartbeatAck_Priority" by (simp_all add: less_priority_def)
  have one: "lane p (e # q) = (if ce_priority e = p then e # lane p q else lane p q)" for p q
    by (simp add: lane_def)
  show ?thesis
    using own above lt
    by (cases "ce_priority e") (simp_all add: drain_order_def lane_append one)
qed

lemma drainOne_critical:
  assumes "os_critical s \<noteq> []" and "drainOne send s session = Some (outcome, s', session')"
  shows "\<exists>e result. drain_order (os_critical s) = e # drain_order (os_critical s') \<and>
     length (os_critical s) = Suc (length (os_critical s')) \<and>
     send (Some (ce_bytes e)) Critical session = Some (result, session') \<and>
     outcome = Some \<lparr>oo_kind = ce_kind e, oo_completion = completionFor result\<rparr> \<and>
     os_telemetry s' = os_telemetry s \<and> e \<in> set (os_critical s)"
proof -
  obtain index where index: "selectCriticalIndex s = Some index"
    using assms(1) by (simp add: selectCriticalIndex_def)
  obtain xs e ys where q: "os_critical s = xs @ e # ys" "length xs = index"
    "\<forall>x \<in> set xs. ce_priority e < ce_priority x" "\<forall>y \<in> set ys. ce_priority e \<le> ce_priority y"
    using selectCriticalIndex_first [OF index] by blast
  have at: "os_critical s ! index = e" using q(1,2) by auto
  obtain result where r: "send (Some (ce_bytes e)) Critical session = Some (result, session')"
    "s' = removeCritical index s"
    "outcome = Some \<lparr>oo_kind = ce_kind e, oo_completion = completionFor result\<rparr>"
    using assms(2) by (auto simp: drainOne_def index at split: option.splits)
  have s': "os_critical s' = xs @ ys" "os_telemetry s' = os_telemetry s"
    using removeCritical_split [OF q(1)] q(2) r(2) by auto
  have "drain_order (os_critical s) = e # drain_order (os_critical s')"
    unfolding q(1) s'(1) by (rule drain_order_first [OF q(3,4)])
  with r s' q(1) show ?thesis by auto
qed

section \<open>The end of a session\<close>

lemma clear_fold:
  "length batch + length q \<le> kOutboundCancellationBatchCapacity \<Longrightarrow>
   fold (\<lambda>e (batch, estop).
      (snd (batch_append (canceled (ce_kind e)) batch),
       if ce_kind e = EstopTriggered then PendingNotQueued else estop)) q (batch, estop) =
     (batch @ map (canceled \<circ> ce_kind) q,
      if EstopTriggered \<in> ce_kind ` set q then PendingNotQueued else estop)"
  by (induction q arbitrary: batch estop) (auto simp: batch_append_def)

lemma clearForSessionEnd_eq:
  assumes "scheduler_ok s"
  shows "clearForSessionEnd s =
     (map (canceled \<circ> ce_kind) (os_critical s) @
        (if os_telemetry s = None then [] else [canceled Telemetry_Line]),
      \<lparr>os_critical = [], os_telemetry = None,
       os_estop_triggered =
         (if EstopTriggered \<in> ce_kind ` set (os_critical s) then PendingNotQueued
          else os_estop_triggered s)\<rparr>)"
proof -
  have len: "length (os_critical s) \<le> 4" using assms by (simp add: scheduler_ok_def limits)
  then have "length [] + length (os_critical s) \<le> kOutboundCancellationBatchCapacity"
    by (simp add: limits)
  from clear_fold [OF this, of "os_estop_triggered s"] len show ?thesis
    by (cases s) (auto simp: clearForSessionEnd_def batch_append_def limits split: option.split)
qed

lemma clearForSessionEnd_ok: "scheduler_ok s \<Longrightarrow> scheduler_ok (snd (clearForSessionEnd s))"
  by (subst clearForSessionEnd_eq) (auto simp: scheduler_ok_def)

section \<open>Properties\<close>


definition sample_queue :: outbound_scheduler where
  "sample_queue =
     snd (enqueueCritical EstopAck (Some [LF]) (snd (enqueueCritical CommandResponse (Some [LF]) new_scheduler)))"


text \<open>
  A critical line is queued exactly when it is valid and fewer than four wait; it then goes
  to the end of its own lane and the other lanes stay as they are. Otherwise the queue is
  unchanged, and a full queue asks for teardown rather than dropping anything. The invariant
  (at most four entries, every one a valid line with the priority of its kind) is kept.
\<close>

theorem enqueueCritical_joins_lane:
  assumes "scheduler_ok s"
  shows "(case enqueueCritical kind line s of (result, s') \<Rightarrow>
     scheduler_ok s' \<and> os_telemetry s' = os_telemetry s \<and>
     result = (if \<not> critical_line kind line then Invalid_Line
               else if length (os_critical s) < 4 then Queued else TeardownRequested) \<and>
     (if result = Queued
      then lane p (os_critical s') = lane p (os_critical s) @
        (if p = priorityFor kind
         then [\<lparr>ce_kind = kind, ce_priority = p, ce_bytes = the line\<rparr>] else [])
      else s' = s))"
proof -
  have "scheduler_ok (snd (enqueueCritical kind line s))" by (rule enqueueCritical_ok [OF assms])
  then show ?thesis
    by (auto simp: enqueueCritical_def critical_line_def lane_def limits)
qed

lemma enqueueCritical_joins_lane_witness:
  "scheduler_ok (snd (enqueueCritical EstopAck (Some [LF]) new_scheduler))"
  using enqueueCritical_joins_lane [OF new_scheduler_ok, of EstopAck "Some [LF]" Safety_Priority]
  by (auto split: prod.splits)

text \<open>
  The end of a session accounts for every queued line: the batch reports each critical entry
  in order and then the telemetry line as canceled, nothing is dropped from it, the queue is
  empty afterwards, and an \<open>estop_triggered\<close> event that was queued is pending again.
\<close>

theorem clearForSessionEnd_accounts:
  assumes "scheduler_ok s"
  shows "clearForSessionEnd s =
     (map (\<lambda>e. canceled (ce_kind e)) (os_critical s) @
        (if os_telemetry s = None then [] else [canceled Telemetry_Line]),
      \<lparr>os_critical = [], os_telemetry = None,
       os_estop_triggered =
         (if EstopTriggered \<in> ce_kind ` set (os_critical s) then PendingNotQueued
          else os_estop_triggered s)\<rparr>)"
  using clearForSessionEnd_eq [OF assms] by (simp add: comp_def)

lemma clearForSessionEnd_accounts_witness:
  "clearForSessionEnd new_scheduler = ([], new_scheduler)"
  using clearForSessionEnd_accounts [OF new_scheduler_ok] by (simp add: new_scheduler_def)

end
