(* ===== verification/Utf8.thy ===== *)
theory Utf8
  imports Prelude
begin

text \<open>
  The UTF-8 check InboundParser runs on every inbound line (\<open>isValidUtf8\<close> in
  \<open>src/core/InboundParser.h\<close>), against the encoding it is meant to recognise: a line passes
  exactly when it is the encoding of a sequence of Unicode scalar values.
\<close>

section \<open>The recogniser\<close>

definition inRange :: "char \<Rightarrow> nat \<Rightarrow> nat \<Rightarrow> bool" where
  "inRange byte low high \<longleftrightarrow> low \<le> of_char byte \<and> of_char byte \<le> high"

definition isContinuation :: "char \<Rightarrow> bool" where
  "isContinuation byte \<longleftrightarrow> inRange byte 0x80 0xBF"

text \<open>
  The loop keeps an index into the line; here the argument is what is left from that index. A
  branch that looks past the end (\<open>i + k >= size\<close>) is the pattern with fewer bytes.
\<close>

fun isValidUtf8 :: "bytes \<Rightarrow> bool" where
  "isValidUtf8 [] = True"
| "isValidUtf8 (b # s) =
     (let c = (of_char b :: nat) in
      if c \<le> 0x7F then isValidUtf8 s
      else if 0xC2 \<le> c \<and> c \<le> 0xDF then
        (case s of b1 # s' \<Rightarrow> if isContinuation b1 then isValidUtf8 s' else False | _ \<Rightarrow> False)
      else if c = 0xE0 then
        (case s of b1 # b2 # s' \<Rightarrow>
           if inRange b1 0xA0 0xBF \<and> isContinuation b2 then isValidUtf8 s' else False
         | _ \<Rightarrow> False)
      else if (0xE1 \<le> c \<and> c \<le> 0xEC) \<or> (0xEE \<le> c \<and> c \<le> 0xEF) then
        (case s of b1 # b2 # s' \<Rightarrow>
           if isContinuation b1 \<and> isContinuation b2 then isValidUtf8 s' else False
         | _ \<Rightarrow> False)
      else if c = 0xED then
        (case s of b1 # b2 # s' \<Rightarrow>
           if inRange b1 0x80 0x9F \<and> isContinuation b2 then isValidUtf8 s' else False
         | _ \<Rightarrow> False)
      else if c = 0xF0 then
        (case s of b1 # b2 # b3 # s' \<Rightarrow>
           if inRange b1 0x90 0xBF \<and> isContinuation b2 \<and> isContinuation b3 then isValidUtf8 s'
           else False
         | _ \<Rightarrow> False)
      else if 0xF1 \<le> c \<and> c \<le> 0xF3 then
        (case s of b1 # b2 # b3 # s' \<Rightarrow>
           if isContinuation b1 \<and> isContinuation b2 \<and> isContinuation b3 then isValidUtf8 s'
           else False
         | _ \<Rightarrow> False)
      else if c = 0xF4 then
        (case s of b1 # b2 # b3 # s' \<Rightarrow>
           if inRange b1 0x80 0x8F \<and> isContinuation b2 \<and> isContinuation b3 then isValidUtf8 s'
           else False
         | _ \<Rightarrow> False)
      else False)"

section \<open>The encoding\<close>

definition scalar_value :: "nat \<Rightarrow> bool" where
  "scalar_value cp \<longleftrightarrow> cp < 0x110000 \<and> \<not> (0xD800 \<le> cp \<and> cp < 0xE000)"

definition utf8_encode :: "nat \<Rightarrow> bytes" where
  "utf8_encode cp =
     (if cp < 0x80 then [char_of cp]
      else if cp < 0x800 then
        [char_of (0xC0 + cp div 64), char_of (0x80 + cp mod 64)]
      else if cp < 0x10000 then
        [char_of (0xE0 + cp div 4096), char_of (0x80 + (cp div 64) mod 64),
         char_of (0x80 + cp mod 64)]
      else
        [char_of (0xF0 + cp div 262144), char_of (0x80 + (cp div 4096) mod 64),
         char_of (0x80 + (cp div 64) mod 64), char_of (0x80 + cp mod 64)])"

lemma of_char_small: "n < 256 \<Longrightarrow> of_char (char_of n :: char) = (n :: nat)"
  by simp

lemma continuation_of: "isContinuation (char_of (0x80 + n mod 64 :: nat))"
proof -
  have "n mod 64 < 64" by simp
  then have "of_char (char_of (0x80 + n mod 64) :: char) = 0x80 + n mod 64"
    by (intro of_char_small) arith
  with \<open>n mod 64 < 64\<close> show ?thesis by (simp add: isContinuation_def inRange_def)
qed

lemma encode_2_valid:
  "0x80 \<le> cp \<Longrightarrow> cp < 0x800 \<Longrightarrow> isValidUtf8 s \<Longrightarrow> isValidUtf8 (utf8_encode cp @ s)"
proof -
  assume cp: "0x80 \<le> cp" "cp < 0x800" and s: "isValidUtf8 s"
  then have d: "2 \<le> cp div 64" "cp div 64 < 32" by auto
  then have c: "of_char (char_of (0xC0 + cp div 64) :: char) = 0xC0 + cp div 64"
    by (intro of_char_small) arith
  have e: "utf8_encode cp = [char_of (0xC0 + cp div 64), char_of (0x80 + cp mod 64)]"
    using cp by (simp add: utf8_encode_def)
  show ?thesis unfolding e isValidUtf8.simps append_Cons append_Nil Let_def c
    using d s by (simp add: continuation_of)
qed

lemma encode_3_valid:
  assumes cp: "0x800 \<le> cp" "cp < 0x10000" "\<not> (0xD800 \<le> cp \<and> cp < 0xE000)" and s: "isValidUtf8 s"
  shows "isValidUtf8 (utf8_encode cp @ s)"
proof -
  define q where "q = cp div 4096"
  define r where "r = (cp div 64) mod 64"
  have q: "q < 16" and r: "r < 64" using cp by (auto simp: q_def r_def)
  have split: "cp div 64 = 64 * q + r" by (simp add: q_def r_def div_mult2_eq [of cp 64 64, simplified])
  then have low: "q = 0 \<longrightarrow> 32 \<le> r" using cp(1) by auto
  have sur: "q = 13 \<longrightarrow> r < 32"
  proof
    assume "q = 13"
    show "r < 32"
    proof (rule ccontr)
      assume "\<not> r < 32"
      then have "864 \<le> cp div 64" "cp div 64 < 896" using split r \<open>q = 13\<close> by auto
      then have "0xD800 \<le> cp" "cp < 0xE000" by auto
      with cp(3) show False by simp
    qed
  qed
  have c: "of_char (char_of (0xE0 + q) :: char) = 0xE0 + q" using q by (intro of_char_small) arith
  have c1: "of_char (char_of (0x80 + r) :: char) = 0x80 + r" using r by (intro of_char_small) arith
  have e: "utf8_encode cp = [char_of (0xE0 + q), char_of (0x80 + r), char_of (0x80 + cp mod 64)]"
    using cp by (simp add: utf8_encode_def q_def r_def)
  have k1: "isContinuation (char_of (0x80 + r))" using continuation_of [of "cp div 64"] by (simp add: r_def)
  have in1: "inRange (char_of (0x80 + r)) a b \<longleftrightarrow> a \<le> 0x80 + r \<and> 0x80 + r \<le> b" for a b
    unfolding inRange_def c1 by simp
  consider "q = 0" | "q = 13" | "1 \<le> q \<and> q \<le> 12 \<or> 14 \<le> q \<and> q \<le> 15" using q by arith
  then show ?thesis unfolding e isValidUtf8.simps append_Cons append_Nil Let_def c
    using low sur r s by cases (auto simp: in1 k1 continuation_of)
qed

lemma encode_4_valid:
  assumes cp: "0x10000 \<le> cp" "cp < 0x110000" and s: "isValidUtf8 s"
  shows "isValidUtf8 (utf8_encode cp @ s)"
proof -
  define q where "q = cp div 262144"
  define r where "r = (cp div 4096) mod 64"
  have q: "q < 5" and r: "r < 64" using cp by (auto simp: q_def r_def)
  have split: "cp div 4096 = 64 * q + r" by (simp add: q_def r_def div_mult2_eq [of cp 4096 64, simplified])
  moreover have "16 \<le> cp div 4096" "cp div 4096 < 272" using cp by auto
  ultimately have low: "q = 0 \<longrightarrow> 16 \<le> r" and high: "q = 4 \<longrightarrow> r < 16" by auto
  have c: "of_char (char_of (0xF0 + q) :: char) = 0xF0 + q" using q by (intro of_char_small) arith
  have c1: "of_char (char_of (0x80 + r) :: char) = 0x80 + r" using r by (intro of_char_small) arith
  have e: "utf8_encode cp = [char_of (0xF0 + q), char_of (0x80 + r),
      char_of (0x80 + (cp div 64) mod 64), char_of (0x80 + cp mod 64)]"
    using cp by (simp add: utf8_encode_def q_def r_def)
  have k1: "isContinuation (char_of (0x80 + r))"
    using continuation_of [of "cp div 4096"] by (simp add: r_def)
  have in1: "inRange (char_of (0x80 + r)) a b \<longleftrightarrow> a \<le> 0x80 + r \<and> 0x80 + r \<le> b" for a b
    unfolding inRange_def c1 by simp
  consider "q = 0" | "q = 4" | "1 \<le> q \<and> q \<le> 3" using q by arith
  then show ?thesis unfolding e isValidUtf8.simps append_Cons append_Nil Let_def c
    using low high r s by cases (auto simp: in1 k1 continuation_of)
qed

lemma encode_valid: "scalar_value cp \<Longrightarrow> isValidUtf8 s \<Longrightarrow> isValidUtf8 (utf8_encode cp @ s)"
proof -
  assume cp: "scalar_value cp" and s: "isValidUtf8 s"
  consider "cp < 0x80" | "0x80 \<le> cp \<and> cp < 0x800" | "0x800 \<le> cp \<and> cp < 0x10000" | "0x10000 \<le> cp"
    by arith
  then show ?thesis
  proof cases
    case 1
    then show ?thesis using s by (simp add: utf8_encode_def)
  qed (use cp s encode_2_valid encode_3_valid encode_4_valid in \<open>auto simp: scalar_value_def\<close>)
qed

section \<open>Decoding what the recogniser accepts\<close>

lemma continuation_char:
  "isContinuation b \<longleftrightarrow> (\<exists>k<64. b = char_of (0x80 + k :: nat))"
proof
  assume "isContinuation b"
  then have "of_char b - 0x80 < (64 :: nat)" "b = char_of (0x80 + (of_char b - 0x80) :: nat)"
    by (auto simp: isContinuation_def inRange_def)
  then show "\<exists>k<64. b = char_of (0x80 + k :: nat)" by blast
qed (auto simp: isContinuation_def inRange_def)

lemma base64_parts:
  fixes a k :: nat
  shows "k < 64 \<Longrightarrow> (64 * a + k) div 64 = a" and "k < 64 \<Longrightarrow> (64 * a + k) mod 64 = k"
  by simp_all

lemma decode_2:
  fixes h k :: nat
  shows "2 \<le> h \<Longrightarrow> h < 32 \<Longrightarrow> k < 64 \<Longrightarrow>
     \<exists>cp. scalar_value cp \<and> utf8_encode cp = [char_of (0xC0 + h), char_of (0x80 + k)]"
  by (rule exI [of _ "64 * h + k"]) (simp add: scalar_value_def utf8_encode_def)

lemma decode_3:
  fixes h j k :: nat
  shows "h < 16 \<Longrightarrow> j < 64 \<Longrightarrow> k < 64 \<Longrightarrow> (h = 0 \<longrightarrow> 32 \<le> j) \<Longrightarrow> (h = 13 \<longrightarrow> j < 32) \<Longrightarrow>
     \<exists>cp. scalar_value cp \<and>
       utf8_encode cp = [char_of (0xE0 + h), char_of (0x80 + j), char_of (0x80 + k)]"
proof -
  assume b: "h < 16" "j < 64" "k < 64" "h = 0 \<longrightarrow> 32 \<le> j" "h = 13 \<longrightarrow> j < 32"
  define cp where "cp = 64 * (64 * h + j) + k"
  have parts: "cp mod 64 = k" "cp div 64 = 64 * h + j"
    using b(3) by (simp_all only: cp_def base64_parts)
  have "cp div 4096 = cp div 64 div 64" by (simp add: div_mult2_eq [of cp 64 64, simplified])
  then have top: "cp div 4096 = h" using b(2) by (simp only: parts base64_parts)
  have mid: "(64 * h + j) mod 64 = j" using b(2) by (rule base64_parts)
  have "cp = 4096 * h + 64 * j + k" by (simp add: cp_def)
  then have range: "0x800 \<le> cp" "cp < 0x10000"
    and low: "h \<le> 12 \<longrightarrow> cp < 0xD800" and at: "h = 13 \<longrightarrow> cp < 0xD800"
    and high: "14 \<le> h \<longrightarrow> 0xE000 \<le> cp"
    using b by auto
  have "h \<le> 12 \<or> h = 13 \<or> 14 \<le> h" by arith
  with low at high have sur: "cp < 0xD800 \<or> 0xE000 \<le> cp" by blast
  have "utf8_encode cp = [char_of (0xE0 + h), char_of (0x80 + j), char_of (0x80 + k)]"
    using range unfolding utf8_encode_def parts(1) top unfolding parts(2) mid by auto
  moreover have "scalar_value cp" using range sur by (auto simp: scalar_value_def)
  ultimately show ?thesis by blast
qed

lemma decode_4:
  fixes h i j k :: nat
  shows "h < 5 \<Longrightarrow> i < 64 \<Longrightarrow> j < 64 \<Longrightarrow> k < 64 \<Longrightarrow> (h = 0 \<longrightarrow> 16 \<le> i) \<Longrightarrow> (h = 4 \<longrightarrow> i < 16) \<Longrightarrow>
     \<exists>cp. scalar_value cp \<and>
       utf8_encode cp =
         [char_of (0xF0 + h), char_of (0x80 + i), char_of (0x80 + j), char_of (0x80 + k)]"
proof -
  assume b: "h < 5" "i < 64" "j < 64" "k < 64" "h = 0 \<longrightarrow> 16 \<le> i" "h = 4 \<longrightarrow> i < 16"
  define cp where "cp = 64 * (64 * (64 * h + i) + j) + k"
  have parts: "cp mod 64 = k" "cp div 64 = 64 * (64 * h + i) + j"
    using b(4) by (simp_all only: cp_def base64_parts)
  have "cp div 4096 = cp div 64 div 64" by (simp add: div_mult2_eq [of cp 64 64, simplified])
  then have top: "cp div 4096 = 64 * h + i" using b(3) by (simp only: parts base64_parts)
  have "cp div 262144 = cp div 4096 div 64" by (simp add: div_mult2_eq [of cp 4096 64, simplified])
  then have top': "cp div 262144 = h" using b(2) by (simp only: top base64_parts)
  have mid: "(64 * (64 * h + i) + j) mod 64 = j" "(64 * h + i) mod 64 = i"
    using b(2,3) by (simp_all only: base64_parts)
  have "cp = 262144 * h + 4096 * i + 64 * j + k" by (simp add: cp_def)
  then have range: "0x10000 \<le> cp" "cp < 0x110000" using b by linarith+
  then have "utf8_encode cp =
      [char_of (0xF0 + h), char_of (0x80 + i), char_of (0x80 + j), char_of (0x80 + k)]"
    unfolding utf8_encode_def top' top parts(1) unfolding parts(2) mid by auto
  moreover have "scalar_value cp" using range by (auto simp: scalar_value_def)
  ultimately show ?thesis by blast
qed

lemma inRange_char:
  "inRange b (0x80 + lo) (0x80 + hi) \<Longrightarrow> hi < 64 \<Longrightarrow>
     \<exists>k<64. b = char_of (0x80 + k :: nat) \<and> lo \<le> k \<and> k \<le> hi"
  by (rule exI [of _ "of_char b - 0x80"]) (auto simp: inRange_def)

lemma lead_char:
  "lo \<le> (of_char b :: nat) \<Longrightarrow> of_char b \<le> lo + n \<Longrightarrow> \<exists>h\<le>n. b = char_of (lo + h :: nat)"
  by (rule exI [of _ "of_char b - lo"]) auto

definition encoded_head :: "bytes \<Rightarrow> bool" where
  "encoded_head s \<longleftrightarrow>
     (\<exists>cp s'. scalar_value cp \<and> s = utf8_encode cp @ s' \<and> isValidUtf8 s')"

lemma encoded_headI: "scalar_value cp \<Longrightarrow> isValidUtf8 s' \<Longrightarrow> encoded_head (utf8_encode cp @ s')"
  by (auto simp: encoded_head_def)

lemma head_2:
  assumes "0xC2 \<le> (of_char b :: nat)" "of_char b \<le> (0xDF :: nat)" "isContinuation b1" "isValidUtf8 s"
  shows "encoded_head (b # b1 # s)"
proof -
  obtain h where h: "h \<le> 29" "b = char_of (0xC2 + h :: nat)" using lead_char [of "0xC2" b 29] assms by auto
  obtain k where k: "k < 64" "b1 = char_of (0x80 + k :: nat)" using assms(3) by (auto simp: continuation_char)
  obtain cp where "scalar_value cp" "utf8_encode cp = [char_of (0xC0 + (h + 2)), char_of (0x80 + k)]"
    using decode_2 [of "h + 2" k] h k by auto
  then show ?thesis using encoded_headI [of cp s] assms(4) h k by (simp add: add.commute)
qed

lemma head_3:
  assumes h: "h < 16" "b = char_of (0xE0 + h :: nat)"
    and b1: "inRange b1 (0x80 + lo) (0x80 + hi)" "hi < 64"
    and "h = 0 \<longrightarrow> 32 \<le> lo" and "h = 13 \<longrightarrow> hi < 32"
    and b2: "isContinuation b2" and s: "isValidUtf8 s"
  shows "encoded_head (b # b1 # b2 # s)"
proof -
  obtain j where j: "j < 64" "b1 = char_of (0x80 + j :: nat)" "lo \<le> j" "j \<le> hi"
    using inRange_char [OF b1] by blast
  obtain k where k: "k < 64" "b2 = char_of (0x80 + k :: nat)" using b2 by (auto simp: continuation_char)
  obtain cp where "scalar_value cp"
    "utf8_encode cp = [char_of (0xE0 + h), char_of (0x80 + j), char_of (0x80 + k)]"
    using decode_3 [of h j k] h j k assms(5,6) by auto
  then show ?thesis using encoded_headI [of cp s] s h j k by simp
qed

lemma head_4:
  assumes h: "h < 5" "b = char_of (0xF0 + h :: nat)"
    and b1: "inRange b1 (0x80 + lo) (0x80 + hi)" "hi < 64"
    and "h = 0 \<longrightarrow> 16 \<le> lo" and "h = 4 \<longrightarrow> hi < 16"
    and b2: "isContinuation b2" and b3: "isContinuation b3" and s: "isValidUtf8 s"
  shows "encoded_head (b # b1 # b2 # b3 # s)"
proof -
  obtain i where i: "i < 64" "b1 = char_of (0x80 + i :: nat)" "lo \<le> i" "i \<le> hi"
    using inRange_char [OF b1] by blast
  obtain j where j: "j < 64" "b2 = char_of (0x80 + j :: nat)" using b2 by (auto simp: continuation_char)
  obtain k where k: "k < 64" "b3 = char_of (0x80 + k :: nat)" using b3 by (auto simp: continuation_char)
  obtain cp where "scalar_value cp"
    "utf8_encode cp = [char_of (0xF0 + h), char_of (0x80 + i), char_of (0x80 + j), char_of (0x80 + k)]"
    using decode_4 [of h i j k] h i j k assms(5,6) by auto
  then show ?thesis using encoded_headI [of cp s] s h i j k by simp
qed

text \<open>Every accepted line starts with the encoding of a scalar value.\<close>

lemma valid_head:
  assumes "isValidUtf8 (b # s)"
  shows "encoded_head (b # s)"
proof -
  define c where "c = (of_char b :: nat)"
  have bc: "b = char_of c" by (simp add: c_def)
  note v = assms [unfolded isValidUtf8.simps Let_def c_def [symmetric]]
  consider "c \<le> 0x7F" | "0xC2 \<le> c \<and> c \<le> 0xDF" | "c = 0xE0"
    | "(0xE1 \<le> c \<and> c \<le> 0xEC) \<or> (0xEE \<le> c \<and> c \<le> 0xEF)" | "c = 0xED"
    | "c = 0xF0" | "0xF1 \<le> c \<and> c \<le> 0xF3" | "c = 0xF4"
    using v by (force split: if_splits)
  then show ?thesis
  proof cases
    case 1
    with v have "isValidUtf8 s" by simp
    moreover have "utf8_encode c = [b]" using 1 bc by (simp add: utf8_encode_def)
    ultimately show ?thesis
      using 1 encoded_headI [of c s] by (simp add: scalar_value_def)
  next
    case 2
    with v obtain b1 s' where "s = b1 # s'" "isContinuation b1" "isValidUtf8 s'"
      by (auto split: list.splits if_splits)
    then show ?thesis using 2 head_2 [of b b1 s'] by (simp add: c_def)
  next
    case 3
    with v obtain b1 b2 s' where "s = b1 # b2 # s'" "inRange b1 0xA0 0xBF" "isContinuation b2"
      "isValidUtf8 s'" by (auto split: list.splits if_splits)
    then show ?thesis using 3 bc head_3 [of 0 b b1 32 63 b2 s'] by simp
  next
    case 4
    with v obtain b1 b2 s' where "s = b1 # b2 # s'" "isContinuation b1" "isContinuation b2"
      "isValidUtf8 s'" by (auto split: list.splits if_splits)
    moreover have "c - 0xE0 < 16" "b = char_of (0xE0 + (c - 0xE0))" "c - 0xE0 \<noteq> 0" "c - 0xE0 \<noteq> 13"
      using 4 bc by auto
    ultimately show ?thesis using head_3 [of "c - 0xE0" b b1 0 63 b2 s'] by (simp add: isContinuation_def)
  next
    case 5
    with v obtain b1 b2 s' where "s = b1 # b2 # s'" "inRange b1 0x80 0x9F" "isContinuation b2"
      "isValidUtf8 s'" by (auto split: list.splits if_splits)
    then show ?thesis using 5 bc head_3 [of 13 b b1 0 31 b2 s'] by simp
  next
    case 6
    with v obtain b1 b2 b3 s' where "s = b1 # b2 # b3 # s'" "inRange b1 0x90 0xBF"
      "isContinuation b2" "isContinuation b3" "isValidUtf8 s'"
      by (auto split: list.splits if_splits)
    then show ?thesis using 6 bc head_4 [of 0 b b1 16 63 b2 b3 s'] by simp
  next
    case 7
    with v obtain b1 b2 b3 s' where "s = b1 # b2 # b3 # s'" "isContinuation b1"
      "isContinuation b2" "isContinuation b3" "isValidUtf8 s'"
      by (auto split: list.splits if_splits)
    moreover have "c - 0xF0 < 5" "b = char_of (0xF0 + (c - 0xF0))" "c - 0xF0 \<noteq> 0" "c - 0xF0 \<noteq> 4"
      using 7 bc by auto
    ultimately show ?thesis
      using head_4 [of "c - 0xF0" b b1 0 63 b2 b3 s'] by (simp add: isContinuation_def)
  next
    case 8
    with v obtain b1 b2 b3 s' where "s = b1 # b2 # b3 # s'" "inRange b1 0x80 0x8F"
      "isContinuation b2" "isContinuation b3" "isValidUtf8 s'"
      by (auto split: list.splits if_splits)
    then show ?thesis using 8 bc head_4 [of 4 b b1 0 15 b2 b3 s'] by simp
  qed
qed

lemma valid_encoding:
  "isValidUtf8 s \<Longrightarrow> \<exists>cps. list_all scalar_value cps \<and> s = concat (map utf8_encode cps)"
proof (induction "length s" arbitrary: s rule: less_induct)
  case less
  show ?case
  proof (cases s)
    case Nil
    then have "list_all scalar_value [] \<and> s = concat (map utf8_encode [])" by simp
    then show ?thesis by blast
  next
    case (Cons b t)
    with less.prems valid_head [of b t] obtain cp s'
      where h: "scalar_value cp" "s = utf8_encode cp @ s'" "isValidUtf8 s'"
      by (auto simp: encoded_head_def)
    have "utf8_encode cp \<noteq> []" by (simp add: utf8_encode_def)
    with h have "length s' < length s" by simp
    from less.hyps [OF this h(3)] obtain cps
      where "list_all scalar_value cps \<and> s' = concat (map utf8_encode cps)" by blast
    with h have "list_all scalar_value (cp # cps) \<and> s = concat (map utf8_encode (cp # cps))" by simp
    then show ?thesis by blast
  qed
qed

lemma encoding_valid: "list_all scalar_value cps \<Longrightarrow> isValidUtf8 (concat (map utf8_encode cps))"
  by (induction cps) (simp_all add: encode_valid)

text \<open>
  C37: isValidUtf8 accepts a line exactly when the line is the UTF-8 encoding of a sequence of
  Unicode scalar values: overlong forms, surrogates, values above U+10FFFF, truncated and stray
  continuation bytes are all refused, and nothing else is.
\<close>

theorem isValidUtf8_iff:
  "isValidUtf8 s = (\<exists>cps. list_all scalar_value cps \<and> s = concat (map utf8_encode cps))"
  using valid_encoding encoding_valid by blast

end
