(* ===== verification/InboundParser.thy ===== *)
theory InboundParser
  imports JsonDocument Utf8 Protocol Counters
begin

text \<open>
  The inbound parser, \<open>src/core/InboundParser.h\<close>: one line of the wire becomes an outcome that
  says whether it is usable, which message it is, and what the message carries.

  The ArduinoJson call \<open>deserializeJson(document_, line.data, NestingLimit(8))\<close> is the parameter
  \<open>deserialize\<close>. It is given a non-const pointer and no size, so it reads up to the first NUL.

  The lemmas say what each outcome means for the document and that the counter
  \<open>invalid_json\<close> counts exactly the lines that get no answer.
\<close>

section \<open>Outcomes\<close>

datatype parse_outcome_kind = Valid | Malformed | StructurallyInvalid | UnsupportedType

datatype inbound_message_kind = No_Message | Command_Message | Estop_Message | Heartbeat_Message

text \<open>\<open>pc_args_bound\<close>: the \<open>CommandArgs\<close> points to the parser's backing rather than being default.\<close>

record parsed_command =
  pc_seq :: u64
  pc_controller_ts :: f64
  pc_command :: c_string
  pc_args_bound :: bool

record parsed_estop =
  pe_source :: c_string
  pe_target :: c_string

record parsed_heartbeat =
  ph_seq :: u64
  ph_source :: c_string
  ph_target :: c_string

record parse_outcome =
  po_kind :: parse_outcome_kind
  po_message_kind :: inbound_message_kind
  po_command :: parsed_command
  po_estop :: parsed_estop
  po_heartbeat :: parsed_heartbeat
  po_has_seq :: bool
  po_seq :: u64
  po_has_controller_ts :: bool
  po_controller_ts :: f64
  po_has_suggested_error :: bool
  po_suggested_error :: board_error_code

definition new_outcome :: parse_outcome where
  "new_outcome =
     \<lparr>po_kind = Malformed, po_message_kind = No_Message,
      po_command = \<lparr>pc_seq = 0, pc_controller_ts = 0, pc_command = None, pc_args_bound = False\<rparr>,
      po_estop = \<lparr>pe_source = None, pe_target = None\<rparr>,
      po_heartbeat = \<lparr>ph_seq = 0, ph_source = None, ph_target = None\<rparr>,
      po_has_seq = False, po_seq = 0, po_has_controller_ts = False, po_controller_ts = 0,
      po_has_suggested_error = False, po_suggested_error = InternalError\<rparr>"

section \<open>The parser\<close>

text \<open>
  The parser's state is the argument backing and the line it holds; the document lives only as
  long as the backing refers to it.
\<close>

record inbound_parser =
  ip_args_backing :: args_backing
  ip_payload :: c_string

definition invalidate :: "inbound_parser \<Rightarrow> inbound_parser" where
  "invalidate p = p\<lparr>ip_args_backing := no_args, ip_payload := None\<rparr>"

definition new_parser :: inbound_parser where
  "new_parser = \<lparr>ip_args_backing = no_args, ip_payload = None\<rparr>"

type_synonym parse_state = "counters \<times> inbound_parser"

definition markInvalidWithoutResponse ::
    "parse_outcome \<Rightarrow> parse_state \<Rightarrow> parse_outcome \<times> parse_state" where
  "markInvalidWithoutResponse o' st =
     (case st of (c, p) \<Rightarrow> (o'\<lparr>po_kind := Malformed\<rparr>, (increment invalid_json_update c, p)))"

definition structuralError :: "parse_outcome \<Rightarrow> board_error_code \<Rightarrow> parse_outcome" where
  "structuralError o' code =
     o'\<lparr>po_kind := StructurallyInvalid, po_has_suggested_error := True, po_suggested_error := code\<rparr>"

definition parseCommand ::
    "(bytes \<times> json) list \<Rightarrow> parse_outcome \<Rightarrow> parse_state \<Rightarrow> parse_outcome \<times> parse_state" where
  "parseCommand root o0 st =
     (let o1 = o0\<lparr>po_message_kind := Command_Message\<rparr> in
      case getSeq (member kSeq root) of
        None \<Rightarrow> markInvalidWithoutResponse o1 st
      | Some seq \<Rightarrow>
          let o2 = o1\<lparr>po_has_seq := True, po_seq := seq\<rparr> in
          if \<not> containsKey kControllerTs root then (structuralError o2 MissingField, st)
          else case getFiniteDouble (member kControllerTs root) of
            None \<Rightarrow> (structuralError o2 InvalidType, st)
          | Some ts \<Rightarrow>
              let o3 = o2\<lparr>po_has_controller_ts := True, po_controller_ts := ts\<rparr> in
              if \<not> containsKey kSource root \<or> \<not> containsKey kTarget root \<or>
                 \<not> containsKey kCommand root \<or> \<not> containsKey kArgs root
              then (structuralError o3 MissingField, st)
              else case (getString (member kSource root), getString (member kTarget root),
                         getString (member kCommand root), getObject (member kArgs root)) of
                (Some source, Some target, Some command, Some args) \<Rightarrow>
                  (case st of (c, p) \<Rightarrow>
                     (o3\<lparr>po_kind := Valid,
                         po_command := \<lparr>pc_seq = seq, pc_controller_ts = ts,
                           pc_command = Some command, pc_args_bound = True\<rparr>\<rparr>,
                      (c, p\<lparr>ip_args_backing := \<lparr>ab_args = Some args, ab_active = True\<rparr>\<rparr>)))
              | _ \<Rightarrow> (structuralError o3 InvalidType, st))"

definition parseEstop ::
    "(bytes \<times> json) list \<Rightarrow> parse_outcome \<Rightarrow> parse_state \<Rightarrow> parse_outcome \<times> parse_state" where
  "parseEstop root o0 st =
     (let o1 = o0\<lparr>po_message_kind := Estop_Message\<rparr> in
      if \<not> containsKey kSource root \<or> \<not> containsKey kTarget root
      then markInvalidWithoutResponse o1 st
      else case (getString (member kSource root), getString (member kTarget root)) of
        (Some source, Some target) \<Rightarrow>
          (o1\<lparr>po_kind := Valid,
              po_estop := \<lparr>pe_source = Some source, pe_target = Some target\<rparr>\<rparr>, st)
      | _ \<Rightarrow> markInvalidWithoutResponse o1 st)"

definition parseHeartbeat ::
    "(bytes \<times> json) list \<Rightarrow> parse_outcome \<Rightarrow> parse_state \<Rightarrow> parse_outcome \<times> parse_state" where
  "parseHeartbeat root o0 st =
     (let o1 = o0\<lparr>po_message_kind := Heartbeat_Message\<rparr> in
      case getSeq (member kSeq root) of
        None \<Rightarrow> markInvalidWithoutResponse o1 st
      | Some seq \<Rightarrow>
          let o2 = o1\<lparr>po_has_seq := True, po_seq := seq\<rparr> in
          if \<not> containsKey kSource root \<or> \<not> containsKey kTarget root
          then (structuralError o2 MissingField, st)
          else case (getString (member kSource root), getString (member kTarget root)) of
            (Some source, Some target) \<Rightarrow>
              (o2\<lparr>po_kind := Valid,
                  po_heartbeat := \<lparr>ph_seq = seq, ph_source = Some source,
                    ph_target = Some target\<rparr>\<rparr>, st)
          | _ \<Rightarrow> (structuralError o2 InvalidType, st))"

text \<open>An inbound line is a pointer that may be null; \<open>deserialize\<close> sees it up to the first NUL.\<close>

definition parse ::
    "(bytes \<Rightarrow> json option) \<Rightarrow> c_string \<Rightarrow> parse_state \<Rightarrow> parse_outcome \<times> parse_state" where
  "parse deserialize line st =
     (case st of (c, p0) \<Rightarrow>
        let p = (invalidate p0)\<lparr>ip_payload := line\<rparr> in
        case line of
          None \<Rightarrow> (new_outcome, (increment invalid_json_update c, p))
        | Some data \<Rightarrow>
            if \<not> isValidUtf8 data then (new_outcome, (increment invalid_json_update c, p))
            else case deserialize (cstr data) of
              Some (JObject root) \<Rightarrow>
                (case getString (member kType root) of
                   None \<Rightarrow> markInvalidWithoutResponse new_outcome (c, p)
                 | Some type \<Rightarrow>
                     if strcmp_eq type (toString_message_type Command)
                     then parseCommand root new_outcome (c, p)
                     else if strcmp_eq type (toString_message_type Estop)
                     then parseEstop root new_outcome (c, p)
                     else if strcmp_eq type (toString_message_type Heartbeat)
                     then parseHeartbeat root new_outcome (c, p)
                     else (new_outcome\<lparr>po_kind := UnsupportedType\<rparr>,
                           (increment invalid_json_update c, p)))
            | _ \<Rightarrow> (new_outcome, (increment invalid_json_update c, p)))"

text \<open>The \<open>CommandArgs\<close> of a parsed command, as a handler that runs now sees it.\<close>

definition command_args_of :: "inbound_parser \<Rightarrow> parsed_command \<Rightarrow> command_args" where
  "command_args_of p command =
     (if pc_args_bound command then Some (ip_args_backing p) else None)"

section \<open>What the outcomes mean\<close>

text \<open>
  The message shapes, declared: for each message type the members it must have and the test each
  must pass. \<open>shape_ok\<close> is the whole test, \<open>shape_error\<close> the error of the first stage that fails.
\<close>

type_synonym required = "bytes \<times> (json \<Rightarrow> bool)"

definition is_string :: "json \<Rightarrow> bool" where "is_string v \<longleftrightarrow> getString v \<noteq> None"
definition is_seq :: "json \<Rightarrow> bool" where "is_seq v \<longleftrightarrow> getSeq v \<noteq> None"
definition is_finite :: "json \<Rightarrow> bool" where "is_finite v \<longleftrightarrow> getFiniteDouble v \<noteq> None"
definition is_object :: "json \<Rightarrow> bool" where "is_object v \<longleftrightarrow> getObject v \<noteq> None"

fun message_stages :: "message_type \<Rightarrow> required list list" where
  "message_stages Command =
     [[(kSeq, is_seq)], [(kControllerTs, is_finite)],
      [(kSource, is_string), (kTarget, is_string), (kCommand, is_string), (kArgs, is_object)]]"
| "message_stages Estop = [[(kSource, is_string), (kTarget, is_string)]]"
| "message_stages Heartbeat = [[(kSeq, is_seq)], [(kSource, is_string), (kTarget, is_string)]]"
| "message_stages _ = []"

definition stage_error :: "(bytes \<times> json) list \<Rightarrow> required list \<Rightarrow> board_error_code option" where
  "stage_error root stage =
     (if list_ex (\<lambda>(k, t). \<not> containsKey k root) stage then Some MissingField
      else if list_ex (\<lambda>(k, t). \<not> t (member k root)) stage then Some InvalidType
      else None)"

fun first_error ::
    "(bytes \<times> json) list \<Rightarrow> required list list \<Rightarrow> nat \<Rightarrow> (nat \<times> board_error_code) option" where
  "first_error root [] n = None"
| "first_error root (stage # stages) n =
     (case stage_error root stage of
        Some e \<Rightarrow> Some (n, e)
      | None \<Rightarrow> first_error root stages (Suc n))"

text \<open>
  An error in the first stage leaves nothing to answer to: no usable \<open>seq\<close>, or an e-stop, which
  has none. A later error can be reported.
\<close>

definition expected_kind :: "(nat \<times> board_error_code) option \<Rightarrow> parse_outcome_kind" where
  "expected_kind e =
     (case e of None \<Rightarrow> Valid | Some (0, _) \<Rightarrow> Malformed | Some (Suc _, _) \<Rightarrow> StructurallyInvalid)"

lemma is_tests:
  "is_string JNull = False" "is_seq JNull = False" "is_finite JNull = False" "is_object JNull = False"
  by (simp_all add: is_string_def is_seq_def is_finite_def is_object_def getFiniteDouble_def)

lemma missing_member: "\<not> containsKey k root \<Longrightarrow> member k root = JNull"
  by (simp add: containsKey_def member_def)

lemmas shape_defs = stage_error_def is_string_def is_seq_def is_finite_def is_object_def

lemma parseCommand_kind:
  "po_kind (fst (parseCommand root o' st)) =
     expected_kind (first_error root (message_stages Command) 0)"
  by (cases "containsKey kSeq root"; cases "containsKey kControllerTs root";
      auto simp: parseCommand_def shape_defs expected_kind_def Let_def missing_member
        markInvalidWithoutResponse_def structuralError_def split: option.splits prod.splits)

lemma parseEstop_kind:
  "po_kind (fst (parseEstop root o' st)) =
     expected_kind (first_error root (message_stages Estop) 0)"
  by (auto simp: parseEstop_def shape_defs expected_kind_def Let_def missing_member
        markInvalidWithoutResponse_def structuralError_def split: option.splits prod.splits)

lemma parseHeartbeat_kind:
  "po_kind (fst (parseHeartbeat root o' st)) =
     expected_kind (first_error root (message_stages Heartbeat) 0)"
  by (cases "containsKey kSeq root";
      auto simp: parseHeartbeat_def shape_defs expected_kind_def Let_def missing_member
        markInvalidWithoutResponse_def structuralError_def split: option.splits prod.splits)

lemma parse_errors:
  "(let o' = fst (parseCommand root new_outcome st) in
      if po_has_suggested_error o' then Some (po_suggested_error o') else None) =
     (case first_error root (message_stages Command) 0 of Some (Suc n, e) \<Rightarrow> Some e | _ \<Rightarrow> None)"
  "(let o' = fst (parseEstop root new_outcome st) in
      if po_has_suggested_error o' then Some (po_suggested_error o') else None) =
     (case first_error root (message_stages Estop) 0 of Some (Suc n, e) \<Rightarrow> Some e | _ \<Rightarrow> None)"
  "(let o' = fst (parseHeartbeat root new_outcome st) in
      if po_has_suggested_error o' then Some (po_suggested_error o') else None) =
     (case first_error root (message_stages Heartbeat) 0 of Some (Suc n, e) \<Rightarrow> Some e | _ \<Rightarrow> None)"
    apply (cases "containsKey kSeq root"; cases "containsKey kControllerTs root";
      auto simp: parseCommand_def shape_defs Let_def missing_member new_outcome_def
        markInvalidWithoutResponse_def structuralError_def split: option.splits prod.splits)
   apply (auto simp: parseEstop_def shape_defs Let_def missing_member new_outcome_def
        markInvalidWithoutResponse_def structuralError_def split: option.splits prod.splits)[1]
  apply (cases "containsKey kSeq root";
      auto simp: parseHeartbeat_def shape_defs Let_def missing_member new_outcome_def
        markInvalidWithoutResponse_def structuralError_def split: option.splits prod.splits)
  done

definition unanswerable :: "parse_outcome_kind \<Rightarrow> bool" where
  "unanswerable k \<longleftrightarrow> k = Malformed \<or> k = UnsupportedType"

lemma parse_counts:
  "fst (snd (parseCommand root o' (c, p))) =
     (if unanswerable (po_kind (fst (parseCommand root o' (c, p))))
      then invalid_json_update (\<lambda>v. v + 1) c else c)"
  "fst (snd (parseEstop root o' (c, p))) =
     (if unanswerable (po_kind (fst (parseEstop root o' (c, p))))
      then invalid_json_update (\<lambda>v. v + 1) c else c)"
  "fst (snd (parseHeartbeat root o' (c, p))) =
     (if unanswerable (po_kind (fst (parseHeartbeat root o' (c, p))))
      then invalid_json_update (\<lambda>v. v + 1) c else c)"
  by (auto simp: parseCommand_def parseEstop_def parseHeartbeat_def Let_def unanswerable_def
        markInvalidWithoutResponse_def structuralError_def split: option.splits prod.splits)

text \<open>The specification of the whole parse: the message a line carries, and its first error.\<close>

definition message_type_of :: "bytes \<Rightarrow> message_type option" where
  "message_type_of type =
     find (\<lambda>t. strcmp_eq type (toString_message_type t)) [Command, Estop, Heartbeat]"

definition document_root :: "(bytes \<Rightarrow> json option) \<Rightarrow> c_string \<Rightarrow> (bytes \<times> json) list option" where
  "document_root deserialize line =
     (case line of
        None \<Rightarrow> None
      | Some data \<Rightarrow>
          if isValidUtf8 data then Option.bind (deserialize (cstr data)) getObject else None)"

definition line_error ::
    "(bytes \<times> json) list \<Rightarrow> message_type \<Rightarrow> (nat \<times> board_error_code) option" where
  "line_error root t = first_error root (message_stages t) 0"

definition line_kind :: "(bytes \<Rightarrow> json option) \<Rightarrow> c_string \<Rightarrow> parse_outcome_kind" where
  "line_kind deserialize line =
     (case document_root deserialize line of
        None \<Rightarrow> Malformed
      | Some root \<Rightarrow>
          case getString (member kType root) of
            None \<Rightarrow> Malformed
          | Some type \<Rightarrow>
              case message_type_of type of
                None \<Rightarrow> UnsupportedType
              | Some t \<Rightarrow> expected_kind (line_error root t))"

lemma message_type_of_cases:
  "message_type_of type =
     (if strcmp_eq type (toString_message_type Command) then Some Command
      else if strcmp_eq type (toString_message_type Estop) then Some Estop
      else if strcmp_eq type (toString_message_type Heartbeat) then Some Heartbeat else None)"
  by (simp add: message_type_of_def)

lemma parse_kind: "po_kind (fst (parse deserialize line st)) = line_kind deserialize line"
proof -
  obtain c p where st: "st = (c, p)" by (cases st)
  show ?thesis
    by (simp add: st parse_def line_kind_def document_root_def Let_def line_error_def
        message_type_of_cases parseCommand_kind parseEstop_kind parseHeartbeat_kind
        markInvalidWithoutResponse_def new_outcome_def Option.bind_eq_None_conv
        del: message_stages.simps split: option.split json.split)
qed

lemma parse_counter:
  "fst (snd (parse deserialize line (c, p))) =
     (if unanswerable (line_kind deserialize line)
      then invalid_json_update (\<lambda>v. v + 1) c else c)"
  unfolding parse_kind [of deserialize line "(c, p)", symmetric]
  by (simp add: parse_def Let_def parse_counts markInvalidWithoutResponse_def new_outcome_def
        unanswerable_def split: option.split json.split)

section \<open>What a usable outcome carries\<close>

lemma parse_command_valid:
  assumes "parse deserialize line st = (o', (c', p'))"
    and "po_kind o' = Valid" and "po_message_kind o' = Command_Message"
  shows "\<exists>root ms. document_root deserialize line = Some root \<and>
     getSeq (member kSeq root) = Some (pc_seq (po_command o')) \<and>
     getFiniteDouble (member kControllerTs root) = Some (pc_controller_ts (po_command o')) \<and>
     getString (member kCommand root) = pc_command (po_command o') \<and>
     pc_command (po_command o') \<noteq> None \<and>
     getObject (member kArgs root) = Some ms \<and>
     command_args_of p' (po_command o') = Some \<lparr>ab_args = Some ms, ab_active = True\<rparr>"
  using assms
  by (auto simp: parse_def document_root_def Let_def parseCommand_def parseEstop_def
      parseHeartbeat_def markInvalidWithoutResponse_def structuralError_def new_outcome_def
      command_args_of_def split: prod.splits option.splits json.splits if_splits)

lemma parse_estop_valid:
  assumes "parse deserialize line st = (o', (c', p'))"
    and "po_kind o' = Valid" and "po_message_kind o' = Estop_Message"
  shows "\<exists>root. document_root deserialize line = Some root \<and>
     pe_source (po_estop o') = getString (member kSource root) \<and>
     pe_target (po_estop o') = getString (member kTarget root)"
  using assms
  by (auto simp: parse_def document_root_def Let_def parseCommand_def parseEstop_def
      parseHeartbeat_def markInvalidWithoutResponse_def structuralError_def new_outcome_def
      split: prod.splits option.splits json.splits if_splits)

lemma parse_heartbeat_valid:
  assumes "parse deserialize line st = (o', (c', p'))"
    and "po_kind o' = Valid" and "po_message_kind o' = Heartbeat_Message"
  shows "\<exists>root. document_root deserialize line = Some root \<and>
     getSeq (member kSeq root) = Some (ph_seq (po_heartbeat o')) \<and>
     ph_source (po_heartbeat o') = getString (member kSource root) \<and>
     ph_target (po_heartbeat o') = getString (member kTarget root)"
  using assms
  by (auto simp: parse_def document_root_def Let_def parseCommand_def parseEstop_def
      parseHeartbeat_def markInvalidWithoutResponse_def structuralError_def new_outcome_def
      split: prod.splits option.splits json.splits if_splits)


text \<open>
  A command accepted as valid carries the values of the document (its 64-bit sequence number,
  a finite timestamp, the command name), and its argument view is the live \<open>args\<close> object until the
  parser is invalidated, after which every accessor fails.
\<close>

theorem parse_command_carries:
  assumes "parse deserialize line st = (o', (c', p'))"
    and "po_kind o' = Valid" and "po_message_kind o' = Command_Message"
  shows "(\<exists>root ms. document_root deserialize line = Some root \<and>
       getSeq (member kSeq root) = Some (pc_seq (po_command o')) \<and>
       getFiniteDouble (member kControllerTs root) = Some (pc_controller_ts (po_command o')) \<and>
       f64_finite (pc_controller_ts (po_command o')) \<and>
       getString (member kCommand root) = pc_command (po_command o') \<and>
       getObject (member kArgs root) = Some ms \<and>
       command_args_of p' (po_command o') = Some \<lparr>ab_args = Some ms, ab_active = True\<rparr>) \<and>
     \<not> backingLive (command_args_of (invalidate p') (po_command o'))"
proof -
  have "\<not> backingLive (command_args_of (invalidate p') (po_command o'))"
    by (simp add: backingLive_def command_args_of_def invalidate_def no_args_def)
  moreover have "getFiniteDouble v = Some d \<Longrightarrow> f64_finite d" for v d
    by (auto simp: getFiniteDouble_def isFinite_def split: option.splits if_splits)
  ultimately show ?thesis using parse_command_valid [OF assms] by blast
qed

definition sample_document :: "bytes \<Rightarrow> json option" where
  "sample_document s =
     Some (JObject [(kType, JString ''command''), (kSeq, JUnsigned 7), (kControllerTs, JUnsigned 1),
       (kSource, JString ''controller''), (kTarget, JString ''b''), (kCommand, JString ''go''),
       (kArgs, JObject [])])"

lemma sample_command:
  "\<exists>c' p'. parse sample_document (Some ''x'') (zero_counters, new_parser) =
     (new_outcome\<lparr>po_kind := Valid, po_message_kind := Command_Message,
        po_command := \<lparr>pc_seq = 7, pc_controller_ts = 0x3FF0000000000000,
          pc_command = Some ''go'', pc_args_bound = True\<rparr>,
        po_has_seq := True, po_seq := 7,
        po_has_controller_ts := True, po_controller_ts := 0x3FF0000000000000\<rparr>, (c', p'))"
proof -
  have one: "f64_of_nat 1 = 1023 * 2 ^ 52"
    by (simp add: f64_of_nat_def floor_log2.simps Let_def)
  have "getFiniteDouble (JUnsigned 1) = Some 0x3FF0000000000000"
    using one by (simp add: getFiniteDouble_def f64_pack_def isFinite_def f64_finite_def f64_exponent_def)
  then show ?thesis
    by (simp add: parse_def sample_document_def cstr_def strcmp_eq_def member_def find_member_def
        parseCommand_def Let_def containsKey_def new_outcome_def)
qed

lemma parse_command_carries_witness:
  "\<exists>p' command. \<not> backingLive (command_args_of (invalidate p') command) \<and> pc_seq command = 7"
proof -
  from sample_command obtain c' p' o' where
    o': "parse sample_document (Some ''x'') (zero_counters, new_parser) = (o', (c', p'))"
    "po_kind o' = Valid" "po_message_kind o' = Command_Message" "pc_seq (po_command o') = 7"
    by fastforce
  from parse_command_carries [OF o'(1-3)] o'(4) show ?thesis by blast
qed

end
