(* ===== verification/DiagnosticsCommand.thy ===== *)
theory DiagnosticsCommand
  imports ObjectWriter CommandRegistry
begin

text \<open>
  The built-in command \<open>get_counters\<close>, \<open>src/core/DiagnosticsCommand.h\<close>: its registration and its
  handler, which writes all counters into the result.
\<close>

definition kName_diagnostics :: bytes where [simp]: "kName_diagnostics = ''get_counters''"

text \<open>The registered context is the address of the server's counters, which is never null.\<close>

definition registerDiagnostics :: "command_registry \<Rightarrow> status \<times> command_registry" where
  "registerDiagnostics registry =
     registerCommand
       \<lparr>rg_name = Some kName_diagnostics, rg_args = None, rg_arg_count = 0,
        rg_blocked_by_estop = False, rg_blocked_by_estop_specified = True,
        rg_handler = Some Counters_Handler\<rparr> registry"

definition isDiagnosticsCommand :: "c_string \<Rightarrow> bool" where
  "isDiagnosticsCommand name \<longleftrightarrow>
     (case name of None \<Rightarrow> False | Some n \<Rightarrow> strcmp_eq n kName_diagnostics)"

definition writeSnapshot :: "counters \<Rightarrow> object_writer act" where
  "writeSnapshot c =
     run_all
       [addUInt64_ow (Some ''sessions_accepted'') (ucast (sessions_accepted c)),
        addUInt64_ow (Some ''sessions_rejected'') (ucast (sessions_rejected c)),
        addUInt64_ow (Some ''sessions_superseded'') (ucast (sessions_superseded c)),
        addUInt64_ow (Some ''schemas_sent'') (ucast (schemas_sent c)),
        addUInt64_ow (Some ''commands_received'') (ucast (commands_received c)),
        addUInt64_ow (Some ''commands_ok'') (ucast (commands_ok c)),
        addUInt64_ow (Some ''commands_error'') (ucast (commands_error c)),
        addUInt64_ow (Some ''unknown_commands'') (ucast (unknown_commands c)),
        addUInt64_ow (Some ''invalid_arguments'') (ucast (invalid_arguments c)),
        addUInt64_ow (Some ''invalid_json'') (ucast (invalid_json c)),
        addUInt64_ow (Some ''invalid_targets'') (ucast (invalid_targets c)),
        addUInt64_ow (Some ''oversized_lines'') (ucast (oversized_lines c)),
        addUInt64_ow (Some ''telemetry_sent'') (ucast (telemetry_sent c)),
        addUInt64_ow (Some ''telemetry_coalesced'') (ucast (telemetry_coalesced c)),
        addUInt64_ow (Some ''telemetry_dropped'') (ucast (telemetry_dropped c)),
        addUInt64_ow (Some ''estop_received'') (ucast (estop_received c)),
        addUInt64_ow (Some ''estop_ack_sent'') (ucast (estop_ack_sent c)),
        addUInt64_ow (Some ''estop_apply_failed'') (ucast (estop_apply_failed c)),
        addUInt64_ow (Some ''estop_hook_over_budget'') (ucast (estop_hook_over_budget c)),
        addUInt64_ow (Some ''controller_loss_hook_over_budget'') (ucast (controller_loss_hook_over_budget c)),
        addUInt64_ow (Some ''heartbeat_received'') (ucast (heartbeat_received c)),
        addUInt64_ow (Some ''heartbeat_ack_sent'') (ucast (heartbeat_ack_sent c)),
        addUInt64_ow (Some ''tx_failures'') (ucast (tx_failures c)),
        addUInt64_ow (Some ''controller_disconnects'') (ucast (controller_disconnects c))]"

definition handle_diagnostics :: "counters option \<Rightarrow> object_writer \<Rightarrow> command_result \<times> object_writer" where
  "handle_diagnostics ctx result =
     (case ctx of
        None \<Rightarrow> (internalError (Some ''counters context is required''), result)
      | Some c \<Rightarrow>
          case writeSnapshot c result of
            (ok, result1) \<Rightarrow>
              (if \<not> ok then internalError (Some ''counter snapshot exceeds fixed capacity'')
               else ok_result, result1))"

section \<open>The result holds every counter\<close>

text \<open>A member that fits is added.\<close>

lemma on_writer_fits:
  assumes h: "ow_holds ms o'" and op: "\<not> ow_closed o'" and n: "nul_free n" "n \<noteq> ''board_proc_us''"
    and e: "member_events (n, v) = [e]" "f = exec_event e"
    and fits: "length (payload o') + length (member_text (n, v)) + 2 \<le> kMaxResultPayloadBytes"
  shows "\<exists>o1. on_writer (Some n) f o' = (True, o1) \<and> ow_holds (ms @ [(n, v)]) o1 \<and> \<not> ow_closed o1 \<and>
     bw_failed (ow_writer o1) = bw_failed (ow_writer o') \<and>
     length (payload o1) \<le> length (payload o') + length (member_text (n, v)) + 1"
proof -
  have hm: "holds_members ms (ow_writer o')" and c: "bw_capacity (ow_writer o') = kMaxResultPayloadBytes"
    "bw_tail_reserve (ow_writer o') = 1" using h op by (simp_all add: ow_holds_def)
  have ok: "writer_ok (ow_writer o')" "\<not> bw_closed (ow_writer o')"
    and st: "writer_stack (ow_writer o') = [ms = []]" using hm by (simp_all add: holds_members_def)
  have ev: "event_text [b] e = comma b @ member_text (n, v)" for b
    using writes_member [of "(n, v)"] e(1) by (auto simp: writes_member_def)
  have nm: "event_names_ok e" "event_ok kMaxJsonNestingDepth (writer_stack (ow_writer o')) e"
    using n(1) e(1) by (cases v; auto simp: st)+
  have len: "length (event_text (writer_stack (ow_writer o')) e) \<le> length (member_text (n, v)) + 1"
    by (simp add: st ev comma_def)
  have "length (event_text (writer_stack (ow_writer o')) e) \<le> remaining (ow_writer o')"
    using len fits c by (simp add: remaining_eq payload_def)
  from exec_event_spec(1) [OF ok nm this] obtain w' where
    w': "exec_event e (ow_writer o') = (True, w')" "performed e (ow_writer o') w'" by blast
  have al: "allowed o' (Some n)" using op n by (simp add: allowed_def isBoardProcUs_def strcmp_eq_def)
  have run: "on_writer (Some n) f o' = (True, o'\<lparr>ow_writer := w'\<rparr>)"
    using al e(2) w'(1) by (simp add: on_writer_def)
  have mc: "member_call (Some n) v f" using e n(1) by (simp add: member_call_def)
  have "ow_holds (ms @ [(n, v)]) (o'\<lparr>ow_writer := w'\<rparr>)"
    using ow_holds_member [OF h mc] run n(1) by simp
  then show ?thesis
    using run w'(2) len op by (simp add: performed_def payload_def)
qed

text \<open>So is a list of them.\<close>

definition number_members :: "(bytes \<times> u32) list \<Rightarrow> (bytes \<times> json) list" where
  "number_members cs = map (\<lambda>(n, v). (n, JUnsigned (ucast v))) cs"

lemma length_dec_u32: "length (dec_u64 (ucast (v :: u32))) \<le> 10"
proof -
  have small: "unat v < 2 ^ 32" using unsigned_less [of v, where 'a = nat] by simp
  then have "unat (ucast v :: u64) = unat v" by (simp add: unsigned_ucast_eq take_bit_nat_eq_self)
  moreover have "unat v < 10 ^ 10" using small by simp
  ultimately have "\<not> 10 < length (dec_nat (unat (ucast v :: u64)))"
    using dec_nat_length_le [of "unat (ucast v :: u64)" 10] by simp
  then show ?thesis by (simp add: dec_u64_def)
qed

lemma add_numbers:
  assumes "ow_holds ms o'" and "\<not> ow_closed o'" and "\<not> bw_failed (ow_writer o')"
    and "\<forall>(n, v) \<in> set cs. nul_free n \<and> n \<noteq> ''board_proc_us'' \<and> (\<forall>c \<in> set n. plain_char c) \<and> length n \<le> 40"
    and "length (payload o') + 60 * length cs + 2 \<le> kMaxResultPayloadBytes"
  shows "\<exists>o1. run_all (map (\<lambda>(n, v). addUInt64_ow (Some n) (ucast v)) cs) o' = (True, o1) \<and>
     ow_holds (ms @ number_members cs) o1 \<and> \<not> ow_closed o1 \<and> \<not> bw_failed (ow_writer o1)"
  using assms
proof (induction cs arbitrary: ms o')
  case Nil
  then show ?case by (simp add: number_members_def)
next
  case (Cons nv cs)
  obtain n v where nv: "nv = (n, v)" by (cases nv)
  have n: "nul_free n" "n \<noteq> ''board_proc_us''" "\<forall>c \<in> set n. plain_char c" "length n \<le> 40"
    using Cons.prems(4) by (auto simp: nv)
  have tx: "length (member_text (n, JUnsigned (ucast v))) \<le> 54"
    using n(4) length_dec_u32 [of v] by (simp add: member_text_def quoted_plain [OF n(3)])
  then have fits: "length (payload o') + length (member_text (n, JUnsigned (ucast v))) + 2 \<le> kMaxResultPayloadBytes"
    using Cons.prems(5) by simp
  have ev: "member_events (n, JUnsigned (ucast v)) = [FieldLit n (dec_u64 (ucast v))]" by simp
  have f: "addUInt64 (Some n) (ucast v) = exec_event (FieldLit n (dec_u64 (ucast v)))"
    by (simp add: addUInt64_def)
  from on_writer_fits [OF Cons.prems(1,2) n(1,2) ev f fits] Cons.prems(3) obtain o1 where
    o1: "addUInt64_ow (Some n) (ucast v) o' = (True, o1)"
    "ow_holds (ms @ [(n, JUnsigned (ucast v))]) o1" "\<not> ow_closed o1" "\<not> bw_failed (ow_writer o1)"
    "length (payload o1) \<le> length (payload o') + 55"
    using tx by (auto simp: addUInt64_ow_def)
  have "length (payload o1) + 60 * length cs + 2 \<le> kMaxResultPayloadBytes"
    using o1(5) Cons.prems(5) by simp
  from Cons.IH [OF o1(2-4) _ this] Cons.prems(4) o1(1) show ?case
    by (auto simp: nv number_members_def)
qed

definition counter_values :: "counters \<Rightarrow> (bytes \<times> u32) list" where
  "counter_values c =
     [(''sessions_accepted'', sessions_accepted c),
      (''sessions_rejected'', sessions_rejected c),
      (''sessions_superseded'', sessions_superseded c),
      (''schemas_sent'', schemas_sent c),
      (''commands_received'', commands_received c),
      (''commands_ok'', commands_ok c),
      (''commands_error'', commands_error c),
      (''unknown_commands'', unknown_commands c),
      (''invalid_arguments'', invalid_arguments c),
      (''invalid_json'', invalid_json c),
      (''invalid_targets'', invalid_targets c),
      (''oversized_lines'', oversized_lines c),
      (''telemetry_sent'', telemetry_sent c),
      (''telemetry_coalesced'', telemetry_coalesced c),
      (''telemetry_dropped'', telemetry_dropped c),
      (''estop_received'', estop_received c),
      (''estop_ack_sent'', estop_ack_sent c),
      (''estop_apply_failed'', estop_apply_failed c),
      (''estop_hook_over_budget'', estop_hook_over_budget c),
      (''controller_loss_hook_over_budget'', controller_loss_hook_over_budget c),
      (''heartbeat_received'', heartbeat_received c),
      (''heartbeat_ack_sent'', heartbeat_ack_sent c),
      (''tx_failures'', tx_failures c),
      (''controller_disconnects'', controller_disconnects c)]"

lemma writeSnapshot_eq:
  "writeSnapshot c = run_all (map (\<lambda>(n, v). addUInt64_ow (Some n) (ucast v)) (counter_values c))"
  by (simp only: writeSnapshot_def counter_values_def list.map prod.case)

lemma counter_names_ok:
  "\<forall>(n, v) \<in> set (counter_values c).
     nul_free n \<and> n \<noteq> ''board_proc_us'' \<and> (\<forall>c \<in> set n. plain_char c) \<and> length n \<le> 40"
  by (simp add: counter_values_def plain_char_def)

lemma payload_new: "length (payload new_object_writer) = 1"
  by (simp add: payload_def new_object_writer_def beginObject_def new_writer_def appendByte_def
      appendBytes_def remaining_def reserveTailBytes_def limits)

lemma handle_diagnostics_holds:
  "\<exists>o1. handle_diagnostics (Some c) new_object_writer = (ok_result, o1) \<and>
     ow_holds (number_members (counter_values c)) o1 \<and> \<not> bw_failed (ow_writer o1)"
proof -
  have "length (payload new_object_writer) + 60 * length (counter_values c) + 2 \<le> kMaxResultPayloadBytes"
    by (simp add: payload_new counter_values_def limits)
  from add_numbers [OF ow_holds_new _ _ counter_names_ok this] ow_new_open obtain o1 where
    "writeSnapshot c new_object_writer = (True, o1)" "ow_holds (number_members (counter_values c)) o1"
    "\<not> bw_failed (ow_writer o1)" by (auto simp: writeSnapshot_eq)
  then show ?thesis by (simp add: handle_diagnostics_def)
qed

text \<open>
  \<open>get_counters\<close> always succeeds on a fresh result writer and reports every counter: closing the
  result gives the JSON object with all 24 counters, in the order they are declared, each with
  its current value.
\<close>

theorem diagnostics_reports_all:
  "fst (handle_diagnostics (Some c) new_object_writer) = ok_result \<and>
   payload (snd (close_ow (snd (handle_diagnostics (Some c) new_object_writer)))) =
     serialise (JObject (map (\<lambda>(n, v). (n, JUnsigned (ucast v))) (counter_values c))) \<and>
   length (counter_values c) = 24"
proof -
  obtain o1 where o1: "handle_diagnostics (Some c) new_object_writer = (ok_result, o1)"
    "ow_holds (number_members (counter_values c)) o1" using handle_diagnostics_holds by blast
  from close_ow_succeeds [OF o1(2)] o1(1) have
    "payload (snd (close_ow o1)) = serialise (JObject (number_members (counter_values c)))"
    by (auto simp: ow_holds_def simp del: serialise.simps)
  moreover have "length (counter_values c) = 24" by (simp add: counter_values_def)
  ultimately show ?thesis using o1(1) by (simp add: number_members_def del: serialise.simps)
qed

end
