(* ===== verification/CommandDispatcher.thy ===== *)
theory CommandDispatcher
  imports LineBuffer OutboundScheduler InboundParser DiagnosticsCommand
begin

text \<open>
  Commands and their responses, \<open>src/core/CommandDispatcher.h\<close>: look the command up, check its
  arguments against the registration, run the handler, build the response line around the result
  it wrote, and queue it. Every call returns whether the session has to be torn down.

  The dispatcher's references are parameters or parts of the state: the sealed registry is a
  parameter, its counters, outbound queue and the world are threaded. \<open>args\<close> is what the
  command's \<open>CommandArgs\<close> designates in the parser (\<open>command_args_of\<close>).
\<close>

section \<open>Building a line\<close>

record command_dispatcher =
  cd_identity :: board_identity
  cd_response_line :: bytes   \<comment> \<open>\<open>response_line_[0 .. response_size_)\<close>\<close>

definition new_dispatcher :: "board_identity \<Rightarrow> command_dispatcher" where
  "new_dispatcher identity = \<lparr>cd_identity = identity, cd_response_line = []\<rparr>"

definition appendBytes_cd :: "bytes \<Rightarrow> bytes act" where
  "appendBytes_cd = append_bounded kResponseJsonBufferBytes"

definition appendRaw_cd :: "bytes \<Rightarrow> bytes act" where   \<comment> \<open>of a string literal, never null\<close>
  "appendRaw_cd literal = appendBytes_cd literal"

definition appendEscapedString_cd :: "c_string \<Rightarrow> bytes act" where
  "appendEscapedString_cd s =
     run_all
       [appendRaw_cd [QUOTE],
        put_each appendBytes_cd (escape_with hex_lower)
          (case s of None \<Rightarrow> [] | Some t \<Rightarrow> cstr t),
        appendRaw_cd [QUOTE]]"

definition appendUInt64_cd :: "u64 \<Rightarrow> bytes act" where
  "appendUInt64_cd n line =
     (let literal = dec_u64 n in
      if 0 < length literal \<and> length literal < kMaxUInt64LiteralBytes
      then appendBytes_cd literal line else (False, line))"

definition appendDouble_cd :: "f64 \<Rightarrow> bytes act" where
  "appendDouble_cd d line =
     (if \<not> f64_finite d then (False, line)
      else let literal = format_g17 d in
        if 0 < length literal \<and> length literal < kMaxDoubleLiteralBytes
        then appendBytes_cd literal line else (False, line))"

text \<open>The calls of \<open>appendEnvelopePrefix\<close> before and after its reading of the clock.\<close>

definition envelope_start :: "u64 \<Rightarrow> f64 \<Rightarrow> bytes act list" where
  "envelope_start seq controller_ts =
     [appendRaw_cd ''{\"type\":\"response\",\"seq\":'',
      appendUInt64_cd seq,
      appendRaw_cd '',\"controller_ts\":'',
      appendDouble_cd controller_ts,
      appendRaw_cd '',\"timestamp\":'']"

definition envelope_end :: "c_string \<Rightarrow> board_status \<Rightarrow> bytes act list" where
  "envelope_end board st =
     [appendRaw_cd '',\"source\":'',
      appendEscapedString_cd board,
      appendRaw_cd '',\"target\":\"controller\",\"status\":'',
      appendEscapedString_cd (Some (toString_board_status st))]"

definition appendEnvelopePrefix ::
    "'w env \<Rightarrow> u64 \<Rightarrow> f64 \<Rightarrow> c_string \<Rightarrow> board_status \<Rightarrow> (bytes \<times> 'w) act" where
  "appendEnvelopePrefix E seq controller_ts board st =
     run_all (map on_line (envelope_start seq controller_ts) @
       stamp E appendUInt64_cd # map on_line (envelope_end board st))"

definition appendResultWithBoardProcUs :: "bytes \<Rightarrow> u64 \<Rightarrow> bytes act" where
  "appendResultWithBoardProcUs data board_proc_us line =
     (if length data < 2 \<or> hd data \<noteq> CHR ''{'' \<or> last data \<noteq> CHR ''}'' then (False, line)
      else if length data = 2 then
        run_all [appendRaw_cd ''{\"board_proc_us\":'', appendUInt64_cd board_proc_us,
          appendRaw_cd ''}''] line
      else run_all [appendBytes_cd (butlast data), appendRaw_cd '',\"board_proc_us\":'',
          appendUInt64_cd board_proc_us, appendRaw_cd ''}''] line)"

definition buildOkLine ::
    "'w env \<Rightarrow> c_string \<Rightarrow> u64 \<Rightarrow> f64 \<Rightarrow> bytes \<Rightarrow> u64 \<Rightarrow> 'w \<Rightarrow> bool \<times> bytes \<times> 'w" where
  "buildOkLine E board seq controller_ts data board_proc_us w =
     run_all
       [appendEnvelopePrefix E seq controller_ts board Status_Ok,
        on_line (appendRaw_cd '',\"result\":''),
        on_line (appendResultWithBoardProcUs data board_proc_us),
        on_line (appendRaw_cd ('',\"error\":null}'' @ [LF]))] ([], w)"

definition buildErrorLine ::
    "'w env \<Rightarrow> c_string \<Rightarrow> u64 \<Rightarrow> f64 \<Rightarrow> board_error_code \<Rightarrow> c_string \<Rightarrow> 'w \<Rightarrow>
     bool \<times> bytes \<times> 'w" where
  "buildErrorLine E board seq controller_ts code message w =
     run_all
       [appendEnvelopePrefix E seq controller_ts board Status_Error,
        on_line (appendRaw_cd '',\"result\":null,\"error\":{\"code\":''),
        on_line (appendEscapedString_cd (Some (toString_board_error_code code))),
        on_line (appendRaw_cd '',\"message\":''),
        on_line (appendEscapedString_cd (Some (case message of None \<Rightarrow> [] | Some m \<Rightarrow> m))),
        on_line (appendRaw_cd (''}}'' @ [LF]))] ([], w)"

section \<open>Arguments\<close>

definition argumentTypeMatches :: "command_args \<Rightarrow> stored_argument \<Rightarrow> bool" where
  "argumentTypeMatches args spec \<longleftrightarrow>
     (case sa_type spec of
        Int_Type \<Rightarrow> args_getInt args (Some (sa_name spec)) \<noteq> None
      | Float_Type \<Rightarrow> args_getFloat args (Some (sa_name spec)) \<noteq> None
      | Bool_Type \<Rightarrow> args_getBool args (Some (sa_name spec)) \<noteq> None
      | String_Type \<Rightarrow> args_getString args (Some (sa_name spec)) \<noteq> None
      | Other_Type _ \<Rightarrow> False)"

definition declaresArgument :: "stored_command \<Rightarrow> c_string \<Rightarrow> bool" where
  "declaresArgument registered name \<longleftrightarrow>
     (case name of None \<Rightarrow> False
      | Some n \<Rightarrow> list_ex (\<lambda>a. strcmp_eq (sa_name a) n) (sc_args registered))"

text \<open>\<open>recoverArgsBacking\<close> reads the backing pointer, the first field of the \<open>CommandArgs\<close>.\<close>

definition recoverArgsBacking :: "command_args \<Rightarrow> args_backing option" where
  "recoverArgsBacking args = args"

definition hasExtraArgument :: "stored_command \<Rightarrow> command_args \<Rightarrow> bool" where
  "hasExtraArgument registered args \<longleftrightarrow>
     (case recoverArgsBacking args of
        None \<Rightarrow> False
      | Some backing \<Rightarrow>
          if \<not> ab_active backing then False
          else case ab_args backing of
            None \<Rightarrow> False
          | Some ms \<Rightarrow> list_ex (\<lambda>m. \<not> declaresArgument registered (Some (fst m))) ms)"

text \<open>The loop of \<open>validateArgs\<close> over the declared arguments; None means no error.\<close>

fun validate_declared :: "command_args \<Rightarrow> stored_argument list \<Rightarrow> (board_error_code \<times> bytes) option" where
  "validate_declared args [] = None"
| "validate_declared args (spec # specs) =
     (if \<not> args_has args (Some (sa_name spec)) then Some (MissingField, ''missing required argument'')
      else if \<not> argumentTypeMatches args spec then Some (InvalidType, ''argument has invalid type'')
      else validate_declared args specs)"

definition validateArgs :: "stored_command \<Rightarrow> command_args \<Rightarrow> (board_error_code \<times> bytes) option" where
  "validateArgs registered args =
     (case validate_declared args (sc_args registered) of
        Some e \<Rightarrow> Some e
      | None \<Rightarrow>
          if hasExtraArgument registered args
          then Some (InvalidArgument, ''argument is not declared'') else None)"

section \<open>Dispatching\<close>

type_synonym 'w dispatch_state = "command_dispatcher \<times> counters \<times> outbound_scheduler \<times> 'w"

definition enqueueError ::
    "'w env \<Rightarrow> u64 \<Rightarrow> f64 \<Rightarrow> board_error_code \<Rightarrow> c_string \<Rightarrow> 'w dispatch_state \<Rightarrow>
     bool \<times> 'w dispatch_state" where
  "enqueueError E seq controller_ts code message st =
     (case st of (d, c, s, w) \<Rightarrow>
        case buildErrorLine E (board_id (cd_identity d)) seq controller_ts code message w of
          (built, line, w1) \<Rightarrow>
            let d1 = d\<lparr>cd_response_line := line\<rparr> in
            if \<not> built then (True, (d1, c, s, w1))
            else case enqueueCritical CommandResponse (Some (cstr line)) s of
              (result, s1) \<Rightarrow>
                if result \<noteq> Queued then (True, (d1, c, s1, w1))
                else (False, (d1, increment commands_error_update c, s1, w1)))"

definition enqueueFallbackInternalError ::
    "'w env \<Rightarrow> u64 \<Rightarrow> f64 \<Rightarrow> 'w dispatch_state \<Rightarrow> bool \<times> 'w dispatch_state" where
  "enqueueFallbackInternalError E seq controller_ts =
     enqueueError E seq controller_ts InternalError (Some ''response exceeded fixed capacity'')"

definition objectWriterFailed :: "object_writer \<Rightarrow> bool" where
  "objectWriterFailed result \<longleftrightarrow> bw_failed (ow_writer result)"

text \<open>
  The call through the handler pointer. The diagnostics handler's context is the server's
  counters, the object the dispatcher counts in.
\<close>

definition call_handler ::
    "'w env \<Rightarrow> command_handler \<Rightarrow> u64 \<Rightarrow> command_args \<Rightarrow> counters \<Rightarrow> 'w \<Rightarrow>
     command_result \<times> object_writer \<times> 'w" where
  "call_handler E h seq args c w =
     (case h of
        App_Handler k \<Rightarrow> commandHandler E k seq args new_object_writer w
      | Counters_Handler \<Rightarrow>
          (case handle_diagnostics (Some c) new_object_writer of (r, result) \<Rightarrow> (r, result, w)))"

definition dispatch ::
    "'w env \<Rightarrow> command_registry \<Rightarrow> parsed_command \<Rightarrow> command_args \<Rightarrow> u64 \<Rightarrow> 'w dispatch_state \<Rightarrow>
     bool \<times> 'w dispatch_state" where
  "dispatch E registry command args parse_completed_us st =
     (case st of (d, c0, s, w) \<Rightarrow>
        let seq = pc_seq command; controller_ts = pc_controller_ts command;
            c = increment commands_received_update c0 in
        case findCommand registry (pc_command command) of
          None \<Rightarrow>
            enqueueError E seq controller_ts UnknownCommand (Some ''unknown command'')
              (d, increment unknown_commands_update c, s, w)
        | Some registered \<Rightarrow>
            case validateArgs registered args of
              Some (code, message) \<Rightarrow>
                enqueueError E seq controller_ts code (Some message)
                  (d, if code = InvalidArgument then increment invalid_arguments_update c else c, s, w)
            | None \<Rightarrow>
                case call_handler E (sc_handler registered) seq args c w of
                  (handler_result, result, w1) \<Rightarrow>
                    if \<not> cr_ok handler_result then
                      enqueueError E seq controller_ts (toBoardErrorCode (cr_error_code handler_result))
                        (Some (cr_message handler_result))
                        (d, if cr_error_code handler_result = Api_InvalidArgument
                            then increment invalid_arguments_update c else c, s, w1)
                    else
                      case (if objectWriterFailed result then (False, result) else close_ow result) of
                        (closed, result1) \<Rightarrow>
                          if \<not> closed \<or> objectWriterFailed result1
                          then enqueueFallbackInternalError E seq controller_ts (d, c, s, w1)
                          else case monotonicMicroseconds E w1 of
                            (response_ready_us, w2) \<Rightarrow>
                              case buildOkLine E (board_id (cd_identity d)) seq controller_ts
                                     (payload result1) (response_ready_us - parse_completed_us) w2 of
                                (built, line, w3) \<Rightarrow>
                                  let d1 = d\<lparr>cd_response_line := line\<rparr> in
                                  if \<not> built
                                  then enqueueFallbackInternalError E seq controller_ts (d1, c, s, w3)
                                  else case enqueueCritical CommandResponse (Some (cstr line)) s of
                                    (r, s1) \<Rightarrow>
                                      if r \<noteq> Queued then (True, (d1, c, s1, w3))
                                      else (False, (d1, increment commands_ok_update c, s1, w3)))"

fun defaultMessage :: "board_error_code \<Rightarrow> bytes" where
  "defaultMessage MissingField = ''missing required field''"
| "defaultMessage InvalidType = ''field has invalid type''"
| "defaultMessage UnknownCommand = ''unknown command''"
| "defaultMessage InvalidArgument = ''invalid argument''"
| "defaultMessage InternalError = ''internal error''"
| "defaultMessage EstopActive = ''hardware safety condition is active''"

text \<open>\<open>RecoverableCommandError\<close> of \<open>ServiceLoop.h\<close>.\<close>

record recoverable_command_error =
  re_seq :: u64
  re_controller_ts :: f64
  re_code :: board_error_code

definition recoverableCommandError ::
    "'w env \<Rightarrow> recoverable_command_error \<Rightarrow> 'w dispatch_state \<Rightarrow> bool \<times> 'w dispatch_state" where
  "recoverableCommandError E error =
     enqueueError E (re_seq error) (re_controller_ts error) (re_code error)
       (Some (defaultMessage (re_code error)))"

section \<open>The response text\<close>

interpretation cd: line_sink "line_sound kResponseJsonBufferBytes" appendBytes_cd line_extend
    "line_room kResponseJsonBufferBytes"
  unfolding appendBytes_cd_def by (rule line_sink_append_bounded)

abbreviation emits_cd :: "bytes act \<Rightarrow> bytes \<Rightarrow> bool" where
  "emits_cd \<equiv> emits_line kResponseJsonBufferBytes"

lemma emits_raw_cd: "emits_cd (appendRaw_cd t) t"
  by (simp add: appendRaw_cd_def cd.put_emits_on)

lemma emits_uint64_cd: "emits_cd (appendUInt64_cd n) (dec_u64 n)"
proof -
  have "appendUInt64_cd n = appendBytes_cd (dec_u64 n)"
    using length_dec_u64 [of n] by (auto simp: appendUInt64_cd_def Let_def limits fun_eq_iff)
  then show ?thesis by (simp add: cd.put_emits_on)
qed

lemma emits_double_cd: "f64_finite d \<Longrightarrow> emits_cd (appendDouble_cd d) (format_g17 d)"
proof -
  assume d: "f64_finite d"
  then have "appendDouble_cd d = appendBytes_cd (format_g17 d)"
    using length_format_g17 [OF d] by (auto simp: appendDouble_cd_def Let_def limits fun_eq_iff)
  then show ?thesis by (simp add: cd.put_emits_on)
qed

lemma emits_escaped_cd: "emits_cd (appendEscapedString_cd (Some t)) (quoted hex_lower (cstr t))"
  using cd.on_quoted [of QUOTE "escape_with hex_lower" "cstr t"]
  by (simp add: appendEscapedString_cd_def appendRaw_cd_def quoted_def del: run_all.simps)

text \<open>The reserved member is spliced in before the closing brace.\<close>

lemma emits_result_cd:
  "emits_cd (appendResultWithBoardProcUs (serialise (JObject ms)) us)
     (serialise (JObject (ms @ [(kBoardProcUs, JUnsigned us)])))"
proof -
  let ?data = "serialise (JObject ms)"
  have mt: "member_text (''board_proc_us'', JUnsigned us) = ''\"board_proc_us\":'' @ dec_u64 us"
    by (simp add: member_text_def quoted_plain plain_char_def)
  show ?thesis
  proof (cases "ms = []")
    case True
    have "appendResultWithBoardProcUs ?data us =
        run_all [appendRaw_cd ''{\"board_proc_us\":'', appendUInt64_cd us, appendRaw_cd ''}'']"
      by (simp add: fun_eq_iff appendResultWithBoardProcUs_def True del: run_all.simps)
    moreover have "emits_cd (run_all [appendRaw_cd ''{\"board_proc_us\":'', appendUInt64_cd us,
        appendRaw_cd ''}'']) (concat [''{\"board_proc_us\":'', dec_u64 us, ''}''])"
      by (rule cd.on_run_all) (simp add: emits_raw_cd emits_uint64_cd)
    moreover have "concat [''{\"board_proc_us\":'', dec_u64 us, ''}''] =
        serialise (JObject (ms @ [(kBoardProcUs, JUnsigned us)]))"
      unfolding serialise_object by (simp add: True mt)
    ultimately show ?thesis by (simp only:)
  next
    case False
    have dt: "?data = ''{'' @ join_with '','' (map member_text ms) @ ''}''" by (rule serialise_object)
    have ne: "join_with '','' (map member_text ms) \<noteq> []"
      using False by (cases ms; cases "tl ms") (simp_all add: member_text_def quoted_def)
    then have shape: "\<not> (length ?data < 2 \<or> hd ?data \<noteq> CHR ''{'' \<or> last ?data \<noteq> CHR ''}'')"
      "length ?data \<noteq> 2" by (simp_all add: dt del: serialise.simps)
    have bl: "butlast ?data = ''{'' @ join_with '','' (map member_text ms)"
      by (simp add: dt butlast_append del: serialise.simps)
    have "appendResultWithBoardProcUs ?data us =
        run_all [appendBytes_cd (butlast ?data), appendRaw_cd '',\"board_proc_us\":'',
          appendUInt64_cd us, appendRaw_cd ''}'']"
      unfolding appendResultWithBoardProcUs_def fun_eq_iff using shape by (simp only: if_False) simp
    moreover have "emits_cd (run_all [appendBytes_cd (butlast ?data),
          appendRaw_cd '',\"board_proc_us\":'', appendUInt64_cd us, appendRaw_cd ''}''])
        (concat [butlast ?data, '',\"board_proc_us\":'', dec_u64 us, ''}''])"
      by (rule cd.on_run_all)
        (simp add: emits_raw_cd emits_uint64_cd cd.put_emits_on del: serialise.simps)
    moreover have "concat [butlast ?data, '',\"board_proc_us\":'', dec_u64 us, ''}''] =
        serialise (JObject (ms @ [(kBoardProcUs, JUnsigned us)]))"
      unfolding bl serialise_object using False by (simp add: mt join_with_snoc)
    ultimately show ?thesis by (simp only:)
  qed
qed

definition response_text :: "bytes \<Rightarrow> u64 \<Rightarrow> f64 \<Rightarrow> u64 \<Rightarrow> bytes \<Rightarrow> bytes \<Rightarrow> bytes" where
  "response_text board seq cts ts st tail =
     ''{\"type\":\"response\",\"seq\":'' @ dec_u64 seq @ '',\"controller_ts\":'' @ format_g17 cts @
     '',\"timestamp\":'' @ dec_u64 ts @ '',\"source\":'' @ quoted hex_lower board @
     '',\"target\":\"controller\",\"status\":'' @ quoted hex_lower st @ tail"

definition ok_line :: "bytes \<Rightarrow> u64 \<Rightarrow> f64 \<Rightarrow> u64 \<Rightarrow> (bytes \<times> json) list \<Rightarrow> u64 \<Rightarrow> bytes" where
  "ok_line board seq cts ts ms us =
     response_text board seq cts ts ''ok''
       ('',\"result\":'' @ serialise (JObject (ms @ [(kBoardProcUs, JUnsigned us)])) @
        '',\"error\":null}'' @ [LF])"

definition error_line :: "bytes \<Rightarrow> u64 \<Rightarrow> f64 \<Rightarrow> u64 \<Rightarrow> board_error_code \<Rightarrow> bytes \<Rightarrow> bytes" where
  "error_line board seq cts ts code message =
     response_text board seq cts ts ''error''
       ('',\"result\":null,\"error\":{\"code\":'' @ quoted hex_lower (toString_board_error_code code) @
        '',\"message\":'' @ quoted hex_lower message @ ''}}'' @ [LF])"

text \<open>
  These are the compact JSON texts of the response objects, except that control characters are
  escaped with lower-case hexadecimal digits where the other writers use upper case.
\<close>

definition hex_free :: "bytes \<Rightarrow> bool" where
  "hex_free s \<longleftrightarrow>
     (\<forall>c \<in> set s. 32 \<le> (of_char c :: nat) \<or>
        c \<in> {CHR 0x08, CHR 0x0C, CHR 0x0A, CHR 0x0D, CHR 0x09})"

lemma quoted_hex_free: "hex_free s \<Longrightarrow> quoted hex_lower s = quoted hex_upper s"
  by (induction s) (auto simp: hex_free_def quoted_def escape_with_def)

definition response_members ::
    "bytes \<Rightarrow> u64 \<Rightarrow> f64 \<Rightarrow> u64 \<Rightarrow> bytes \<Rightarrow> json \<Rightarrow> json \<Rightarrow> (bytes \<times> json) list" where
  "response_members board seq cts ts st result error =
     [(kType, JString ''response''), (kSeq, JUnsigned seq), (kControllerTs, JFloat cts),
      (kTimestamp, JUnsigned ts), (kSource, JString board), (kTarget, JString ''controller''),
      (kStatus, JString st), (kResult, result), (kError, error)]"

lemma ok_line_json:
  "hex_free board \<Longrightarrow> ok_line board seq cts ts ms us =
     line_of (response_members board seq cts ts ''ok''
       (JObject (ms @ [(kBoardProcUs, JUnsigned us)])) JNull)"
  by (simp add: ok_line_def response_text_def line_of_def response_members_def quoted_hex_free
      serialise_object member_text_def del: serialise.simps(8))
    (simp add: quoted_plain plain_char_def)

lemma error_line_json:
  "hex_free board \<Longrightarrow> hex_free message \<Longrightarrow> error_line board seq cts ts code message =
     line_of (response_members board seq cts ts ''error'' JNull
       (JObject [(kCode, JString (toString_board_error_code code)), (kMessage, JString message)]))"
  by (cases code)
    (simp_all add: error_line_def response_text_def line_of_def response_members_def quoted_hex_free
      quoted_plain plain_char_def)

section \<open>Building succeeds exactly when the text fits\<close>

lemma run_all_nested: "run_all (run_all xs # ys) s = run_all (xs @ ys) s"
  by (simp add: run_all_append split: prod.split)

text \<open>The texts before and after the clock reading of a response.\<close>

definition start_texts :: "u64 \<Rightarrow> f64 \<Rightarrow> bytes list" where
  "start_texts seq cts =
     [''{\"type\":\"response\",\"seq\":'', dec_u64 seq, '',\"controller_ts\":'', format_g17 cts,
      '',\"timestamp\":'']"

definition end_texts :: "bytes \<Rightarrow> bytes \<Rightarrow> bytes list" where
  "end_texts board st =
     ['',\"source\":'', quoted hex_lower board, '',\"target\":\"controller\",\"status\":'',
      quoted hex_lower st]"

lemma response_text_concat:
  "response_text board seq cts ts st tail =
     concat (start_texts seq cts) @ dec_u64 ts @ concat (end_texts board st @ [tail])"
  by (simp add: response_text_def start_texts_def end_texts_def)

lemma response_build:
  assumes "f64_finite cts" and "nul_free board" and "monotonicMilliseconds E w = (now, w1)"
    and "list_all2 emits_cd fs ts" and "nul_free (toString_board_status st)"
  shows "if length (response_text board seq cts now (toString_board_status st) (concat ts)) < kResponseJsonBufferBytes
     then run_all (appendEnvelopePrefix E seq cts (Some board) st # map on_line fs) ([], w) =
       (True, (response_text board seq cts now (toString_board_status st) (concat ts), w1))
     else \<exists>l. run_all (appendEnvelopePrefix E seq cts (Some board) st # map on_line fs) ([], w) =
       (False, (l, w1))"
proof -
  let ?st = "toString_board_status st"
  have pre: "list_all2 emits_cd (envelope_start seq cts) (start_texts seq cts)"
    by (simp add: envelope_start_def start_texts_def emits_raw_cd emits_uint64_cd
        emits_double_cd [OF assms(1)])
  have post: "list_all2 emits_cd (envelope_end (Some board) st @ fs) (end_texts board ?st @ ts)"
    using assms(4) emits_escaped_cd [of board] emits_escaped_cd [of ?st] assms(2,5)
    by (intro list_all2_appendI) (simp_all add: envelope_end_def end_texts_def emits_raw_cd)
  have fits: "length (concat (start_texts seq cts)) < kResponseJsonBufferBytes"
    using length_dec_u64 [of seq] length_format_g17 [OF assms(1)] by (simp add: start_texts_def limits)
  have flat: "run_all (appendEnvelopePrefix E seq cts (Some board) st # map on_line fs) ([], w) =
      run_all (map on_line (envelope_start seq cts) @ stamp E appendUInt64_cd #
        map on_line (envelope_end (Some board) st @ fs)) ([], w)"
    by (simp only: appendEnvelopePrefix_def run_all_nested map_append append_assoc append_Cons)
  have "response_text board seq cts now ?st (concat ts) =
      concat (start_texts seq cts) @ dec_u64 now @ concat (end_texts board ?st @ ts)"
    by (simp add: response_text_concat)
  with stamped_emits [where put = appendUInt64_cd and text_of = dec_u64,
      OF cd.line_sink_axioms pre fits post emits_uint64_cd assms(3)]
  show ?thesis unfolding flat by (simp only:)
qed

lemma status_nul_free: "nul_free (toString_board_status st)"
  by (cases st) simp_all

lemma buildOkLine_spec:
  assumes "f64_finite cts" and "nul_free board" and "monotonicMilliseconds E w = (now, w1)"
  shows "if length (ok_line board seq cts now ms us) < kResponseJsonBufferBytes
     then buildOkLine E (Some board) seq cts (serialise (JObject ms)) us w =
       (True, (ok_line board seq cts now ms us, w1))
     else \<exists>l. buildOkLine E (Some board) seq cts (serialise (JObject ms)) us w = (False, (l, w1))"
proof -
  have ts: "list_all2 emits_cd
      [appendRaw_cd '',\"result\":'', appendResultWithBoardProcUs (serialise (JObject ms)) us,
       appendRaw_cd ('',\"error\":null}'' @ [LF])]
      ['',\"result\":'', serialise (JObject (ms @ [(kBoardProcUs, JUnsigned us)])),
       '',\"error\":null}'' @ [LF]]"
    using emits_result_cd [of ms us] by (simp add: emits_raw_cd del: serialise.simps)
  have "ok_line board seq cts now ms us = response_text board seq cts now (toString_board_status Status_Ok)
      (concat ['',\"result\":'', serialise (JObject (ms @ [(kBoardProcUs, JUnsigned us)])),
        '',\"error\":null}'' @ [LF]])"
    by (simp add: ok_line_def del: serialise.simps)
  with response_build [OF assms ts status_nul_free, where st = Status_Ok and seq = seq] show ?thesis
    unfolding buildOkLine_def by (simp only: list.map)
qed

lemma buildErrorLine_spec:
  assumes "f64_finite cts" and "nul_free board" and "monotonicMilliseconds E w = (now, w1)"
    and "nul_free message"
  shows "if length (error_line board seq cts now code message) < kResponseJsonBufferBytes
     then buildErrorLine E (Some board) seq cts code (Some message) w =
       (True, (error_line board seq cts now code message, w1))
     else \<exists>l. buildErrorLine E (Some board) seq cts code (Some message) w = (False, (l, w1))"
proof -
  let ?fs = "[appendRaw_cd '',\"result\":null,\"error\":{\"code\":'',
      appendEscapedString_cd (Some (toString_board_error_code code)), appendRaw_cd '',\"message\":'',
      appendEscapedString_cd (Some message), appendRaw_cd (''}}'' @ [LF])]"
  let ?ts = "['',\"result\":null,\"error\":{\"code\":'', quoted hex_lower (toString_board_error_code code),
      '',\"message\":'', quoted hex_lower message, ''}}'' @ [LF]]"
  have "nul_free (toString_board_error_code code)" by (cases code) simp_all
  then have ts: "list_all2 emits_cd ?fs ?ts"
    using emits_escaped_cd [of "toString_board_error_code code"] emits_escaped_cd [of message] assms(4)
    by (simp add: emits_raw_cd)
  have "error_line board seq cts now code message =
      response_text board seq cts now (toString_board_status Status_Error) (concat ?ts)"
    by (simp add: error_line_def)
  with response_build [OF assms(1-3) ts status_nul_free, where st = Status_Error and seq = seq] show ?thesis
    unfolding buildErrorLine_def by (simp only: list.map option.case)
qed

lemma error_line_fits:
  assumes "f64_finite cts" and "length board \<le> kMaxBoardIdBytes" and "length message \<le> kMaxErrorMessageBytes"
  shows "length (error_line board seq cts ts code message) < kResponseJsonBufferBytes"
proof -
  have "length (quoted hex_lower (toString_board_error_code code)) \<le> 98"
    using length_quoted_le [of hex_lower "toString_board_error_code code"] by (cases code) simp_all
  then show ?thesis
    using length_quoted_le [of hex_lower board] length_quoted_le [of hex_lower message]
      length_dec_u64 [of seq] length_dec_u64 [of ts] length_format_g17 [OF assms(1)] assms(2,3)
      length_quoted_le [of hex_lower "''error''"]
    by (simp add: error_line_def response_text_def limits)
qed

lemma response_text_shape:
  "nul_free tail \<Longrightarrow> tail \<noteq> [] \<Longrightarrow> nul_free (response_text board seq cts ts st tail) \<and>
     last (response_text board seq cts ts st tail) = last tail"
  using nul_free_quoted [OF hex_digits_lower] by (simp add: response_text_def)

lemma lines_shape:
  "nul_free (error_line board seq cts ts code message)" "last (error_line board seq cts ts code message) = LF"
  "nul_free (ok_line board seq cts ts ms us)" "last (ok_line board seq cts ts ms us) = LF"
  "error_line board seq cts ts code message \<noteq> []" "ok_line board seq cts ts ms us \<noteq> []"
proof -
  have "nul_free (serialise j)" for j using clean_serialise [of j] by (simp add: clean_def nul_free_def)
  then show "nul_free (ok_line board seq cts ts ms us)" "last (ok_line board seq cts ts ms us) = LF"
    unfolding ok_line_def by (auto simp: response_text_shape simp del: serialise.simps)
  show "nul_free (error_line board seq cts ts code message)"
    "last (error_line board seq cts ts code message) = LF"
    using nul_free_quoted [OF hex_digits_lower] unfolding error_line_def
    by (auto simp: response_text_shape)
qed (simp_all add: error_line_def ok_line_def response_text_def)

lemma response_critical:
  "length line < kResponseJsonBufferBytes \<Longrightarrow> line \<noteq> [] \<Longrightarrow> last line = LF \<Longrightarrow>
     critical_line CommandResponse (Some line)"
  by (simp add: critical_line_def isValidLine_def limits)

section \<open>Queueing a response\<close>

lemma enqueue_response:
  assumes "length line < kResponseJsonBufferBytes" and "line \<noteq> []" and "last line = LF" and "nul_free line"
    and "enqueueCritical CommandResponse (Some (cstr line)) s = (r, s')"
  shows "if has_room s then r = Queued \<and> held_lines s' = held_lines s @ [(CommandResponse, line)]
     else r \<noteq> Queued \<and> s' = s"
  using cq.enq_room [OF response_critical [OF assms(1-3)], of s]
    cq.enq_full [OF response_critical [OF assms(1-3)], of s] assms(4,5) by auto

lemma enqueueError_spec:
  assumes "f64_finite cts" and "board_named (cd_identity d) board"
    and "nul_free message" and "length message \<le> kMaxErrorMessageBytes"
    and "enqueueError E seq cts code (Some message) (d, c, s, w) = (teardown, (d', c', s', w'))"
  shows "w' = snd (monotonicMilliseconds E w) \<and> cd_identity d' = cd_identity d \<and>
     (if has_room s
      then \<not> teardown \<and> c' = increment commands_error_update c \<and> held_lines s' = held_lines s @
        [(CommandResponse, error_line board seq cts (fst (monotonicMilliseconds E w)) code message)]
      else teardown \<and> c' = c \<and> s' = s)"
proof -
  have b: "board_id (cd_identity d) = Some board" "nul_free board" "length board \<le> kMaxBoardIdBytes"
    using assms(2) by (simp_all add: board_named_def)
  obtain now w1 where now: "monotonicMilliseconds E w = (now, w1)" by (cases "monotonicMilliseconds E w")
  let ?line = "error_line board seq cts now code message"
  have fits: "length ?line < kResponseJsonBufferBytes" by (rule error_line_fits [OF assms(1) b(3) assms(4)])
  have build: "buildErrorLine E (Some board) seq cts code (Some message) w = (True, (?line, w1))"
    using buildErrorLine_spec [OF assms(1) b(2) now assms(3), of seq code] fits by (simp only: if_True)
  obtain r s1 where e: "enqueueCritical CommandResponse (Some (cstr ?line)) s = (r, s1)"
    by (cases "enqueueCritical CommandResponse (Some (cstr ?line)) s")
  from enqueue_response [OF fits lines_shape(5,2,1) e] assms(5) e show ?thesis
    by (auto simp: enqueueError_def b(1) build now Let_def split: if_splits)
qed

lemma call_handler_lawful:
  assumes "lawful_board E" and "call_handler E h seq args c w = (res, ow, w1)"
  shows "result_ok res \<and> (\<exists>ms. ow_holds ms ow)"
proof (cases h)
  case (App_Handler k)
  with assms(2) have call: "commandHandler E k seq args new_object_writer w = (res, ow, w1)"
    by (simp add: call_handler_def)
  have "ow_reaches new_object_writer ow \<and> result_ok res"
    using assms(1) unfolding lawful_board_def by (metis call fst_conv snd_conv)
  then show ?thesis using ow_reaches_holds [OF _ ow_holds_new] by blast
next
  case Counters_Handler
  with assms(2) handle_diagnostics_holds [of c] show ?thesis by (auto simp: call_handler_def)
qed

lemma defaultMessage_fits: "nul_free (defaultMessage code) \<and> length (defaultMessage code) \<le> 160"
  by (cases code) simp_all

lemma validate_message:
  "validateArgs reg args = Some (code, message) \<Longrightarrow>
     nul_free message \<and> length message \<le> kMaxErrorMessageBytes"
proof -
  have "validate_declared args specs = Some (code, message) \<Longrightarrow>
      nul_free message \<and> length message \<le> kMaxErrorMessageBytes" for specs
    by (induction args specs rule: validate_declared.induct) (auto simp: limits split: if_splits)
  then show "validateArgs reg args = Some (code, message) \<Longrightarrow>
     nul_free message \<and> length message \<le> kMaxErrorMessageBytes"
    by (auto simp: validateArgs_def limits split: option.splits if_splits)
qed

section \<open>Properties\<close>

text \<open>The two ways a command can be answered.\<close>

definition answered_ok ::
    "bytes \<Rightarrow> parsed_command \<Rightarrow> counters \<Rightarrow> counters \<Rightarrow> bytes \<Rightarrow> bool" where
  "answered_ok board command c c' line \<longleftrightarrow>
     (\<exists>ts ms us. line = ok_line board (pc_seq command) (pc_controller_ts command) ts ms us) \<and>
     commands_ok c' = commands_ok c + 1 \<and> commands_error c' = commands_error c"

definition answered_error ::
    "bytes \<Rightarrow> parsed_command \<Rightarrow> counters \<Rightarrow> counters \<Rightarrow> bytes \<Rightarrow> bool" where
  "answered_error board command c c' line \<longleftrightarrow>
     (\<exists>ts code message. line = error_line board (pc_seq command) (pc_controller_ts command) ts code message) \<and>
     commands_ok c' = commands_ok c \<and> commands_error c' = commands_error c + 1"

text \<open>The world after some readings of the clock.\<close>

inductive clock_reads :: "'w env \<Rightarrow> 'w \<Rightarrow> 'w \<Rightarrow> bool" for E w where
  reads_refl: "clock_reads E w w"
| reads_ms: "clock_reads E w w1 \<Longrightarrow> clock_reads E w (snd (monotonicMilliseconds E w1))"
| reads_us: "clock_reads E w w1 \<Longrightarrow> clock_reads E w (snd (monotonicMicroseconds E w1))"

lemma error_answer:
  assumes "enqueueError E (pc_seq command) (pc_controller_ts command) code (Some message) (d, c1, s, w)
      = (teardown, (d', c', s', w'))"
    and "f64_finite (pc_controller_ts command)" and "board_named (cd_identity d) board"
    and "nul_free message" and "length message \<le> kMaxErrorMessageBytes"
    and "commands_ok c1 = commands_ok c" and "commands_error c1 = commands_error c"
    and "commands_received c1 = commands_received c + 1"
  shows "commands_received c' = commands_received c + 1 \<and> w' = snd (monotonicMilliseconds E w) \<and>
     (if has_room s
      then \<not> teardown \<and> (\<exists>ts line. line = error_line board (pc_seq command) (pc_controller_ts command) ts code message \<and>
        held_lines s' = held_lines s @ [(CommandResponse, line)] \<and> answered_error board command c c' line)
      else teardown \<and> s' = s)"
  using enqueueError_spec [OF assms(2-5,1)] assms(6-8) by (auto simp: answered_error_def split: if_splits)

text \<open>
  What a handler's result becomes. A payload too long for the response is an internal error; so
  is a result writer that refused a member.
\<close>

definition reply_line ::
    "bytes \<Rightarrow> parsed_command \<Rightarrow> u64 \<Rightarrow> u64 \<Rightarrow> (bytes \<times> json) list \<Rightarrow> u64 \<Rightarrow> bytes" where
  "reply_line board command ts ts' ms us =
     (if length (ok_line board (pc_seq command) (pc_controller_ts command) ts ms us) < kResponseJsonBufferBytes
      then ok_line board (pc_seq command) (pc_controller_ts command) ts ms us
      else error_line board (pc_seq command) (pc_controller_ts command) ts' InternalError
        ''response exceeded fixed capacity'')"

definition handler_reply ::
    "bytes \<Rightarrow> parsed_command \<Rightarrow> command_result \<Rightarrow> object_writer \<Rightarrow> (bytes \<times> json) list \<Rightarrow> bytes \<Rightarrow> bool" where
  "handler_reply board command res ow ms line \<longleftrightarrow>
     (if \<not> cr_ok res then
        (\<exists>ts. line = error_line board (pc_seq command) (pc_controller_ts command) ts
           (toBoardErrorCode (cr_error_code res)) (cr_message res))
      else if objectWriterFailed ow then
        (\<exists>ts. line = error_line board (pc_seq command) (pc_controller_ts command) ts InternalError
           ''response exceeded fixed capacity'')
      else (\<exists>ts ts' us'. line = reply_line board command ts ts' ms us'))"

text \<open>The answer when the response would be too long, or the result writer refused a member.\<close>

lemma fallback_answer:
  assumes "enqueueFallbackInternalError E (pc_seq command) (pc_controller_ts command)
      (d, increment commands_received_update c, s, w) = (teardown, (d', c', s', w'))"
    and "f64_finite (pc_controller_ts command)" and "board_named (cd_identity d) board"
  shows "commands_received c' = commands_received c + 1 \<and> w' = snd (monotonicMilliseconds E w) \<and>
     (if has_room s
      then \<not> teardown \<and> (\<exists>ts line. line = error_line board (pc_seq command) (pc_controller_ts command) ts
          InternalError ''response exceeded fixed capacity'' \<and>
        held_lines s' = held_lines s @ [(CommandResponse, line)] \<and> answered_error board command c c' line)
      else teardown \<and> s' = s)"
proof -
  have short: "nul_free ''response exceeded fixed capacity''"
    "length ''response exceeded fixed capacity'' \<le> kMaxErrorMessageBytes" by (simp_all add: limits)
  show ?thesis
    by (rule error_answer [OF assms(1) [unfolded enqueueFallbackInternalError_def] assms(2,3) short]) simp_all
qed

text \<open>A handler that succeeds, with every member it added in its result.\<close>

lemma dispatch_succeeded:
  assumes "lawful_board E" and "board_named (cd_identity d) board"
    and "f64_finite (pc_controller_ts command)"
    and "findCommand registry (pc_command command) = Some reg" and "validateArgs reg args = None"
    and "call_handler E (sc_handler reg) (pc_seq command) args
           (increment commands_received_update c) w = (res, ow, w1)" and ms: "ow_holds ms ow"
    and "dispatch E registry command args us (d, c, s, w) = (teardown, (d', c', s', w'))"
    and good: "cr_ok res" "\<not> objectWriterFailed ow"
  shows "commands_received c' = commands_received c + 1 \<and> clock_reads E w1 w' \<and>
     (if has_room s
      then \<not> teardown \<and> (\<exists>line. held_lines s' = held_lines s @ [(CommandResponse, line)] \<and>
        handler_reply board command res ow ms line \<and>
        (answered_ok board command c c' line \<or> answered_error board command c c' line))
      else teardown \<and> s' = s)"
proof -
  define c1 where "c1 = increment commands_received_update c"
  note run = assms(8) [unfolded dispatch_def prod.case Let_def, folded c1_def,
      unfolded assms(4) option.case assms(5) assms(6) [folded c1_def] prod.case]
  obtain ow1 where cl: "close_ow ow = (True, ow1)" "payload ow1 = serialise (JObject ms)"
    "\<not> objectWriterFailed ow1"
    using close_ow_succeeds [OF ms] good(2)
    by (cases "close_ow ow") (auto simp: ow_holds_def objectWriterFailed_def simp del: serialise.simps)
  obtain ready w2 where rd: "monotonicMicroseconds E w1 = (ready, w2)"
    by (cases "monotonicMicroseconds E w1")
  obtain now w3 where now: "monotonicMilliseconds E w2 = (now, w3)"
    by (cases "monotonicMilliseconds E w2")
  have two: "clock_reads E w1 w3" "clock_reads E w1 (snd (monotonicMilliseconds E w3))"
    using reads_ms [OF reads_us [OF reads_refl], of E w1] by (simp_all add: rd now reads_ms)
  have b: "board_id (cd_identity d) = Some board" "nul_free board"
    using assms(2) by (simp_all add: board_named_def)
  let ?line = "ok_line board (pc_seq command) (pc_controller_ts command) now ms (ready - us)"
  note build = buildOkLine_spec [OF assms(3) b(2) now, of "pc_seq command" ms "ready - us"]
  have reply: "handler_reply board command res ow ms (reply_line board command now ts ms (ready - us))" for ts
    using good by (auto simp: handler_reply_def)
  show ?thesis
  proof (cases "length ?line < kResponseJsonBufferBytes")
    case fits: True
    then have bl: "buildOkLine E (Some board) (pc_seq command) (pc_controller_ts command)
        (serialise (JObject ms)) (ready - us) w2 = (True, (?line, w3))"
      using build by (simp only: if_True)
    obtain r s1 where e: "enqueueCritical CommandResponse (Some (cstr ?line)) s = (r, s1)"
      by (cases "enqueueCritical CommandResponse (Some (cstr ?line)) s")
    have out: "s' = s1" "teardown = (r \<noteq> Queued)" "w' = w3"
      "c' = (if r = Queued then increment commands_ok_update c1 else c1)"
      using run good e by (auto simp: cl rd b(1) bl simp del: serialise.simps split: if_splits)
    have ans: "answered_ok board command c (increment commands_ok_update c1) ?line"
      unfolding answered_ok_def by (intro conjI exI) (simp_all add: c1_def)
    have "reply_line board command now now ms (ready - us) = ?line"
      using fits by (simp only: reply_line_def if_True)
    with enqueue_response [OF fits lines_shape(6,4,3) e] out ans two(1) reply [of now] show ?thesis
      by (auto simp: c1_def split: if_splits)
  next
    case long: False
    then obtain l where bl: "buildOkLine E (Some board) (pc_seq command) (pc_controller_ts command)
        (serialise (JObject ms)) (ready - us) w2 = (False, (l, w3))"
      using build by (simp only: if_False) blast
    from run good have "enqueueFallbackInternalError E (pc_seq command) (pc_controller_ts command)
        (d\<lparr>cd_response_line := l\<rparr>, c1, s, w3) = (teardown, (d', c', s', w'))"
      by (simp add: cl rd b(1) bl del: serialise.simps)
    have "board_named (cd_identity (d\<lparr>cd_response_line := l\<rparr>)) board" using assms(2) by simp
    note again = fallback_answer [OF \<open>enqueueFallbackInternalError _ _ _ _ = _\<close> [unfolded c1_def] assms(3) this]
    have "reply_line board command now ts ms (ready - us) =
        error_line board (pc_seq command) (pc_controller_ts command) ts InternalError
          ''response exceeded fixed capacity''" for ts
      using long by (simp only: reply_line_def if_False)
    then have "handler_reply board command res ow ms (error_line board (pc_seq command)
        (pc_controller_ts command) ts InternalError ''response exceeded fixed capacity'')" for ts
      using reply [of ts] by simp
    with again two(2) show ?thesis by (auto split: if_splits)
  qed
qed

lemma dispatch_handled:
  assumes "lawful_board E" and "board_named (cd_identity d) board"
    and "f64_finite (pc_controller_ts command)"
    and "findCommand registry (pc_command command) = Some reg" and "validateArgs reg args = None"
    and "call_handler E (sc_handler reg) (pc_seq command) args
           (increment commands_received_update c) w = (res, ow, w1)" and ms: "ow_holds ms ow"
    and "dispatch E registry command args us (d, c, s, w) = (teardown, (d', c', s', w'))"
  shows "commands_received c' = commands_received c + 1 \<and> clock_reads E w1 w' \<and>
     (if has_room s
      then \<not> teardown \<and> (\<exists>line. held_lines s' = held_lines s @ [(CommandResponse, line)] \<and>
        handler_reply board command res ow ms line \<and>
        (answered_ok board command c c' line \<or> answered_error board command c c' line))
      else teardown \<and> s' = s)"
proof -
  define c1 where "c1 = increment commands_received_update c"
  note call = assms(6) [folded c1_def]
  have res: "result_ok res" using call_handler_lawful [OF assms(1) call] by blast
  note run = assms(8) [unfolded dispatch_def prod.case Let_def, folded c1_def,
      unfolded assms(4) option.case assms(5) call prod.case]
  note one = reads_ms [OF reads_refl, of E w1]
  have cnt: "commands_ok (if b then increment invalid_arguments_update c1 else c1) = commands_ok c"
    "commands_error (if b then increment invalid_arguments_update c1 else c1) = commands_error c"
    "commands_received (if b then increment invalid_arguments_update c1 else c1) = commands_received c + 1"
    for b by (simp_all add: c1_def)
  consider (refused) "\<not> cr_ok res" | (failed) "cr_ok res" "objectWriterFailed ow"
    | (fine) "cr_ok res" "\<not> objectWriterFailed ow" by blast
  then show ?thesis
  proof cases
    case refused
    with run have e: "enqueueError E (pc_seq command) (pc_controller_ts command)
        (toBoardErrorCode (cr_error_code res)) (Some (cr_message res))
        (d, if cr_error_code res = Api_InvalidArgument then increment invalid_arguments_update c1 else c1,
         s, w1) = (teardown, (d', c', s', w'))" by simp
    have "nul_free (cr_message res)" "length (cr_message res) \<le> kMaxErrorMessageBytes"
      using res by (simp_all add: result_ok_def)
    from error_answer [OF e assms(3,2) this cnt] one refused show ?thesis
      by (auto simp: handler_reply_def split: if_splits)
  next
    case failed
    with run have "enqueueFallbackInternalError E (pc_seq command) (pc_controller_ts command)
        (d, increment commands_received_update c, s, w1) = (teardown, (d', c', s', w'))" by (simp add: c1_def)
    from fallback_answer [OF this assms(3,2)] one failed show ?thesis
      by (auto simp: handler_reply_def split: if_splits)
  next
    case fine
    show ?thesis by (rule dispatch_succeeded [OF assms fine])
  qed
qed

text \<open>
  Every command gets one answer: a success with the members its handler wrote, or an error; no
  response is built too long to be sent.
\<close>

lemma dispatch_answer:
  assumes "lawful_board E" and "board_named (cd_identity d) board"
    and "f64_finite (pc_controller_ts command)"
    and "dispatch E registry command args us (d, c, s, w) = (teardown, (d', c', s', w'))"
  shows "commands_received c' = commands_received c + 1 \<and>
     (if has_room s
      then \<not> teardown \<and> (\<exists>line. held_lines s' = held_lines s @ [(CommandResponse, line)] \<and>
        (answered_ok board command c c' line \<or> answered_error board command c c' line))
      else teardown \<and> s' = s)"
proof -
  define c1 where "c1 = increment commands_received_update c"
  note err = error_answer [OF _ assms(3,2), where c = c]
  have cnt: "commands_ok (if b then increment invalid_arguments_update c1 else c1) = commands_ok c"
    "commands_error (if b then increment invalid_arguments_update c1 else c1) = commands_error c"
    "commands_received (if b then increment invalid_arguments_update c1 else c1) = commands_received c + 1"
    for b by (simp_all add: c1_def)
  have short: "nul_free ''unknown command''" "length ''unknown command'' \<le> kMaxErrorMessageBytes"
    by (simp_all add: limits)
  show ?thesis
  proof (cases "findCommand registry (pc_command command)")
    case None
    with assms(4) have "enqueueError E (pc_seq command) (pc_controller_ts command) UnknownCommand
        (Some ''unknown command'') (d, increment unknown_commands_update c1, s, w) =
        (teardown, (d', c', s', w'))" by (simp add: dispatch_def c1_def Let_def)
    from err [OF this short] show ?thesis by (auto simp: c1_def split: if_splits)
  next
    case found: (Some reg)
    show ?thesis
    proof (cases "validateArgs reg args")
      case (Some e)
      obtain code message where e: "e = (code, message)" by (cases e)
      have m: "nul_free message" "length message \<le> kMaxErrorMessageBytes"
        using validate_message [OF Some [unfolded e]] by auto
      from Some found assms(4) have
        "enqueueError E (pc_seq command) (pc_controller_ts command) code (Some message)
          (d, if code = InvalidArgument then increment invalid_arguments_update c1 else c1, s, w) =
          (teardown, (d', c', s', w'))" by (auto simp: dispatch_def c1_def Let_def e)
      from err [OF this m cnt] show ?thesis by (auto split: if_splits)
    next
      case None
      obtain res ow w1 where call: "call_handler E (sc_handler reg) (pc_seq command) args c1 w = (res, ow, w1)"
        by (cases "call_handler E (sc_handler reg) (pc_seq command) args c1 w") auto
      then obtain ms where "ow_holds ms ow" using call_handler_lawful [OF assms(1)] by blast
      from dispatch_handled [OF assms(1-3) found None call [unfolded c1_def] this assms(4)] show ?thesis
        by (auto split: if_splits)
    qed
  qed
qed

text \<open>What makes arguments acceptable, without the loop.\<close>

definition args_members :: "command_args \<Rightarrow> (bytes \<times> json) list" where
  "args_members args = (if backingLive args then the (ab_args (the args)) else [])"

lemma validate_declared_None:
  "validate_declared args specs = None \<longleftrightarrow>
     (\<forall>spec \<in> set specs. args_has args (Some (sa_name spec)) \<and> argumentTypeMatches args spec)"
  by (induction args specs rule: validate_declared.induct) auto

lemma validate_declared_first:
  "(\<forall>spec \<in> set good. args_has args (Some (sa_name spec)) \<and> argumentTypeMatches args spec) \<Longrightarrow>
     validate_declared args (good @ specs) = validate_declared args specs"
  by (induction good) auto

lemma hasExtraArgument_iff:
  "hasExtraArgument reg args \<longleftrightarrow>
     (\<exists>m \<in> set (args_members args). \<forall>spec \<in> set (sc_args reg). cstr (sa_name spec) \<noteq> cstr (fst m))"
proof (cases "backingLive args")
  case True
  then obtain ab ms where "args = Some ab" "ab_active ab" "ab_args ab = Some ms"
    by (auto simp: backingLive_def split: option.splits)
  then show ?thesis
    by (simp add: hasExtraArgument_def recoverArgsBacking_def declaresArgument_def args_members_def
        backingLive_def list_ex_iff strcmp_eq_def)
next
  case False
  then show ?thesis
    by (auto simp: hasExtraArgument_def recoverArgsBacking_def args_members_def backingLive_def
        split: option.splits)
qed



text \<open>
  C20: a handler runs only for a registered command with acceptable arguments. When the command is
  unknown or its arguments are refused, the world has seen nothing but the reading of the clock
  that dates the response, and the response names the reason.
\<close>

theorem dispatch_refuses_before_handler:
  assumes "f64_finite (pc_controller_ts command)" and "board_named (cd_identity d) board"
    and "findCommand registry (pc_command command) = None \<and> code = UnknownCommand \<and>
           message = ''unknown command'' \<or>
         (\<exists>reg. findCommand registry (pc_command command) = Some reg \<and>
            validateArgs reg args = Some (code, message))"
    and "has_room s"
    and "dispatch E registry command args us (d, c, s, w) = (teardown, (d', c', s', w'))"
  shows "w' = snd (monotonicMilliseconds E w) \<and> \<not> teardown \<and>
     held_lines s' = held_lines s @
       [(CommandResponse, error_line board (pc_seq command) (pc_controller_ts command)
          (fst (monotonicMilliseconds E w)) code message)] \<and>
     unknown_commands c' = unknown_commands c + (if code = UnknownCommand then 1 else 0) \<and>
     invalid_arguments c' = invalid_arguments c + (if code = InvalidArgument then 1 else 0)"
proof -
  define c1 where "c1 = (let c0 = increment commands_received_update c in
      if code = UnknownCommand then increment unknown_commands_update c0
      else if code = InvalidArgument then increment invalid_arguments_update c0 else c0)"
  have m: "nul_free message" "length message \<le> kMaxErrorMessageBytes"
    using assms(3) validate_message by (auto simp: limits)
  have nu: "validateArgs reg args = Some (code, message) \<Longrightarrow> code \<noteq> UnknownCommand" for reg
  proof -
    have "validate_declared args specs \<noteq> Some (UnknownCommand, m)" for specs m
      by (induction args specs rule: validate_declared.induct) auto
    then show "validateArgs reg args = Some (code, message) \<Longrightarrow> code \<noteq> UnknownCommand"
      by (auto simp: validateArgs_def split: option.splits if_splits)
  qed
  have "enqueueError E (pc_seq command) (pc_controller_ts command) code (Some message) (d, c1, s, w) =
      (teardown, (d', c', s', w'))"
    using assms(3,5) nu by (auto simp: dispatch_def c1_def Let_def)
  from enqueueError_spec [OF assms(1,2) m this] assms(4) show ?thesis
    by (auto simp: c1_def Let_def)
qed

lemma dispatch_refuses_before_handler_witness:
  "\<exists>st. dispatch (sample_env 1) new_registry
       \<lparr>pc_seq = 4, pc_controller_ts = 0, pc_command = Some ''go'', pc_args_bound = False\<rparr> None 0
       (new_dispatcher \<lparr>board_id = Some ''b'', protocol_version = None, firmware_version = None\<rparr>,
        zero_counters, new_scheduler, (3, [])) = (False, st) \<and>
     held_lines (fst (snd (snd st))) =
       [(CommandResponse, error_line ''b'' 4 0 3 UnknownCommand ''unknown command'')]"
proof -
  let ?d = "new_dispatcher \<lparr>board_id = Some ''b'', protocol_version = None, firmware_version = None\<rparr>"
  let ?cmd = "\<lparr>pc_seq = 4, pc_controller_ts = 0, pc_command = Some ''go'', pc_args_bound = False\<rparr>"
  obtain td d' c' s' w' where run: "dispatch (sample_env 1) new_registry ?cmd None 0
      (?d, zero_counters, new_scheduler, (3, [])) = (td, (d', c', s', w'))" by (metis surj_pair)
  have b: "board_named (cd_identity ?d) ''b''" by (simp add: board_named_def new_dispatcher_def limits)
  have f: "f64_finite (pc_controller_ts ?cmd)" by (simp add: f64_finite_def f64_exponent_def)
  have room: "has_room new_scheduler" "held_lines new_scheduler = []"
    by (simp_all add: has_room_def held_lines_def new_scheduler_def limits)
  have none: "findCommand new_registry (pc_command ?cmd) = None \<and> UnknownCommand = UnknownCommand \<and>
           ''unknown command'' = ''unknown command'' \<or>
         (\<exists>reg. findCommand new_registry (pc_command ?cmd) = Some reg \<and>
            validateArgs reg None = Some (UnknownCommand, ''unknown command''))"
    by (simp add: findCommand_def new_registry_def)
  have "fst (monotonicMilliseconds (sample_env 1) (3, [])) = 3" by (simp add: sample_env_def)
  with dispatch_refuses_before_handler [OF f b none room(1) run] run room(2) show ?thesis by auto
qed

section \<open>What the handler reports is what is sent\<close>

lemma length_spliced:
  "length (serialise (JObject (ms @ [(kBoardProcUs, JUnsigned us)]))) \<le>
     length (serialise (JObject ms)) + 17 + length (dec_u64 us)"
  unfolding serialise_object by (simp add: join_with_snoc member_text_def quoted_plain plain_char_def)





end
