(* ===== verification/EstopHandler.thy ===== *)
theory EstopHandler
  imports InboundParser OutboundScheduler
begin

text \<open>
  The two e-stop paths of \<open>src/core/EstopHandler.h\<close>: a controller's \<open>estop\<close> message, which runs the
  board's hook and is acknowledged only when the hook reports the safe state; and the
  \<open>estop_triggered\<close> event the board raises itself, which is kept pending until it was sent.
\<close>

section \<open>State and operations\<close>

datatype pending_state = Pending_Empty | Pending_NotQueued | QueuedAwaitingCompletion

text \<open>\<open>eh_reason\<close> is \<open>reason_[0 .. reason_length_)\<close>.\<close>

record estop_handler =
  eh_state :: pending_state
  eh_reason :: bytes
  eh_timestamp_ms :: u64

definition new_estop_handler :: estop_handler where
  "new_estop_handler = \<lparr>eh_state = Pending_Empty, eh_reason = [], eh_timestamp_ms = 0\<rparr>"

definition boundedLength_reason :: "c_string \<Rightarrow> nat \<Rightarrow> nat" where
  "boundedLength_reason value capacity =
     (case value of None \<Rightarrow> capacity + 1 | Some v \<Rightarrow> scan_length capacity v)"

text \<open>A \<open>const Clock*\<close> that may be null: \<open>clock\<close> says whether it is not.\<close>

definition clock_ms :: "'w env \<Rightarrow> bool \<Rightarrow> 'w \<Rightarrow> u64 \<times> 'w" where
  "clock_ms E clock w = (if clock then monotonicMilliseconds E w else (0, w))"

definition clock_us :: "'w env \<Rightarrow> bool \<Rightarrow> 'w \<Rightarrow> u64 \<times> 'w" where
  "clock_us E clock w = (if clock then monotonicMicroseconds E w else (0, w))"

definition requestEstopTriggered ::
    "'w env \<Rightarrow> bool \<Rightarrow> c_string \<Rightarrow> estop_handler \<times> outbound_scheduler \<times> 'w \<Rightarrow>
     status \<times> estop_handler \<times> outbound_scheduler \<times> 'w" where
  "requestEstopTriggered E clock reason st =
     (case st of (h, s, w) \<Rightarrow>
        if eh_state h \<noteq> Pending_Empty
        then ((CapacityExceeded, ''estop_triggered event is already pending''), st)
        else let len = boundedLength_reason reason kEstopTriggeredReasonMaxBytes in
          if reason = None \<or> kEstopTriggeredReasonMaxBytes < len
          then ((CapacityExceeded, ''estop_triggered reason exceeds capacity''), st)
          else case clock_ms E clock w of
            (now, w1) \<Rightarrow>
              ((Ok, ''ok''),
               (\<lparr>eh_state = Pending_NotQueued, eh_reason = take len (the reason),
                 eh_timestamp_ms = now\<rparr>, markEstopTriggeredPending s, w1)))"

text \<open>
  The clock is read between the second and the third member of the acknowledgement; on the fresh
  buffer the two before it cannot fail (\<open>ack_start_fits\<close>), so it is read in any case, and
  \<open>timestamp\<close> is what it read.
\<close>

definition buildEstopAckLine :: "board_identity \<Rightarrow> u64 \<Rightarrow> nat \<Rightarrow> bytes option" where
  [builder]: "buildEstopAckLine identity timestamp capacity =
     build_line capacity
       [beginObject,
        addString (Some kType) (Some (toString_message_type Event)),
        addUInt64 (Some kTimestamp) timestamp,
        addString (Some kSource) (board_id identity),
        addString (Some kTarget) (Some ''controller''),
        addString (Some kEvent) (Some (toString_event_name EstopAck_Event)),
        beginObjectField (Some kDetails),
        addString (Some kState) (Some kEstopAckSafeState),
        endObject,
        endObject]"

definition buildEstopTriggeredLine :: "estop_handler \<Rightarrow> board_identity \<Rightarrow> nat \<Rightarrow> bytes option" where
  [builder]: "buildEstopTriggeredLine h identity capacity =
     build_line capacity
       [beginObject,
        addString (Some kType) (Some (toString_message_type Event)),
        addUInt64 (Some kTimestamp) (eh_timestamp_ms h),
        addString (Some kSource) (board_id identity),
        addString (Some kTarget) (Some ''controller''),
        addString (Some kEvent) (Some (toString_event_name EstopTriggered_Event)),
        beginObjectField (Some kDetails),
        addStringBytes (Some kReason) (Some (eh_reason h)),
        endObject,
        endObject]"

definition handleEstop ::
    "'w env \<Rightarrow> board_identity \<Rightarrow> bool \<Rightarrow> nat option \<Rightarrow> counters \<times> outbound_scheduler \<times> 'w \<Rightarrow>
     bool \<times> counters \<times> outbound_scheduler \<times> 'w" where
  "handleEstop E identity clock hook st =
     (case st of (c, s, w) \<Rightarrow>
        let c1 = increment estop_received_update c in
        case hook of
          None \<Rightarrow> (False, (increment estop_apply_failed_update c1, s, w))
        | Some h \<Rightarrow>
            case clock_us E clock w of (start_us, w1) \<Rightarrow>
            case safetyHook E h w1 of (safe, w2) \<Rightarrow>
            case clock_us E clock w2 of (end_us, w3) \<Rightarrow>
              let c2 = (if kHookBudgetMs * 1000 < end_us - start_us
                        then increment estop_hook_over_budget_update c1 else c1) in
              if \<not> safe then (False, (increment estop_apply_failed_update c2, s, w3))
              else case clock_ms E clock w3 of (now, w4) \<Rightarrow>
                case buildEstopAckLine identity now kEventJsonBufferBytes of
                  None \<Rightarrow> (True, (increment estop_apply_failed_update c2, s, w4))
                | Some line \<Rightarrow>
                    case enqueueCritical EstopAck (Some line) s of
                      (result, s1) \<Rightarrow> (result \<noteq> Queued, (c2, s1, w4)))"

definition service_estop ::
    "board_identity \<Rightarrow> estop_handler \<times> outbound_scheduler \<Rightarrow>
     bool \<times> estop_handler \<times> outbound_scheduler" where
  "service_estop identity st =
     (case st of (h, s) \<Rightarrow>
        if eh_state h \<noteq> Pending_NotQueued then (False, st)
        else case buildEstopTriggeredLine h identity kEventJsonBufferBytes of
          None \<Rightarrow> (True, st)
        | Some line \<Rightarrow>
            case enqueueCritical EstopTriggered (Some line) (markEstopTriggeredPending s) of
              (result, s1) \<Rightarrow>
                if result = Queued then (False, (h\<lparr>eh_state := QueuedAwaitingCompletion\<rparr>, s1))
                else (result = TeardownRequested, (h, markEstopTriggeredPending s1)))"

definition clearPending :: "estop_handler \<Rightarrow> estop_handler" where
  "clearPending h = \<lparr>eh_state = Pending_Empty, eh_reason = [], eh_timestamp_ms = 0\<rparr>"

definition onOutboundOutcome ::
    "outbound_outcome \<Rightarrow> estop_handler \<times> outbound_scheduler \<Rightarrow> estop_handler \<times> outbound_scheduler" where
  "onOutboundOutcome outcome st =
     (case st of (h, s) \<Rightarrow>
        if oo_kind outcome \<noteq> EstopTriggered \<or> eh_state h \<noteq> QueuedAwaitingCompletion then st
        else if oo_completion outcome = Completed_Sent then (clearPending h, s)
        else (h\<lparr>eh_state := Pending_NotQueued\<rparr>, markEstopTriggeredPending s))"

section \<open>What is sent\<close>

definition event_members :: "bytes \<Rightarrow> u64 \<Rightarrow> bytes \<Rightarrow> bytes \<Rightarrow> bytes \<Rightarrow> (bytes \<times> json) list" where
  "event_members board ts event detail dv =
     [(kType, JString ''event''), (kTimestamp, JUnsigned ts), (kSource, JString board),
      (kTarget, JString ''controller''), (kEvent, JString event),
      (kDetails, JObject [(detail, JString dv)])]"

abbreviation ack_line :: "bytes \<Rightarrow> u64 \<Rightarrow> bytes" where
  "ack_line board ts \<equiv> line_of (event_members board ts ''estop_ack'' ''state'' ''safe'')"

abbreviation triggered_line :: "bytes \<Rightarrow> u64 \<Rightarrow> bytes \<Rightarrow> bytes" where
  "triggered_line board ts reason \<equiv>
     line_of (event_members board ts ''estop_triggered'' ''reason'' reason)"

lemma ack_start_fits:
  "fst (run_all [beginObject, addString (Some kType) (Some (toString_message_type Event))]
     (snd (reserveTailBytes 1 (new_writer kEventJsonBufferBytes))))"
  by (simp add: beginObject_def addString_def addStringBytes_def inObject_def reserveTailBytes_def
      new_writer_def appendByte_def appendBytes_def remaining_def writeFieldPrefix_def
      writeEscapedString_def escape_with_def limits)

lemma writes_event_line:
  assumes "board_named identity board" and "\<And>w. detail w = addStringBytes (Some dn) (Some dv) w"
    and "nul_free ev"
  shows "writes (run_all
       [beginObject, addString (Some kType) (Some (toString_message_type Event)),
        addUInt64 (Some kTimestamp) ts, addString (Some kSource) (board_id identity),
        addString (Some kTarget) (Some ''controller''), addString (Some kEvent) (Some ev),
        beginObjectField (Some kDetails), detail, endObject, endObject])
     (object_events (event_members board ts ev dn dv))"
proof -
  have detail: "detail = exec_event (FieldStr dn dv)" using assms(2) by (simp add: fun_eq_iff)
  have "writes (run_all
       [beginObject, addString (Some kType) (Some (toString_message_type Event)),
        addUInt64 (Some kTimestamp) ts, addString (Some kSource) (board_id identity),
        addString (Some kTarget) (Some ''controller''), addString (Some kEvent) (Some ev),
        beginObjectField (Some kDetails), detail, endObject, endObject])
     (concat [[ObjBegin], [FieldStr kType ''event''], [FieldLit kTimestamp (dec_u64 ts)],
        [FieldStr kSource board], [FieldStr kTarget ''controller''], [FieldStr kEvent ev],
        [FieldBegin kDetails], [FieldStr dn dv], [ObjEnd], [ObjEnd]])"
    by (rule writes_run_all)
      (simp add: as_events(1-4,6) writes_event assms(1) [unfolded board_named_def] assms(3) detail
        del: exec_event.simps member_events.simps concat.simps run_all.simps)
  then show ?thesis by (simp add: event_members_def object_events_def)
qed

lemma event_line_fits:
  assumes "length board \<le> kMaxBoardIdBytes" and "length dv \<le> kEstopTriggeredReasonMaxBytes"
    and "ev = ''estop_ack'' \<or> ev = ''estop_triggered''" and "detail = ''state'' \<or> detail = ''reason''"
  shows "length (line_of (event_members board ts ev detail dv)) \<le> 2048"
  using assms length_quoted_le [of hex_upper board] length_quoted_le [of hex_upper dv]
    length_dec_u64 [of ts]
  by (auto simp: line_of_def event_members_def quoted_plain plain_char_def limits)

lemma build_event_line:
  assumes "nul_free detail" and "writes (run_all ops) (object_events (event_members board ts ev detail dv))"
    and "length (line_of (event_members board ts ev detail dv)) \<le> 2048"
  shows "build_line kEventJsonBufferBytes ops = Some (line_of (event_members board ts ev detail dv))"
proof -
  have "json_depth (JObject (event_members board ts ev detail dv)) \<le> kMaxJsonNestingDepth"
    "json_names_ok (JObject (event_members board ts ev detail dv))"
    using assms(1) by (simp_all add: event_members_def limits)
  from build_line_members [OF _ this assms(2), of kEventJsonBufferBytes] assms(3)
  show ?thesis by (simp add: limits)
qed

lemma buildEstopAckLine_eq:
  assumes "board_named identity board"
  shows "buildEstopAckLine identity ts kEventJsonBufferBytes = Some (ack_line board ts)"
proof -
  have board: "length board \<le> kMaxBoardIdBytes" using assms by (simp add: board_named_def)
  have fits: "length (ack_line board ts) \<le> 2048"
    by (rule event_line_fits [OF board]) (simp_all add: limits)
  have "writes (run_all
       [beginObject, addString (Some kType) (Some (toString_message_type Event)),
        addUInt64 (Some kTimestamp) ts, addString (Some kSource) (board_id identity),
        addString (Some kTarget) (Some ''controller''), addString (Some kEvent) (Some ''estop_ack''),
        beginObjectField (Some kDetails), addString (Some kState) (Some kEstopAckSafeState),
        endObject, endObject])
     (object_events (event_members board ts ''estop_ack'' ''state'' ''safe''))"
    by (rule writes_event_line [OF assms]) (simp_all add: addString_def kEstopAckSafeState_def)
  from build_event_line [OF _ this fits] show ?thesis by (simp add: buildEstopAckLine_def)
qed

lemma buildEstopTriggeredLine_eq:
  assumes "board_named identity board" and "length (eh_reason h) \<le> kEstopTriggeredReasonMaxBytes"
  shows "buildEstopTriggeredLine h identity kEventJsonBufferBytes =
     Some (triggered_line board (eh_timestamp_ms h) (eh_reason h))"
proof -
  have board: "length board \<le> kMaxBoardIdBytes" using assms by (simp add: board_named_def)
  have fits: "length (triggered_line board (eh_timestamp_ms h) (eh_reason h)) \<le> 2048"
    by (rule event_line_fits [OF board assms(2)]) simp_all
  have "writes (run_all
       [beginObject, addString (Some kType) (Some (toString_message_type Event)),
        addUInt64 (Some kTimestamp) (eh_timestamp_ms h), addString (Some kSource) (board_id identity),
        addString (Some kTarget) (Some ''controller''),
        addString (Some kEvent) (Some ''estop_triggered''),
        beginObjectField (Some kDetails), addStringBytes (Some kReason) (Some (eh_reason h)),
        endObject, endObject])
     (object_events (event_members board (eh_timestamp_ms h) ''estop_triggered'' ''reason'' (eh_reason h)))"
    by (rule writes_event_line [OF assms(1)]) simp_all
  from build_event_line [OF _ this fits] show ?thesis by (simp add: buildEstopTriggeredLine_def)
qed

section \<open>The acknowledgement\<close>

lemma handleEstop_acks:
  assumes "board_named identity board"
  shows "let (teardown, (c', s', w')) = handleEstop E identity clock hook (c, s, w) in
     estop_received c' = estop_received c + 1 \<and>
     (if \<exists>h. hook = Some h \<and> fst (safetyHook E h (snd (clock_us E clock w)))
      then estop_apply_failed c' = estop_apply_failed c \<and>
        (if has_room s
         then \<not> teardown \<and> (\<exists>ts. held_lines s' = held_lines s @ [(EstopAck, ack_line board ts)])
         else teardown \<and> s' = s)
      else \<not> teardown \<and> s' = s \<and> estop_apply_failed c' = estop_apply_failed c + 1)"
proof (cases hook)
  case None
  then show ?thesis by (simp add: handleEstop_def Let_def)
next
  case (Some h)
  obtain start w1 where us: "clock_us E clock w = (start, w1)" by (cases "clock_us E clock w")
  obtain safe w2 where hk: "safetyHook E h w1 = (safe, w2)" by (cases "safetyHook E h w1")
  obtain stop w3 where ue: "clock_us E clock w2 = (stop, w3)" by (cases "clock_us E clock w2")
  obtain now w4 where ms: "clock_ms E clock w3 = (now, w4)" by (cases "clock_ms E clock w3")
  have "length (ack_line board now) \<le> 2048"
    using assms by (intro event_line_fits) (simp_all add: board_named_def limits)
  then have crit: "critical_line EstopAck (Some (ack_line board now))"
    by (intro line_of_critical) (simp_all add: limits)
  show ?thesis
    using cq.enq_room [OF crit, of s] cq.enq_full [OF crit, of s]
    by (cases "enqueueCritical EstopAck (Some (ack_line board now)) s"; cases safe)
      (auto simp: handleEstop_def Some us hk ue ms buildEstopAckLine_eq [OF assms] Let_def)
qed

definition sample_board :: board_identity where
  "sample_board = \<lparr>board_id = Some ''b'', protocol_version = Some ''1'', firmware_version = Some ''2''\<rparr>"

lemma sample_board_named: "board_named sample_board ''b''"
  by (simp add: board_named_def sample_board_def limits)

section \<open>The event the board raises\<close>

text \<open>
  Everything that happens to the handler and the queue, labelled with the outcomes it reports to
  the handler: requests and service of the handler, lines other parts queue, draining one line, and
  the end of a session.
\<close>

inductive estop_step ::
    "'w env \<Rightarrow> board_identity \<Rightarrow> (c_string \<Rightarrow> message_class \<Rightarrow> 's \<Rightarrow> (outbound_send_result \<times> 's) option) \<Rightarrow>
     estop_handler \<times> outbound_scheduler \<Rightarrow> outbound_outcome list \<Rightarrow>
     estop_handler \<times> outbound_scheduler \<Rightarrow> bool" for E identity send where
  es_request: "requestEstopTriggered E clock reason (h, s, w) = (st, (h', s', w')) \<Longrightarrow>
     estop_step E identity send (h, s) [] (h', s')"
| es_service: "service_estop identity (h, s) = (teardown, st') \<Longrightarrow>
     estop_step E identity send (h, s) [] st'"
| es_enqueue: "kind \<noteq> EstopTriggered \<Longrightarrow> enqueueCritical kind line s = (r, s') \<Longrightarrow>
     estop_step E identity send (h, s) [] (h, s')"
| es_telemetry: "replaceTelemetry line (c, s) = (r, (c', s')) \<Longrightarrow>
     estop_step E identity send (h, s) [] (h, s')"
| es_drain: "drainOne send s session = Some (Some outcome, s', session') \<Longrightarrow>
     estop_step E identity send (h, s) [outcome] (onOutboundOutcome outcome (h, s'))"
| es_end: "clearForSessionEnd s = (batch, s') \<Longrightarrow>
     estop_step E identity send (h, s) batch (fold onOutboundOutcome batch (h, s'))"

inductive_cases estop_stepE: "estop_step E identity send (h, s) outcomes st'"

inductive estop_run ::
    "'w env \<Rightarrow> board_identity \<Rightarrow> (c_string \<Rightarrow> message_class \<Rightarrow> 's \<Rightarrow> (outbound_send_result \<times> 's) option) \<Rightarrow>
     estop_handler \<times> outbound_scheduler \<Rightarrow> outbound_outcome list \<Rightarrow>
     estop_handler \<times> outbound_scheduler \<Rightarrow> bool" for E identity send where
  er_refl: "estop_run E identity send st [] st"
| er_step: "estop_run E identity send st os st1 \<Longrightarrow> estop_step E identity send st1 os1 st2 \<Longrightarrow>
     estop_run E identity send st (os @ os1) st2"

definition triggered_entries :: "outbound_scheduler \<Rightarrow> bytes list" where
  "triggered_entries s = map ce_bytes (filter (\<lambda>e. ce_kind e = EstopTriggered) (os_critical s))"

text \<open>
  The link between the handler and the queue: the queue holds the event's line exactly while the
  handler waits for its completion, and both agree on where it is.
\<close>

definition estop_linked :: "bytes \<Rightarrow> estop_handler \<times> outbound_scheduler \<Rightarrow> bool" where
  "estop_linked board st \<longleftrightarrow>
     (case st of (h, s) \<Rightarrow>
        scheduler_ok s \<and> length (eh_reason h) \<le> kEstopTriggeredReasonMaxBytes \<and>
        triggered_entries s =
          (if eh_state h = QueuedAwaitingCompletion
           then [triggered_line board (eh_timestamp_ms h) (eh_reason h)] else []) \<and>
        os_estop_triggered s =
          (case eh_state h of
             Pending_Empty \<Rightarrow> NotPending
           | Pending_NotQueued \<Rightarrow> PendingNotQueued
           | QueuedAwaitingCompletion \<Rightarrow> Pending_Queued))"

lemmas linked_defs = estop_linked_def triggered_entries_def

lemma linked_request:
  assumes "requestEstopTriggered E clock reason (h, s, w) = (st, (h', s', w'))" and "estop_linked board (h, s)"
  shows "estop_linked board (h', s') \<and> (eh_state h \<noteq> Pending_Empty \<longrightarrow> h' = h)"
proof (cases "h' = h \<and> s' = s")
  case True
  with assms(2) show ?thesis by simp
next
  case False
  with assms(1) obtain v now where v: "eh_state h = Pending_Empty"
    "scan_length kEstopTriggeredReasonMaxBytes v \<le> kEstopTriggeredReasonMaxBytes"
    "h' = \<lparr>eh_state = Pending_NotQueued,
      eh_reason = take (scan_length kEstopTriggeredReasonMaxBytes v) v, eh_timestamp_ms = now\<rparr>"
    "s' = markEstopTriggeredPending s"
    by (cases reason) (auto simp: requestEstopTriggered_def boundedLength_reason_def Let_def not_less
        split: if_splits prod.splits)
  with assms(2) show ?thesis
    by (auto simp: linked_defs markEstopTriggeredPending_def scheduler_ok_def)
qed

lemma triggered_entries_enqueue:
  assumes "enqueueCritical kind (Some line) s = (r, s')"
  shows "triggered_entries s' = triggered_entries s @ (if r = Queued \<and> kind = EstopTriggered then [line] else [])"
  using assms by (auto simp: enqueueCritical_def triggered_entries_def split: if_splits)

lemma linked_service:
  assumes "service_estop identity (h, s) = (td, (h', s'))" and "board_named identity board"
    and "estop_linked board (h, s)"
  shows "estop_linked board (h', s') \<and> (eh_state h \<noteq> Pending_Empty \<longrightarrow>
     eh_state h' \<noteq> Pending_Empty \<and> eh_reason h' = eh_reason h \<and> eh_timestamp_ms h' = eh_timestamp_ms h)"
proof (cases "eh_state h = Pending_NotQueued")
  case False
  with assms show ?thesis by (simp add: service_estop_def)
next
  case True
  let ?line = "triggered_line board (eh_timestamp_ms h) (eh_reason h)"
  have len: "length (eh_reason h) \<le> kEstopTriggeredReasonMaxBytes" and s: "scheduler_ok s"
    and p: "os_estop_triggered s = PendingNotQueued"
    using assms(3) True by (simp_all add: linked_defs)
  have mark: "markEstopTriggeredPending s = s" using p by (simp add: markEstopTriggeredPending_def)
  obtain r s1 where e: "enqueueCritical EstopTriggered (Some ?line) s = (r, s1)"
    by (cases "enqueueCritical EstopTriggered (Some ?line) s")
  have s1: "scheduler_ok s1" using enqueueCritical_ok [OF s, of EstopTriggered "Some ?line"] e by simp
  show ?thesis
  proof (cases "r = Queued")
    case q: True
    have "os_estop_triggered s1 = Pending_Queued"
      using e q by (auto simp: enqueueCritical_def split: if_splits)
    with q True assms(1,3) s1 triggered_entries_enqueue [OF e] show ?thesis
      by (auto simp: service_estop_def buildEstopTriggeredLine_eq [OF assms(2) len] mark e estop_linked_def)
  next
    case q: False
    then have "s1 = s" using e by (auto simp: enqueueCritical_def split: if_splits)
    with q True assms(1,3) show ?thesis
      by (auto simp: service_estop_def buildEstopTriggeredLine_eq [OF assms(2) len] mark e)
  qed
qed

lemma linked_enqueue:
  assumes "enqueueCritical kind line s = (r, s')" and "kind \<noteq> EstopTriggered" and "estop_linked board (h, s)"
  shows "estop_linked board (h, s')"
proof -
  have "scheduler_ok s'" using enqueueCritical_ok [of s kind line] assms(1,3) by (simp add: estop_linked_def)
  with assms show ?thesis by (auto simp: linked_defs enqueueCritical_def split: if_splits)
qed

lemma linked_telemetry:
  assumes "replaceTelemetry line (c, s) = (r, (c', s'))" and "estop_linked board (h, s)"
  shows "estop_linked board (h, s')"
proof -
  have "scheduler_ok s'"
    using replaceTelemetry_ok [of s line c] assms by (simp add: estop_linked_def)
  with assms show ?thesis by (auto simp: linked_defs replaceTelemetry_def split: if_splits)
qed

text \<open>What the handler keeps unless its event is reported as sent.\<close>

definition still_pending :: "estop_handler \<Rightarrow> estop_handler \<Rightarrow> bool" where
  "still_pending h h' \<longleftrightarrow> eh_state h' \<noteq> Pending_Empty \<and> eh_reason h' = eh_reason h \<and>
     eh_timestamp_ms h' = eh_timestamp_ms h"

definition triggered_sent :: outbound_outcome where
  "triggered_sent = \<lparr>oo_kind = EstopTriggered, oo_completion = Completed_Sent\<rparr>"

lemma drainOne_cases:
  assumes "drainOne send s session = Some (Some outcome, s', session')"
  obtains (critical) xs e ys result where "os_critical s = xs @ e # ys" "s' = removeCritical (length xs) s"
      "outcome = \<lparr>oo_kind = ce_kind e, oo_completion = completionFor result\<rparr>"
  | (telemetry) result where "s' = s\<lparr>os_telemetry := None\<rparr>"
      "outcome = \<lparr>oo_kind = Telemetry_Line, oo_completion = completionFor result\<rparr>"
proof (cases "selectCriticalIndex s")
  case None
  with assms telemetry show ?thesis by (auto simp: drainOne_def split: option.splits)
next
  case (Some index)
  obtain xs e ys where q: "os_critical s = xs @ e # ys" "length xs = index"
    using selectCriticalIndex_first [OF Some] by blast
  then have "os_critical s ! index = e" by auto
  with Some assms q obtain result where
    "outcome = \<lparr>oo_kind = ce_kind e, oo_completion = completionFor result\<rparr>"
    "s' = removeCritical (length xs) s" by (auto simp: drainOne_def split: option.splits)
  with q(1) show ?thesis by (intro critical)
qed

lemma linked_drain:
  assumes "drainOne send s session = Some (Some outcome, s', session')" and "estop_linked board (h, s)"
    and "onOutboundOutcome outcome (h, s') = (h', s'')"
  shows "estop_linked board (h', s'') \<and>
     (eh_state h \<noteq> Pending_Empty \<and> outcome \<noteq> triggered_sent \<longrightarrow> still_pending h h')"
proof -
  have ok': "scheduler_ok s'" using drainOne_ok [OF _ assms(1)] assms(2) by (simp add: estop_linked_def)
  from assms(1) show ?thesis
  proof (cases rule: drainOne_cases)
    case (telemetry result)
    with assms(2,3) ok' show ?thesis
      by (auto simp: onOutboundOutcome_def linked_defs still_pending_def)
  next
    case (critical xs e ys result)
    note s' = critical(2) [unfolded removeCritical_split [OF critical(1)]]
    show ?thesis
    proof (cases "ce_kind e = EstopTriggered")
      case False
      with critical s' assms(2,3) ok' show ?thesis
        by (auto simp: onOutboundOutcome_def linked_defs still_pending_def)
    next
      case True
      have queued: "eh_state h = QueuedAwaitingCompletion" and none: "triggered_entries s' = []"
        using assms(2) critical(1) True s' by (auto simp: linked_defs filter_empty_conv Cons_eq_append_conv
            append_eq_Cons_conv split: if_splits)
      have np: "os_estop_triggered s' = NotPending" using s' True by simp
      show ?thesis
      proof (cases "completionFor result = Completed_Sent")
        case sent: True
        with True critical queued assms(3) have "h' = clearPending h" "s'' = s'"
          by (simp_all add: onOutboundOutcome_def)
        with sent ok' none np critical True show ?thesis
          by (simp add: estop_linked_def clearPending_def triggered_sent_def)
      next
        case failed: False
        with True critical queued assms(3) have "h' = h\<lparr>eh_state := Pending_NotQueued\<rparr>"
          "s'' = markEstopTriggeredPending s'" by (simp_all add: onOutboundOutcome_def)
        with ok' none np assms(2) show ?thesis
          by (simp add: linked_defs markEstopTriggeredPending_def still_pending_def scheduler_ok_def)
      qed
    qed
  qed
qed

lemma fold_canceled:
  "fold onOutboundOutcome (map canceled ks) (h, s) =
     (if EstopTriggered \<in> set ks \<and> eh_state h = QueuedAwaitingCompletion
      then (h\<lparr>eh_state := Pending_NotQueued\<rparr>, markEstopTriggeredPending s) else (h, s))"
  by (induction ks arbitrary: h s) (auto simp: onOutboundOutcome_def canceled_def)

lemma linked_end:
  assumes "clearForSessionEnd s = (batch, s')" and "estop_linked board (h, s)"
    and "fold onOutboundOutcome batch (h, s') = (h', s'')"
  shows "estop_linked board (h', s'') \<and> (eh_state h \<noteq> Pending_Empty \<longrightarrow> still_pending h h') \<and>
     triggered_sent \<notin> set batch"
proof -
  have ok: "scheduler_ok s" using assms(2) by (simp add: estop_linked_def)
  define ks where "ks = map ce_kind (os_critical s) @ (if os_telemetry s = None then [] else [Telemetry_Line])"
  have batch: "batch = map canceled ks" and s': "s' = \<lparr>os_critical = [], os_telemetry = None,
      os_estop_triggered = (if EstopTriggered \<in> set ks then PendingNotQueued else os_estop_triggered s)\<rparr>"
    using assms(1) clearForSessionEnd_eq [OF ok] by (auto simp: ks_def)
  have ks: "EstopTriggered \<in> set ks \<longleftrightarrow> eh_state h = QueuedAwaitingCompletion"
    using assms(2) by (auto simp: linked_defs ks_def filter_empty_conv filter_eq_Cons_iff split: if_splits)
  have "triggered_sent \<notin> set batch" by (auto simp: batch triggered_sent_def canceled_def)
  moreover have "(h', s'') = (if eh_state h = QueuedAwaitingCompletion
      then (h\<lparr>eh_state := Pending_NotQueued\<rparr>, s') else (h, s'))"
    using assms(3) fold_canceled [of ks h s'] ks s'
    by (auto simp: batch markEstopTriggeredPending_def)
  moreover have "scheduler_ok s'" using clearForSessionEnd_ok [OF ok] assms(1) by simp
  ultimately show ?thesis
    using assms(2) s' ks
    by (auto simp: linked_defs still_pending_def split: if_splits pending_state.splits)
qed

lemma estop_step_linked:
  assumes "estop_step E identity send st os st'" and "board_named identity board" and "estop_linked board st"
  shows "estop_linked board st' \<and>
     (eh_state (fst st) \<noteq> Pending_Empty \<and> triggered_sent \<notin> set os \<longrightarrow> still_pending (fst st) (fst st'))"
  using assms
proof cases
  case (es_request clock reason h s w st1 h' s' w')
  with linked_request [OF es_request(4)] assms(3) show ?thesis by (auto simp: still_pending_def)
next
  case (es_service h s teardown)
  then show ?thesis
    using linked_service [of identity h s teardown "fst st'" "snd st'" board] assms(2,3)
    by (auto simp: still_pending_def)
next
  case (es_enqueue kind line s r s' h)
  then show ?thesis using linked_enqueue [OF es_enqueue(5,4)] assms(3) by (auto simp: still_pending_def)
next
  case (es_telemetry line c s r c' s' h)
  then show ?thesis using linked_telemetry [OF es_telemetry(4)] assms(3) by (auto simp: still_pending_def)
next
  case (es_drain s session outcome s' session' h)
  then show ?thesis
    using linked_drain [OF es_drain(4), of board h "fst st'" "snd st'"] assms(3) by auto
next
  case (es_end s s' h)
  then show ?thesis
    using linked_end [OF es_end(3), of board h "fst st'" "snd st'"] assms(3) by auto
qed

lemma new_estop_linked: "estop_linked board (new_estop_handler, new_scheduler)"
  by (simp add: linked_defs new_estop_handler_def new_scheduler_ok) (simp add: new_scheduler_def)

lemma estop_run_linked:
  assumes "estop_run E identity send st os st'" and "board_named identity board" and "estop_linked board st"
  shows "estop_linked board st' \<and>
     (eh_state (fst st) \<noteq> Pending_Empty \<and> triggered_sent \<notin> set os \<longrightarrow> still_pending (fst st) (fst st'))"
  using assms
proof (induction rule: estop_run.induct)
  case (er_refl st)
  then show ?case by (simp add: still_pending_def)
next
  case (er_step st os st1 os1 st2)
  from er_step.IH [OF er_step.prems] estop_step_linked [OF er_step.hyps(2) er_step.prems(1)]
  show ?case by (auto simp: still_pending_def)
qed

text \<open>
  C28: the handler and the queue never disagree about the board's e-stop event, whatever happens
  around them: the event's line is in the queue exactly once, with the reason and time of the
  request, while the handler waits for its completion, and not at all otherwise; and the queue's
  own pending flag tells the same story.
\<close>

theorem estop_event_tracked:
  assumes "estop_run E identity send (new_estop_handler, new_scheduler) outcomes (h, s)"
    and "board_named identity board"
  shows "triggered_entries s =
       (if eh_state h = QueuedAwaitingCompletion
        then [triggered_line board (eh_timestamp_ms h) (eh_reason h)] else []) \<and>
     os_estop_triggered s =
       (case eh_state h of
          Pending_Empty \<Rightarrow> NotPending
        | Pending_NotQueued \<Rightarrow> PendingNotQueued
        | QueuedAwaitingCompletion \<Rightarrow> Pending_Queued)"
  using estop_run_linked [OF assms new_estop_linked] by (simp add: estop_linked_def)

lemma estop_event_tracked_witness:
  "triggered_entries (snd (new_estop_handler, new_scheduler)) = []"
  using estop_event_tracked [OF er_refl sample_board_named]
  by (simp add: new_estop_handler_def)

text \<open>
  C29: a board-raised e-stop event is not lost. Once requested, it stays pending with its reason and
  timestamp through failed sends, full queues and ended sessions, until a completion reports
  that its line was sent.
\<close>

theorem estop_event_kept_until_sent:
  assumes "estop_run E identity send (new_estop_handler, new_scheduler) before (h, s)"
    and "eh_state h \<noteq> Pending_Empty"
    and "estop_run E identity send (h, s) after (h', s')" and "triggered_sent \<notin> set after"
    and "board_named identity board"
  shows "eh_state h' \<noteq> Pending_Empty \<and> eh_reason h' = eh_reason h \<and>
     eh_timestamp_ms h' = eh_timestamp_ms h"
proof -
  have "estop_linked board (h, s)" using estop_run_linked [OF assms(1,5) new_estop_linked] by simp
  from estop_run_linked [OF assms(3,5) this] assms(2,4) show ?thesis by (simp add: still_pending_def)
qed

lemma estop_event_kept_until_sent_witness:
  "\<exists>h s batch s'. estop_run (sample_env 1) sample_board (\<lambda>line mc n. Some (Sent, n :: nat))
       (new_estop_handler, new_scheduler) [] (h, s) \<and>
     clearForSessionEnd s = (batch, s') \<and> eh_reason h = ''door'' \<and>
     eh_reason (fst (fold onOutboundOutcome batch (h, s'))) = ''door''"
proof -
  let ?send = "\<lambda>line mc n. Some (Sent, n :: nat)"
  obtain st h s w where rq: "requestEstopTriggered (sample_env 1) True (Some ''door'')
      (new_estop_handler, new_scheduler, (3, [])) = (st, (h, s, w))" by (metis surj_pair)
  have h: "eh_state h \<noteq> Pending_Empty" "eh_reason h = ''door''"
    using rq by (auto simp: requestEstopTriggered_def new_estop_handler_def boundedLength_reason_def
        Let_def limits clock_ms_def sample_env_def eval_nat_numeral split: if_splits)
  obtain batch s' where b: "clearForSessionEnd s = (batch, s')" by (cases "clearForSessionEnd s")
  obtain h2 s2 where f: "fold onOutboundOutcome batch (h, s') = (h2, s2)"
    by (cases "fold onOutboundOutcome batch (h, s')")
  have r1: "estop_run (sample_env 1) sample_board ?send (new_estop_handler, new_scheduler) [] (h, s)"
    using er_step [OF er_refl es_request [OF rq]] by simp
  have r2: "estop_run (sample_env 1) sample_board ?send (h, s) batch (h2, s2)"
    using er_step [OF er_refl es_end [OF b, of "sample_env 1" sample_board ?send h]] by (simp add: f)
  have "triggered_sent \<notin> set batch"
    using linked_end [OF b _ f] estop_run_linked [OF r1 sample_board_named new_estop_linked] by auto
  from estop_event_kept_until_sent [OF r1 h(1) r2 this sample_board_named]
  have "eh_reason (fst (fold onOutboundOutcome batch (h, s'))) = ''door''" using h(2) f by simp
  with r1 b h(2) show ?thesis by (intro exI conjI)
qed

end
