(* ===== verification/ServiceLoop.thy ===== *)
theory ServiceLoop
  imports SessionDriver CommandDispatcher EstopHandler
begin

text \<open>
  One turn of the board's main loop, \<open>src/core/ServiceLoop.h\<close>: poll the session, take a line, run
  what is due, send at most one queued line, then process the line and route it to the handler of
  its message; and the end of a session, which cancels everything queued.

  The routes are callbacks with a context. They share the counters, the outbound scheduler and the
  world with the loop, and cannot reach the session or the parser. The locale \<open>loop_routes\<close> is what
  the loop relies on them for.
\<close>

section \<open>Routes and state\<close>

text \<open>\<open>'x\<close> is what the context pointer points to.\<close>

record ('x, 'w) shared =
  sh_context :: 'x
  sh_counters :: counters
  sh_scheduler :: outbound_scheduler
  sh_world :: 'w

text \<open>A callback returns, and changes the shared state; a null pointer is None.\<close>

record ('x, 'w) routes =
  rt_command :: "(parsed_command \<Rightarrow> command_args \<Rightarrow> ('x, 'w) shared \<Rightarrow> bool \<times> ('x, 'w) shared) option"
  rt_recoverable_command_error ::
    "(recoverable_command_error \<Rightarrow> ('x, 'w) shared \<Rightarrow> ('x, 'w) shared) option"
  rt_estop :: "(parsed_estop \<Rightarrow> ('x, 'w) shared \<Rightarrow> ('x, 'w) shared) option"
  rt_heartbeat :: "(parsed_heartbeat \<Rightarrow> ('x, 'w) shared \<Rightarrow> ('x, 'w) shared) option"
  rt_telemetry_due :: "(('x, 'w) shared \<Rightarrow> ('x, 'w) shared) option"
  rt_outbound_outcome :: "(outbound_outcome \<Rightarrow> ('x, 'w) shared \<Rightarrow> ('x, 'w) shared) option"
  rt_command_with_timing ::
    "(parsed_command \<Rightarrow> command_args \<Rightarrow> u64 \<Rightarrow> ('x, 'w) shared \<Rightarrow> bool \<times> ('x, 'w) shared) option"
  rt_telemetry_inactive :: "(('x, 'w) shared \<Rightarrow> ('x, 'w) shared) option"
  rt_estop_with_result :: "(parsed_estop \<Rightarrow> ('x, 'w) shared \<Rightarrow> bool \<times> ('x, 'w) shared) option"
  rt_heartbeat_with_result :: "(parsed_heartbeat \<Rightarrow> ('x, 'w) shared \<Rightarrow> bool \<times> ('x, 'w) shared) option"
  rt_safety_due :: "(('x, 'w) shared \<Rightarrow> bool \<times> ('x, 'w) shared) option"

definition no_routes :: "('x, 'w) routes" where
  "no_routes =
     \<lparr>rt_command = None, rt_recoverable_command_error = None, rt_estop = None, rt_heartbeat = None,
      rt_telemetry_due = None, rt_outbound_outcome = None, rt_command_with_timing = None,
      rt_telemetry_inactive = None, rt_estop_with_result = None, rt_heartbeat_with_result = None,
      rt_safety_due = None\<rparr>"

text \<open>
  The loop's members that never change: \<open>identity_\<close>, \<open>routes_\<close>, and whether \<open>clock_\<close> is set. The
  session is given to each turn in C++; here it is part of the state with the parser.
\<close>

record ('x, 'w) service_loop =
  sl_identity :: board_identity
  sl_routes :: "('x, 'w) routes"
  sl_clock :: bool

record ('x, 'w) loop_state =
  ls_driver :: session_driver
  ls_parser :: inbound_parser
  ls_shared :: "('x, 'w) shared"

text \<open>
  The two ways the loop and the parser call ArduinoJson: in place on the NUL-terminated line, and
  with the line's size, copying the strings into a document of fixed size.
\<close>

record json_library =
  deserialize_in_place :: "bytes \<Rightarrow> json option"
  deserialize_copying :: "bytes \<Rightarrow> json option"

definition teardownPending :: "('x, 'w) loop_state \<Rightarrow> bool" where
  "teardownPending st \<longleftrightarrow> sd_teardown_pending (ls_driver st)"

definition on_driver :: "(session_driver \<Rightarrow> session_driver) \<Rightarrow> ('x, 'w) loop_state \<Rightarrow> ('x, 'w) loop_state" where
  "on_driver f st = st\<lparr>ls_driver := f (ls_driver st)\<rparr>"

definition on_shared ::
    "(('x, 'w) shared \<Rightarrow> ('x, 'w) shared) \<Rightarrow> ('x, 'w) loop_state \<Rightarrow> ('x, 'w) loop_state" where
  "on_shared f st = st\<lparr>ls_shared := f (ls_shared st)\<rparr>"

definition count :: "(counters \<Rightarrow> counters) \<Rightarrow> ('x, 'w) shared \<Rightarrow> ('x, 'w) shared" where
  "count f sh = sh\<lparr>sh_counters := f (sh_counters sh)\<rparr>"

text \<open>The session a call of the driver sees, and the state after it.\<close>

definition session_of :: "('x, 'w) loop_state \<Rightarrow> 'w session" where
  "session_of st = (ls_driver st, sh_counters (ls_shared st), sh_world (ls_shared st))"

definition put_session :: "('x, 'w) loop_state \<Rightarrow> 'w session \<Rightarrow> ('x, 'w) loop_state" where
  "put_session st s =
     (case s of (d, c, w) \<Rightarrow>
        st\<lparr>ls_driver := d, ls_shared := (ls_shared st)\<lparr>sh_counters := c, sh_world := w\<rparr>\<rparr>)"

section \<open>Addressing\<close>

record source_target =
  gt_source :: bytes
  gt_target :: bytes
  gt_valid :: bool

definition copyBounded :: "c_string \<Rightarrow> nat \<Rightarrow> bytes option" where
  "copyBounded source capacity =
     (case source of
        None \<Rightarrow> None
      | Some s \<Rightarrow>
          let length = scan_length capacity s in
          if capacity < length then None else Some (take length s))"

definition no_gate :: source_target where
  "no_gate = \<lparr>gt_source = [], gt_target = [], gt_valid = False\<rparr>"

text \<open>The second copy runs only when the first succeeded.\<close>

definition extractSourceTarget :: "json_library \<Rightarrow> c_string \<Rightarrow> source_target" where
  "extractSourceTarget lib line =
     (case line of
        None \<Rightarrow> no_gate
      | Some data \<Rightarrow>
          case deserialize_copying lib data of
            Some (JObject root) \<Rightarrow>
              (case (getString (member kSource root), getString (member kTarget root)) of
                 (Some source, Some target) \<Rightarrow>
                   (case copyBounded (Some source) kMaxBoardIdBytes of
                      None \<Rightarrow> no_gate
                    | Some s \<Rightarrow>
                        case copyBounded (Some target) kMaxBoardIdBytes of
                          None \<Rightarrow> no_gate\<lparr>gt_source := s\<rparr>
                        | Some t \<Rightarrow> \<lparr>gt_source = s, gt_target = t, gt_valid = True\<rparr>)
               | _ \<Rightarrow> no_gate)
          | _ \<Rightarrow> no_gate)"

definition validControllerTarget :: "board_identity \<Rightarrow> c_string \<Rightarrow> c_string \<Rightarrow> bool" where
  "validControllerTarget identity source target \<longleftrightarrow>
     (case (source, target, board_id identity) of
        (Some s, Some t, Some board) \<Rightarrow> strcmp_eq s ''controller'' \<and> strcmp_eq t board
      | _ \<Rightarrow> False)"

definition validControllerTarget_gate :: "board_identity \<Rightarrow> source_target \<Rightarrow> bool" where
  "validControllerTarget_gate identity gate \<longleftrightarrow>
     gt_valid gate \<and>
     (case board_id identity of
        None \<Rightarrow> False
      | Some board \<Rightarrow> strcmp_eq (gt_source gate) ''controller'' \<and> strcmp_eq (gt_target gate) board)"

section \<open>Routing\<close>

text \<open>What a callback with a result asks for.\<close>

definition teardown_if :: "bool \<Rightarrow> ('x, 'w) loop_state \<Rightarrow> ('x, 'w) loop_state" where
  "teardown_if requested st =
     (if requested then on_driver (requestTeardown CriticalTransmitFailure) st else st)"

definition call_with_result ::
    "(('x, 'w) shared \<Rightarrow> bool \<times> ('x, 'w) shared) \<Rightarrow> ('x, 'w) loop_state \<Rightarrow> ('x, 'w) loop_state" where
  "call_with_result f st =
     (case f (ls_shared st) of (requested, sh) \<Rightarrow> teardown_if requested (st\<lparr>ls_shared := sh\<rparr>))"

definition routeValid ::
    "('x, 'w) service_loop \<Rightarrow> parse_outcome \<Rightarrow> source_target \<Rightarrow> u64 \<Rightarrow> ('x, 'w) loop_state \<Rightarrow>
     ('x, 'w) loop_state" where
  "routeValid L outcome root_gate parse_completed_us st =
     (let rt = sl_routes L; invalid = on_shared (count (increment invalid_targets_update)) in
      case po_message_kind outcome of
        Command_Message \<Rightarrow>
          if \<not> validControllerTarget_gate (sl_identity L) root_gate then invalid st
          else
            let args = command_args_of (ls_parser st) (po_command outcome) in
            (case rt_command_with_timing rt of
               Some f \<Rightarrow> call_with_result (f (po_command outcome) args parse_completed_us) st
             | None \<Rightarrow>
                 (case rt_command rt of
                    Some f \<Rightarrow> call_with_result (f (po_command outcome) args) st
                  | None \<Rightarrow> teardown_if True st))
      | Estop_Message \<Rightarrow>
          if \<not> validControllerTarget (sl_identity L) (pe_source (po_estop outcome))
                 (pe_target (po_estop outcome))
          then invalid st
          else
            (case rt_estop rt of
               Some f \<Rightarrow> on_shared (f (po_estop outcome)) st
             | None \<Rightarrow>
                 (case rt_estop_with_result rt of
                    Some f \<Rightarrow> call_with_result (f (po_estop outcome)) st
                  | None \<Rightarrow> on_shared (count (increment estop_apply_failed_update)) st))
      | Heartbeat_Message \<Rightarrow>
          if \<not> validControllerTarget (sl_identity L) (ph_source (po_heartbeat outcome))
                 (ph_target (po_heartbeat outcome))
          then invalid st
          else
            (case rt_heartbeat rt of
               Some f \<Rightarrow> on_shared (f (po_heartbeat outcome)) st
             | None \<Rightarrow>
                 (case rt_heartbeat_with_result rt of
                    Some f \<Rightarrow> call_with_result (f (po_heartbeat outcome)) st
                  | None \<Rightarrow> st))
      | No_Message \<Rightarrow> st)"

definition routeRecoverableCommandError ::
    "('x, 'w) routes \<Rightarrow> recoverable_command_error \<Rightarrow> ('x, 'w) shared \<Rightarrow> ('x, 'w) shared" where
  "routeRecoverableCommandError rt e sh =
     (case rt_recoverable_command_error rt of None \<Rightarrow> sh | Some f \<Rightarrow> f e sh)"

definition processLine ::
    "'w env \<Rightarrow> json_library \<Rightarrow> ('x, 'w) service_loop \<Rightarrow> c_string \<Rightarrow> ('x, 'w) loop_state \<Rightarrow>
     ('x, 'w) loop_state" where
  "processLine E lib L line st =
     (let root_gate = extractSourceTarget lib line; sh = ls_shared st in
      case parse (deserialize_in_place lib) line (sh_counters sh, ls_parser st) of
        (outcome, (c, p)) \<Rightarrow>
          case clock_us E (sl_clock L) (sh_world sh) of
            (parse_completed_us, w) \<Rightarrow>
              let st1 = st\<lparr>ls_parser := p, ls_shared := sh\<lparr>sh_counters := c, sh_world := w\<rparr>\<rparr> in
              if po_kind outcome = Valid then routeValid L outcome root_gate parse_completed_us st1
              else if po_kind outcome = StructurallyInvalid \<and>
                      po_message_kind outcome = Command_Message \<and> po_has_seq outcome \<and>
                      po_has_controller_ts outcome \<and> po_has_suggested_error outcome
              then
                if gt_valid root_gate \<and> \<not> validControllerTarget_gate (sl_identity L) root_gate
                then on_shared (count (increment invalid_targets_update)) st1
                else on_shared (routeRecoverableCommandError (sl_routes L)
                       \<lparr>re_seq = po_seq outcome, re_controller_ts = po_controller_ts outcome,
                        re_code = po_suggested_error outcome\<rparr>) st1
              else st1)"

definition telemetrySessionActive :: "session_driver \<Rightarrow> bool" where
  "telemetrySessionActive d \<longleftrightarrow> sessionActive d \<and> \<not> sd_teardown_pending d"

definition routeTelemetryInactive :: "('x, 'w) routes \<Rightarrow> ('x, 'w) shared \<Rightarrow> ('x, 'w) shared" where
  "routeTelemetryInactive rt sh = (case rt_telemetry_inactive rt of None \<Rightarrow> sh | Some f \<Rightarrow> f sh)"

definition runTelemetryDueCheck :: "('x, 'w) service_loop \<Rightarrow> ('x, 'w) loop_state \<Rightarrow> ('x, 'w) loop_state" where
  "runTelemetryDueCheck L st =
     (if telemetrySessionActive (ls_driver st)
      then (case rt_telemetry_due (sl_routes L) of None \<Rightarrow> st | Some f \<Rightarrow> on_shared f st)
      else on_shared (routeTelemetryInactive (sl_routes L)) st)"

definition runSafetyDueCheck ::
    "('x, 'w) service_loop \<Rightarrow> ('x, 'w) loop_state \<Rightarrow> bool \<times> ('x, 'w) loop_state" where
  "runSafetyDueCheck L st =
     (if \<not> telemetrySessionActive (ls_driver st) then (False, st)
      else case rt_safety_due (sl_routes L) of
        None \<Rightarrow> (False, st)
      | Some f \<Rightarrow>
          case f (ls_shared st) of
            (requested, sh) \<Rightarrow> (requested, teardown_if requested (st\<lparr>ls_shared := sh\<rparr>)))"

definition routeOutcome ::
    "('x, 'w) routes \<Rightarrow> outbound_outcome \<Rightarrow> ('x, 'w) shared \<Rightarrow> ('x, 'w) shared" where
  "routeOutcome rt outcome sh =
     (let sh1 =
        (if oo_completion outcome = Completed_Sent then
           (if oo_kind outcome = Telemetry_Line then count (increment telemetry_sent_update) sh
            else if oo_kind outcome = EstopAck then count (increment estop_ack_sent_update) sh
            else if oo_kind outcome = HeartbeatAck then count (increment heartbeat_ack_sent_update) sh
            else sh)
         else sh)
      in case rt_outbound_outcome rt of None \<Rightarrow> sh1 | Some f \<Rightarrow> f outcome sh1)"

section \<open>One turn\<close>

definition cancelRouteAndApply ::
    "'w env \<Rightarrow> ('x, 'w) service_loop \<Rightarrow> ('x, 'w) loop_state \<Rightarrow> ('x, 'w) loop_state option" where
  "cancelRouteAndApply E L st =
     (case clearForSessionEnd (sh_scheduler (ls_shared st)) of
        (batch, s) \<Rightarrow>
          let st1 = on_shared (\<lambda>sh. routeTelemetryInactive (sl_routes L)
                (fold (routeOutcome (sl_routes L)) batch (sh\<lparr>sh_scheduler := s\<rparr>))) st
          in map_option (put_session st1) (applyPendingTeardown E (session_of st1)))"

definition drainRouteAndMaybeTeardown ::
    "'w env \<Rightarrow> ('x, 'w) service_loop \<Rightarrow> bool \<Rightarrow> ('x, 'w) loop_state \<Rightarrow>
     (bool \<times> ('x, 'w) loop_state) option" where
  "drainRouteAndMaybeTeardown E L line_acquired st =
     (case drainOne (sendActiveLine E) (sh_scheduler (ls_shared st)) (session_of st) of
        None \<Rightarrow> None
      | Some (None, s, session) \<Rightarrow>
          Some (False, on_shared (\<lambda>sh. sh\<lparr>sh_scheduler := s\<rparr>) (put_session st session))
      | Some (Some outcome, s, session) \<Rightarrow>
          let st1 = on_shared (routeOutcome (sl_routes L) outcome)
                (on_shared (\<lambda>sh. sh\<lparr>sh_scheduler := s\<rparr>) (put_session st session))
          in if teardownPending st1 \<or>
                (oo_completion outcome = SendFailed \<and> oo_kind outcome \<noteq> Telemetry_Line)
             then
               let st2 = teardown_if (\<not> teardownPending st1) st1;
                   st3 = (if line_acquired then on_driver driver_releaseLine st2 else st2)
               in map_option (Pair True) (cancelRouteAndApply E L st3)
             else Some (False, st1))"

text \<open>\<open>service\<close> in three parts: taking input, then what is due, then the line.\<close>

definition service_line ::
    "'w env \<Rightarrow> json_library \<Rightarrow> ('x, 'w) service_loop \<Rightarrow> bytes \<Rightarrow> bool \<Rightarrow> ('x, 'w) loop_state \<Rightarrow>
     ('x, 'w) loop_state option" where
  "service_line E lib L line drained_outbound st =
     (let st1 = on_driver driver_releaseLine (processLine E lib L (Some line) st) in
      if teardownPending st1 then cancelRouteAndApply E L st1
      else if \<not> drained_outbound \<and> hasPending (sh_scheduler (ls_shared st1))
      then map_option snd (drainRouteAndMaybeTeardown E L False st1)
      else Some st1)"

definition service_due ::
    "'w env \<Rightarrow> json_library \<Rightarrow> ('x, 'w) service_loop \<Rightarrow> bytes option \<Rightarrow> ('x, 'w) loop_state \<Rightarrow>
     ('x, 'w) loop_state option" where
  "service_due E lib L line st =
     (case runSafetyDueCheck L (runTelemetryDueCheck L st) of
        (True, st1) \<Rightarrow> cancelRouteAndApply E L st1
      | (False, st1) \<Rightarrow>
          let pending = hasPending (sh_scheduler (ls_shared st1)) in
          case (if pending then drainRouteAndMaybeTeardown E L (line \<noteq> None) st1
                else Some (False, st1)) of
            None \<Rightarrow> None
          | Some (True, st2) \<Rightarrow> Some st2
          | Some (False, st2) \<Rightarrow>
              (case line of None \<Rightarrow> Some st2 | Some l \<Rightarrow> service_line E lib L l pending st2))"

definition service ::
    "'w env \<Rightarrow> json_library \<Rightarrow> ('x, 'w) service_loop \<Rightarrow> ('x, 'w) loop_state \<Rightarrow>
     ('x, 'w) loop_state option" where
  "service E lib L st =
     (case poll E (session_of st) of
        None \<Rightarrow> None
      | Some s1 \<Rightarrow>
          case nextLine E s1 of
            None \<Rightarrow> None
          | Some (line, s2) \<Rightarrow>
              let st1 = put_session st s2 in
              if teardownPending st1
              then cancelRouteAndApply E L
                     (if line \<noteq> None then on_driver driver_releaseLine st1 else st1)
              else service_due E lib L line st1)"

section \<open>What the loop needs from its routes\<close>

text \<open>
  A condition \<open>good\<close> on the context and the scheduler that implies the scheduler's own invariant. The
  routes keep it; the route for outcomes re-establishes it after the loop took lines out of the
  queue, and neither that route nor the one for an inactive session queues anything.
\<close>

definition sh_inv :: "('x \<Rightarrow> outbound_scheduler \<Rightarrow> bool) \<Rightarrow> ('x, 'w) shared \<Rightarrow> bool" where
  "sh_inv good sh \<longleftrightarrow> good (sh_context sh) (sh_scheduler sh)"

definition keeps :: "('x \<Rightarrow> outbound_scheduler \<Rightarrow> bool) \<Rightarrow> (('x, 'w) shared \<Rightarrow> ('x, 'w) shared) \<Rightarrow> bool" where
  "keeps good f \<longleftrightarrow> (\<forall>sh. sh_inv good sh \<longrightarrow> sh_inv good (f sh))"

definition queue_of :: "outbound_scheduler \<Rightarrow> critical_entry list \<times> bytes option" where
  "queue_of s = (os_critical s, os_telemetry s)"

abbreviation sh_queue :: "('x, 'w) shared \<Rightarrow> critical_entry list \<times> bytes option" where
  "sh_queue sh \<equiv> queue_of (sh_scheduler sh)"

lemma sh_inv_updates [simp]:
  "sh_inv good (sh\<lparr>sh_counters := c\<rparr>) = sh_inv good sh"
  "sh_inv good (sh\<lparr>sh_world := w\<rparr>) = sh_inv good sh"
  "sh_inv good (count f sh) = sh_inv good sh"
  by (simp_all add: sh_inv_def count_def)

lemma hasPending_iff: "hasPending s \<longleftrightarrow> queue_of s \<noteq> ([], None)"
  by (auto simp: hasPending_def queue_of_def)

locale loop_routes =
  fixes rt :: "('x, 'w) routes" and good :: "'x \<Rightarrow> outbound_scheduler \<Rightarrow> bool"
  assumes inv_ok: "good x s \<Longrightarrow> scheduler_ok s"
    and command_keeps: "rt_command rt = Some f1 \<Longrightarrow> keeps good (\<lambda>sh. snd (f1 command args sh))"
    and error_keeps: "rt_recoverable_command_error rt = Some f2 \<Longrightarrow> keeps good (f2 e)"
    and estop_keeps: "rt_estop rt = Some f3 \<Longrightarrow> keeps good (f3 pe)"
    and heartbeat_keeps: "rt_heartbeat rt = Some f4 \<Longrightarrow> keeps good (f4 ph)"
    and due_keeps: "rt_telemetry_due rt = Some f5 \<Longrightarrow> keeps good f5"
    and timed_keeps: "rt_command_with_timing rt = Some f6 \<Longrightarrow> keeps good (\<lambda>sh. snd (f6 command args us sh))"
    and estop_result_keeps: "rt_estop_with_result rt = Some f7 \<Longrightarrow> keeps good (\<lambda>sh. snd (f7 pe sh))"
    and heartbeat_result_keeps:
      "rt_heartbeat_with_result rt = Some f8 \<Longrightarrow> keeps good (\<lambda>sh. snd (f8 ph sh))"
    and safety_keeps: "rt_safety_due rt = Some f9 \<Longrightarrow> keeps good (\<lambda>sh. snd (f9 sh))"
    and inactive_keeps: "keeps good (routeTelemetryInactive rt)"
    and inactive_queue: "sh_queue (routeTelemetryInactive rt sh) = sh_queue sh"
    and outcome_queue: "sh_queue (routeOutcome rt oc sh) = sh_queue sh"
    and drained_keeps: "good x s \<Longrightarrow> drainOne send s (ss :: 'w session) = Some (Some oc, s', ss') \<Longrightarrow>
      sh_context sh = x \<Longrightarrow> sh_scheduler sh = s' \<Longrightarrow> sh_inv good (routeOutcome rt oc sh)"
    and cleared_keeps: "good x s \<Longrightarrow> clearForSessionEnd s = (batch, s') \<Longrightarrow>
      sh_context sh = x \<Longrightarrow> sh_scheduler sh = s' \<Longrightarrow> sh_inv good (fold (routeOutcome rt) batch sh)"

text \<open>
  The loop in the middle of a turn: lines are queued only during a session. Between two turns no
  teardown is pending either.
\<close>

definition loop_running ::
    "('x \<Rightarrow> outbound_scheduler \<Rightarrow> bool) \<Rightarrow> session_driver \<Rightarrow> ('x, 'w) loop_state \<Rightarrow> bool" where
  "loop_running good d0 st \<longleftrightarrow>
     driver_ok (ls_driver st) \<and> same_config d0 (ls_driver st) \<and> sh_inv good (ls_shared st) \<and>
     (hasPending (sh_scheduler (ls_shared st)) \<longrightarrow> in_session (sd_state (ls_driver st)))"

definition loop_settled ::
    "('x \<Rightarrow> outbound_scheduler \<Rightarrow> bool) \<Rightarrow> session_driver \<Rightarrow> ('x, 'w) loop_state \<Rightarrow> bool" where
  "loop_settled good d0 st \<longleftrightarrow> loop_running good d0 st \<and> \<not> teardownPending st"

lemma telemetrySessionActive_in: "telemetrySessionActive d \<Longrightarrow> in_session (sd_state d)"
  by (simp add: telemetrySessionActive_def sessionActive_state)

lemma poll_stays:
  assumes "poll E (d, c, w) = Some s'" and "driver_ok d" and "sd_state d = SESSION_ACTIVE"
  shows "stays d (fst s')"
proof -
  have conf: "sd_configured d" using assms(2) by (simp add: driver_ok_def driver_base_def)
  obtain p w1 where hp: "hasPendingConnection E (progress E w) = (p, w1)"
    by (cases "hasPendingConnection E (progress E w)")
  have "sd_state (fst s') = SESSION_ACTIVE \<or> sd_state (fst s') = SESSION_CLOSING"
  proof (cases p)
    case True
    then have s': "s' = acceptReplacement E (d, c, w1)"
      using assms(1,3) conf hp by (simp add: poll_def)
    then show ?thesis using assms(2,3)
      by (auto simp: acceptReplacement_def requestTeardown_def transitionTo_def Let_def
          split: prod.split option.split)
  next
    case False
    obtain d1 c1 w2 where l: "detectActiveLoss E (d, c, w1) = (d1, c1, w2)"
      by (cases "detectActiveLoss E (d, c, w1)")
    have st: "stays d d1"
      using detectActiveLoss_stays [OF assms(2), of E c w1] assms(3) l by (simp add: in_session_def)
    show ?thesis
    proof (cases "sd_state d1 = SESSION_ACTIVE \<and> \<not> sd_teardown_pending d1")
      case True
      then have "readAvailable E (d1, c1, w2) = Some s'"
        using assms(1,3) conf hp False l by (simp add: poll_def)
      from readAvailable_stays [OF this] True st show ?thesis
        by (auto simp: stays_def in_session_def)
    next
      case no: False
      then have "s' = (d1, c1, w2)" using assms(1,3) conf hp False l by (auto simp: poll_def)
      with st assms(3) show ?thesis by (auto simp: stays_def)
    qed
  qed
  with poll_ok [OF assms(1,2)] assms(3) show ?thesis by (auto simp: stays_def)
qed

lemma nextLine_line:
  assumes "nextLine E (d, c, w) = Some (Some line, s')" and "driver_ok d"
  shows "in_session (sd_state (fst s'))"
proof -
  have "sessionActive d" using assms(1) by (auto simp: nextLine_def split: if_splits)
  with nextLine_stays [OF assms] show ?thesis by (auto intro: stays_active sessionActive_state)
qed

lemma put_session_simps [simp]:
  "ls_driver (put_session st (d, c, w)) = d"
  "ls_parser (put_session st s) = ls_parser st"
  "sh_scheduler (ls_shared (put_session st s)) = sh_scheduler (ls_shared st)"
  "sh_context (ls_shared (put_session st s)) = sh_context (ls_shared st)"
  "sh_inv good (ls_shared (put_session st s)) = sh_inv good (ls_shared st)"
  by (auto simp: put_session_def sh_inv_def split: prod.splits)

lemma put_session_driver: "ls_driver (put_session st s) = fst s"
  by (cases s) simp

lemma on_simps [simp]:
  "ls_driver (on_shared f st) = ls_driver st" "ls_shared (on_shared f st) = f (ls_shared st)"
  "ls_parser (on_shared f st) = ls_parser st"
  "ls_driver (on_driver g st) = g (ls_driver st)" "ls_shared (on_driver g st) = ls_shared st"
  "ls_parser (on_driver g st) = ls_parser st"
  "sh_scheduler (count h sh) = sh_scheduler sh" "sh_context (count h sh) = sh_context sh"
  "sh_world (count h sh) = sh_world sh" "sh_counters (count h sh) = h (sh_counters sh)"
  by (simp_all add: on_shared_def on_driver_def count_def)

lemma drainOne_silent:
  "drainOne send s ss = Some (None, s', ss') \<Longrightarrow> s' = s \<and> ss' = ss \<and> \<not> hasPending s"
  by (auto simp: drainOne_def selectCriticalIndex_def hasPending_def split: option.splits if_splits)

lemma drainOne_session:
  assumes "drainOne send s ss = Some (Some oc, s', ss')"
  shows "\<exists>line mc result. send line mc ss = Some (result, ss') \<and> hasPending s"
  using assms by (auto simp: drainOne_def selectCriticalIndex_def hasPending_def
      split: option.splits if_splits)

section \<open>Every step keeps the loop running\<close>

lemma loop_running_driver:
  assumes "loop_running good d0 st" and "stays (ls_driver st) (fst s)"
  shows "loop_running good d0 (put_session st s)"
  using assms stays_active [of "ls_driver st" "fst s"]
  by (cases s) (auto simp: loop_running_def stays_def intro: same_config_trans)

lemma loop_running_teardown_if:
  assumes "loop_running good d0 st" and "requested \<Longrightarrow> in_session (sd_state (ls_driver st))"
  shows "loop_running good d0 (teardown_if requested st) \<and>
     stays (ls_driver st) (ls_driver (teardown_if requested st))"
proof -
  have d: "driver_ok (ls_driver st)" using assms(1) by (simp add: loop_running_def)
  have "requested \<Longrightarrow> stays (ls_driver st) (requestTeardown CriticalTransmitFailure (ls_driver st))"
    using stays_requestTeardown [OF d] assms(2) by blast
  with assms(1) d show ?thesis
    using stays_active [of "ls_driver st" "requestTeardown CriticalTransmitFailure (ls_driver st)"]
    by (auto simp: loop_running_def teardown_if_def stays_refl stays_def intro: same_config_trans)
qed

lemma loop_running_release:
  assumes "loop_running good d0 st"
  shows "loop_running good d0 (on_driver driver_releaseLine st)"
proof -
  have "stays (ls_driver st) (driver_releaseLine (ls_driver st))"
    using assms by (intro driver_releaseLine_stays) (simp add: loop_running_def)
  from stays_active [OF this] this assms show ?thesis
    by (auto simp: loop_running_def stays_def intro: same_config_trans)
qed

lemma loop_settled_active:
  "loop_settled good d0 st \<Longrightarrow> hasPending (sh_scheduler (ls_shared st)) \<Longrightarrow>
     sd_state (ls_driver st) = SESSION_ACTIVE"
  by (auto simp: loop_settled_def loop_running_def teardownPending_def in_session_def driver_ok_def
      driver_base_def)

context loop_routes
begin

lemma cleared_queue: "sh_queue (fold (routeOutcome rt) batch sh) = sh_queue sh"
  by (induction batch arbitrary: sh) (simp_all add: outcome_queue)

lemma shared_running:
  assumes "loop_running good d0 st" and "sh_inv good (ls_shared st) \<Longrightarrow> sh_inv good (f (ls_shared st))"
    and "in_session (sd_state (ls_driver st)) \<or> sh_queue (f (ls_shared st)) = sh_queue (ls_shared st)"
  shows "loop_running good d0 (on_shared f st)"
  using assms by (auto simp: loop_running_def hasPending_iff)

lemma result_running:
  assumes "loop_running good d0 st" and "keeps good (\<lambda>sh. snd (f sh))"
    and "in_session (sd_state (ls_driver st))"
  shows "loop_running good d0 (call_with_result f st) \<and>
     stays (ls_driver st) (ls_driver (call_with_result f st))"
proof -
  obtain requested sh where f: "f (ls_shared st) = (requested, sh)" by (cases "f (ls_shared st)")
  have "loop_running good d0 (st\<lparr>ls_shared := sh\<rparr>)"
    using assms f by (auto simp: loop_running_def keeps_def)
  from loop_running_teardown_if [OF this, of requested] assms(3) f show ?thesis
    by (simp add: call_with_result_def)
qed

lemma cancel_settles:
  assumes "cancelRouteAndApply E L st = Some st'" and "loop_running good d0 st" and "sl_routes L = rt"
  shows "loop_settled good d0 st'"
proof -
  let ?s = "sh_scheduler (ls_shared st)"
  obtain batch s where cl: "clearForSessionEnd ?s = (batch, s)" by (cases "clearForSessionEnd ?s")
  let ?sh = "fold (routeOutcome rt) batch ((ls_shared st)\<lparr>sh_scheduler := s\<rparr>)"
  define st1 where "st1 = on_shared (\<lambda>sh. routeTelemetryInactive rt
      (fold (routeOutcome rt) batch (sh\<lparr>sh_scheduler := s\<rparr>))) st"
  have good: "good (sh_context (ls_shared st)) ?s" using assms(2) by (simp add: loop_running_def sh_inv_def)
  have "sh_inv good ?sh" by (rule cleared_keeps [OF good cl]) simp_all
  then have inv1: "sh_inv good (ls_shared st1)"
    using inactive_keeps by (simp add: st1_def keeps_def)
  have "queue_of s = ([], None)"
    using clearForSessionEnd_eq [OF inv_ok [OF good]] cl by (simp add: queue_of_def)
  then have empty: "\<not> hasPending (sh_scheduler (ls_shared st1))"
    by (simp add: hasPending_iff st1_def inactive_queue cleared_queue)
  obtain d c w where ss: "session_of st1 = (d, c, w)" by (cases "session_of st1")
  have d: "d = ls_driver st" using ss by (simp add: session_of_def st1_def)
  obtain s' where ap: "applyPendingTeardown E (d, c, w) = Some s'" "st' = put_session st1 s'"
    using assms(1) ss by (auto simp: cancelRouteAndApply_def cl assms(3) st1_def [symmetric] Let_def)
  have "driver_ok d" using assms(2) d by (simp add: loop_running_def)
  from applyPendingTeardown_ok [OF ap(1) this] assms(2) inv1 empty d ap(2) show ?thesis
    by (auto simp: loop_settled_def loop_running_def teardownPending_def put_session_driver
        intro: same_config_trans)
qed

lemma drain_running:
  assumes "drainRouteAndMaybeTeardown E L acquired st = Some (torn, st')"
    and "loop_running good d0 st" and "sl_routes L = rt"
  shows "if torn then loop_settled good d0 st'
    else loop_running good d0 st' \<and> (\<not> teardownPending st \<longrightarrow> \<not> teardownPending st') \<and>
      stays (ls_driver st) (ls_driver st')"
proof -
  let ?s = "sh_scheduler (ls_shared st)"
  obtain oc s session where dr: "drainOne (sendActiveLine E) ?s (session_of st) = Some (oc, s, session)"
    using assms(1) by (auto simp: drainRouteAndMaybeTeardown_def split: option.splits)
  have d: "driver_ok (ls_driver st)" using assms(2) by (simp add: loop_running_def)
  show ?thesis
  proof (cases oc)
    case None
    have same: "s = ?s" "session = session_of st"
      using drainOne_silent [OF dr [unfolded None]] by blast+
    have "Some (False, on_shared (\<lambda>sh. sh\<lparr>sh_scheduler := s\<rparr>) (put_session st session)) = Some (torn, st')"
      using assms(1) unfolding drainRouteAndMaybeTeardown_def dr None option.case prod.case .
    then have "st' = st" "\<not> torn"
      unfolding same by (simp_all add: put_session_def session_of_def on_shared_def)
    with assms(2) d show ?thesis by (simp add: stays_refl)
  next
    case (Some outcome)
    define st1 where "st1 = on_shared (routeOutcome rt outcome)
        (on_shared (\<lambda>sh. sh\<lparr>sh_scheduler := s\<rparr>) (put_session st session))"
    note dr = dr [unfolded Some]
    from drainOne_session [OF dr] obtain line mc result
      where send: "sendActiveLine E line mc (ls_driver st, sh_counters (ls_shared st),
          sh_world (ls_shared st)) = Some (result, session)"
        and pending: "hasPending ?s" by (auto simp: session_of_def)
    have st: "stays (ls_driver st) (ls_driver st1)"
      using sendActiveLine_stays [OF send d] by (simp add: st1_def put_session_driver)
    have active: "in_session (sd_state (ls_driver st))"
      using assms(2) pending by (simp add: loop_running_def)
    have "sh_inv good (ls_shared st1)"
      using assms(2) by (simp add: st1_def)
        (rule drained_keeps [OF _ dr], simp_all add: loop_running_def sh_inv_def)
    then have run1: "loop_running good d0 st1"
      using assms(2) st stays_active [OF st active]
      by (auto simp: loop_running_def stays_def intro: same_config_trans)
    define st3 where "st3 = (if acquired
        then on_driver driver_releaseLine (teardown_if (\<not> teardownPending st1) st1)
        else teardown_if (\<not> teardownPending st1) st1)"
    have run: "(if teardownPending st1 \<or>
        (oo_completion outcome = SendFailed \<and> oo_kind outcome \<noteq> Telemetry_Line)
      then map_option (Pair True) (cancelRouteAndApply E L st3) else Some (False, st1)) = Some (torn, st')"
      using assms(1) unfolding drainRouteAndMaybeTeardown_def dr option.case prod.case assms(3)
        st1_def [symmetric] Let_def st3_def [symmetric] .
    show ?thesis
    proof (cases "teardownPending st1 \<or>
        (oo_completion outcome = SendFailed \<and> oo_kind outcome \<noteq> Telemetry_Line)")
      case False
      with run have "\<not> torn" "st' = st1" by (auto split: if_splits)
      with run1 st False show ?thesis by simp
    next
      case True
      have "loop_running good d0 st3"
        using loop_running_teardown_if [OF run1] stays_active [OF st active]
        by (auto simp: st3_def intro!: loop_running_release)
      moreover have "torn" "cancelRouteAndApply E L st3 = Some st'"
        using run True by (auto split: if_splits)
      ultimately show ?thesis using cancel_settles assms(3) by simp
    qed
  qed
qed

lemma routeValid_running:
  assumes "loop_running good d0 st" and "sl_routes L = rt" and "in_session (sd_state (ls_driver st))"
  shows "loop_running good d0 (routeValid L outcome gate us st) \<and>
     stays (ls_driver st) (ls_driver (routeValid L outcome gate us st))"
proof -
  have d: "driver_ok (ls_driver st)" using assms(1) by (simp add: loop_running_def)
  have counted: "loop_running good d0 (on_shared (count f) st)" for f
    using assms(1) by (intro shared_running) simp_all
  have plain: "loop_running good d0 (on_shared f st)" if "keeps good f" for f
    using assms that by (intro shared_running) (simp_all add: keeps_def)
  note res = result_running [OF assms(1) _ assms(3)]
  note td = loop_running_teardown_if [OF assms(1,3)]
  show ?thesis
  proof (cases "po_message_kind outcome")
    case No_Message
    then show ?thesis using assms(1) d by (simp add: routeValid_def Let_def stays_refl)
  next
    case Command_Message
    then show ?thesis
      using counted d res [OF timed_keeps] res [OF command_keeps] td
      by (simp add: routeValid_def Let_def stays_refl assms(2) split: option.split)
  next
    case Estop_Message
    then show ?thesis
      using counted d plain [OF estop_keeps] res [OF estop_result_keeps]
      by (simp add: routeValid_def Let_def stays_refl assms(2) split: option.split)
  next
    case Heartbeat_Message
    then show ?thesis
      using assms(1) counted d plain [OF heartbeat_keeps] res [OF heartbeat_result_keeps]
      by (simp add: routeValid_def Let_def stays_refl assms(2) split: option.split)
  qed
qed

lemma processLine_running:
  assumes "loop_running good d0 st" and "sl_routes L = rt" and "in_session (sd_state (ls_driver st))"
  shows "loop_running good d0 (processLine E lib L line st) \<and>
     stays (ls_driver st) (ls_driver (processLine E lib L line st))"
proof -
  let ?sh = "ls_shared st"
  obtain outcome c p where parse: "parse (deserialize_in_place lib) line
      (sh_counters ?sh, ls_parser st) = (outcome, (c, p))" by (metis surj_pair)
  obtain us w where clk: "clock_us E (sl_clock L) (sh_world ?sh) = (us, w)"
    by (cases "clock_us E (sl_clock L) (sh_world ?sh)")
  define st1 where "st1 = st\<lparr>ls_parser := p, ls_shared := ?sh\<lparr>sh_counters := c, sh_world := w\<rparr>\<rparr>"
  have st1: "loop_running good d0 st1" "ls_driver st1 = ls_driver st"
    using assms(1) by (simp_all add: st1_def loop_running_def)
  have refl: "stays (ls_driver st) (ls_driver st1)"
    using assms(1) st1(2) by (simp add: loop_running_def stays_refl)
  have counted: "loop_running good d0 (on_shared (count f) st1)" for f
    using st1(1) by (intro shared_running) simp_all
  have err: "loop_running good d0 (on_shared (routeRecoverableCommandError rt e) st1)" for e
    using st1 assms(3) error_keeps
    by (intro shared_running)
      (simp_all add: keeps_def routeRecoverableCommandError_def split: option.split)
  from routeValid_running [OF st1(1) assms(2), unfolded st1(2), OF assms(3)] st1 refl counted err
  show ?thesis
    by (simp add: processLine_def Let_def parse clk st1_def [symmetric] assms(2))
qed

lemma telemetry_due_running:
  assumes "loop_running good d0 st" and "sl_routes L = rt"
  shows "loop_running good d0 (runTelemetryDueCheck L st) \<and>
     ls_driver (runTelemetryDueCheck L st) = ls_driver st"
proof (cases "telemetrySessionActive (ls_driver st)")
  case True
  then have "in_session (sd_state (ls_driver st))" by (rule telemetrySessionActive_in)
  then have "loop_running good d0 (on_shared f st)" if "keeps good f" for f
    using assms(1) that by (intro shared_running) (simp_all add: keeps_def)
  with due_keeps True assms show ?thesis
    by (simp add: runTelemetryDueCheck_def split: option.split)
next
  case False
  have "loop_running good d0 (on_shared (routeTelemetryInactive rt) st)"
    using assms(1) inactive_keeps by (intro shared_running) (simp_all add: inactive_queue keeps_def)
  with False assms show ?thesis by (simp add: runTelemetryDueCheck_def)
qed

lemma safety_due_running:
  assumes "runSafetyDueCheck L st = (requested, st')"
    and "loop_running good d0 st" and "sl_routes L = rt"
  shows "loop_running good d0 st' \<and> (\<not> requested \<longrightarrow> ls_driver st' = ls_driver st)"
proof (cases "telemetrySessionActive (ls_driver st)")
  case False
  with assms show ?thesis by (simp add: runSafetyDueCheck_def)
next
  case True
  note active = telemetrySessionActive_in [OF True]
  show ?thesis
  proof (cases "rt_safety_due rt")
    case None
    with assms True show ?thesis by (simp add: runSafetyDueCheck_def)
  next
    case (Some f)
    obtain r sh where f: "f (ls_shared st) = (r, sh)" by (cases "f (ls_shared st)")
    have st': "st' = teardown_if requested (st\<lparr>ls_shared := sh\<rparr>)"
      using assms(1,3) True Some f by (auto simp: runSafetyDueCheck_def)
    have "loop_running good d0 (st\<lparr>ls_shared := sh\<rparr>)"
      using assms(2) safety_keeps [OF Some] f active by (auto simp: loop_running_def keeps_def)
    from loop_running_teardown_if [OF this, of requested] active st' show ?thesis
      by (simp add: teardown_if_def split: if_splits)
  qed
qed

lemma service_line_settles:
  assumes "service_line E lib L line drained st = Some st'"
    and "loop_running good d0 st" and "in_session (sd_state (ls_driver st))" and "sl_routes L = rt"
  shows "loop_settled good d0 st'"
proof -
  define st1 where "st1 = on_driver driver_releaseLine (processLine E lib L (Some line) st)"
  have st1: "loop_running good d0 st1"
    using processLine_running [OF assms(2,4,3)] by (simp add: st1_def loop_running_release)
  note run = assms(1) [unfolded service_line_def, folded st1_def, unfolded Let_def]
  show ?thesis
  proof (cases "teardownPending st1")
    case True
    with run cancel_settles [OF _ st1 assms(4)] show ?thesis by simp
  next
    case False
    with run show ?thesis
      using drain_running [OF _ st1 assms(4), of E False] st1
      by (auto simp: loop_settled_def split: if_splits)
  qed
qed

lemma service_due_settles:
  assumes "service_due E lib L line st = Some st'" and "loop_running good d0 st"
    and "\<not> teardownPending st" and "line \<noteq> None \<Longrightarrow> in_session (sd_state (ls_driver st))"
    and "sl_routes L = rt"
  shows "loop_settled good d0 st'"
proof -
  obtain requested st1 where sd: "runSafetyDueCheck L (runTelemetryDueCheck L st) = (requested, st1)"
    by (cases "runSafetyDueCheck L (runTelemetryDueCheck L st)")
  note tel = telemetry_due_running [OF assms(2,5)]
  note st1 = safety_due_running [OF sd conjunct1 [OF tel] assms(5)]
  note run = assms(1) [unfolded service_due_def sd prod.case]
  show ?thesis
  proof (cases requested)
    case True
    with run cancel_settles [OF _ conjunct1 [OF st1] assms(5)] show ?thesis by simp
  next
    case False
    with st1 tel have drv: "ls_driver st1 = ls_driver st" by simp
    with assms(3) have np: "\<not> teardownPending st1" by (simp add: teardownPending_def)
    have d1: "driver_ok (ls_driver st1)" using st1 by (simp add: loop_running_def)
    define pending where "pending = hasPending (sh_scheduler (ls_shared st1))"
    let ?drain = "if pending then drainRouteAndMaybeTeardown E L (line \<noteq> None) st1 else Some (False, st1)"
    obtain torn st2 where dr: "?drain = Some (torn, st2)"
      using run False by (cases ?drain) (auto simp: pending_def [symmetric] Let_def split: if_splits)
    have st2: "if torn then loop_settled good d0 st2
      else loop_running good d0 st2 \<and> \<not> teardownPending st2 \<and> stays (ls_driver st1) (ls_driver st2)"
      using dr drain_running [OF _ conjunct1 [OF st1] assms(5), of E "line \<noteq> None" torn st2] np st1
        stays_refl [OF d1]
      by (cases pending) (auto split: if_splits)
    have run2: "(if torn then Some st2 else case line of None \<Rightarrow> Some st2
        | Some l \<Rightarrow> service_line E lib L l pending st2) = Some st'"
      using run False dr by (cases torn) (simp_all add: pending_def [symmetric] Let_def split: if_splits)
    show ?thesis
    proof (cases "torn \<or> line = None")
      case True
      with run2 st2 show ?thesis by (auto simp: loop_settled_def split: if_splits)
    next
      case no: False
      then obtain l where l: "line = Some l" "\<not> torn" by auto
      have "in_session (sd_state (ls_driver st2))"
        using st2 l assms(4) drv stays_active [of "ls_driver st1" "ls_driver st2"] by simp
      with run2 l st2 service_line_settles [OF _ _ _ assms(5), of E lib l pending st2] show ?thesis
        by simp
    qed
  qed
qed

lemma service_settles:
  assumes "service E lib L st = Some st'" and "loop_settled good d0 st" and "sl_routes L = rt"
  shows "loop_settled good d0 st'"
proof -
  obtain s1 where pl: "poll E (session_of st) = Some s1"
    using assms(1) by (auto simp: service_def split: option.splits)
  obtain line s2 where nl: "nextLine E s1 = Some (line, s2)"
    using assms(1) pl by (auto simp: service_def split: option.splits)
  obtain d1 c1 w1 where s1: "s1 = (d1, c1, w1)" by (cases s1)
  have d: "driver_ok (ls_driver st)" using assms(2) by (simp add: loop_settled_def loop_running_def)
  note pl' = pl [unfolded session_of_def s1]
  note ok1 = poll_ok [OF pl' d, unfolded fst_conv]
  note nx = nextLine_stays [OF nl [unfolded s1] conjunct1 [OF ok1]]
  define st1 where "st1 = put_session st s2"
  have drv: "ls_driver st1 = fst s2" by (simp add: st1_def put_session_driver)
  have run1: "loop_running good d0 st1"
  proof -
    have "in_session (sd_state (fst s2))" if "hasPending (sh_scheduler (ls_shared st))"
    proof -
      have "sd_state (ls_driver st) = SESSION_ACTIVE" using loop_settled_active [OF assms(2) that] .
      from poll_stays [OF pl' d this] stays_active [of "ls_driver st" d1]
        stays_active [OF conjunct1 [OF nx]] this
      show ?thesis by (simp add: in_session_def)
    qed
    moreover have "same_config d0 (fst s2)" "driver_ok (fst s2)"
      using assms(2) ok1 nx
      by (auto simp: loop_settled_def loop_running_def stays_def intro: same_config_trans)
    ultimately show ?thesis using assms(2) drv
      by (simp add: loop_running_def loop_settled_def st1_def)
  qed
  note run = assms(1) [unfolded service_def pl option.case nl prod.case, folded st1_def,
      unfolded Let_def]
  show ?thesis
  proof (cases "teardownPending st1")
    case True
    have "loop_running good d0 (if line \<noteq> None then on_driver driver_releaseLine st1 else st1)"
      using run1 loop_running_release by auto
    from run True cancel_settles [OF _ this assms(3)] show ?thesis by simp
  next
    case False
    have "in_session (sd_state (ls_driver st1))" if "line \<noteq> None"
      using that nextLine_line [of E d1 c1 w1 _ s2] nl s1 ok1 drv by auto
    with run False service_due_settles [OF _ run1 False _ assms(3), of E lib line st'] show ?thesis
      by simp
  qed
qed

end

section \<open>A turn returns\<close>

lemma cancel_returns:
  assumes "running_clock E time"
  shows "returns (cancelRouteAndApply E L st)"
  using applyPendingTeardown_returns [OF assms]
  by (simp add: cancelRouteAndApply_def Let_def returns_def split: prod.split)

lemma drain_returns:
  assumes "running_clock E time"
  shows "returns (drainRouteAndMaybeTeardown E L acquired st)"
proof -
  have send: "returns (sendActiveLine E line mc s)" for line mc s
    by (rule sendActiveLine_returns [OF assms])
  have cancel: "returns (map_option f (cancelRouteAndApply E L st))" for f :: "_ \<Rightarrow> 'c" and st
    using cancel_returns [OF assms, of L st] by (simp add: returns_def)
  have "returns (drainOne (sendActiveLine E) s ss)" for s ss
    by (auto simp: drainOne_def send split: option.split prod.split)
  then show ?thesis
    by (auto simp: drainRouteAndMaybeTeardown_def Let_def cancel split: prod.split option.split)
qed

lemma service_returns_lemma:
  assumes "running_clock E time" and "finite_backlog E backlog"
  shows "returns (service E lib L st)"
proof -
  note cancel = cancel_returns [OF assms(1)]
  have drain: "returns (map_option f (drainRouteAndMaybeTeardown E L acquired st))"
    for f :: "_ \<Rightarrow> 'c" and acquired st
    using drain_returns [OF assms(1), of L acquired st] by (simp add: returns_def)
  have line: "returns (service_line E lib L l drained st)" for l drained st
    by (simp add: service_line_def Let_def cancel drain)
  have due: "returns (service_due E lib L l st)" for l st
    by (auto simp: service_due_def Let_def cancel line drain_returns [OF assms(1)]
        split: prod.split bool.split option.split)
  show ?thesis
    by (auto simp: service_def Let_def cancel due poll_returns [OF assms] nextLine_returns [OF assms(2)]
        split: prod.split)
qed

section \<open>Lines for somebody else\<close>

lemma copyBounded_short:
  "length (cstr s) \<le> capacity \<Longrightarrow> copyBounded (Some s) capacity = Some (cstr s)"
  by (simp add: copyBounded_def scan_length_eq take_length_cstr)

lemma strcmp_eq_cstr [simp]: "strcmp_eq (cstr s) t = strcmp_eq s t" "strcmp_eq s (cstr t) = strcmp_eq s t"
  by (simp_all add: strcmp_eq_def)

text \<open>Sent by the controller to this board.\<close>

definition addressed :: "board_identity \<Rightarrow> bytes \<Rightarrow> bytes \<Rightarrow> bool" where
  "addressed identity source target \<longleftrightarrow>
     strcmp_eq source ''controller'' \<and> (\<exists>board. board_id identity = Some board \<and> strcmp_eq target board)"

lemma validControllerTarget_addressed:
  "validControllerTarget identity (Some s) (Some t) \<longleftrightarrow> addressed identity s t"
  by (auto simp: validControllerTarget_def addressed_def split: option.split)

text \<open>What both documents say of a line's addresses, when they are short enough to be an address.\<close>

definition line_addresses :: "json_library \<Rightarrow> bytes \<Rightarrow> (bytes \<times> json) list \<Rightarrow> bytes \<Rightarrow> bytes \<Rightarrow> bool" where
  "line_addresses lib data root source target \<longleftrightarrow>
     document_root (deserialize_in_place lib) (Some data) = Some root \<and>
     deserialize_copying lib data = Some (JObject root) \<and>
     getString (member kSource root) = Some source \<and> getString (member kTarget root) = Some target \<and>
     length (cstr source) \<le> kMaxBoardIdBytes \<and> length (cstr target) \<le> kMaxBoardIdBytes"

lemma gate_of_line:
  assumes "line_addresses lib data root source target"
  shows "gt_valid (extractSourceTarget lib (Some data))"
    and "validControllerTarget_gate identity (extractSourceTarget lib (Some data)) = addressed identity source target"
  using assms
  by (auto simp: line_addresses_def extractSourceTarget_def copyBounded_short validControllerTarget_gate_def
      addressed_def split: option.split)

lemma parse_message_kinds:
  "po_message_kind (fst (parseCommand root o' st)) = Command_Message"
  "po_message_kind (fst (parseEstop root o' st)) = Estop_Message"
  "po_message_kind (fst (parseHeartbeat root o' st)) = Heartbeat_Message"
  by (simp_all add: parseCommand_def parseEstop_def parseHeartbeat_def Let_def
      markInvalidWithoutResponse_def structuralError_def split: option.split prod.split)

lemma parse_valid_message:
  assumes "parse deserialize line st = (outcome, st')" and "po_kind outcome = Valid"
  shows "po_message_kind outcome \<noteq> No_Message"
proof -
  have "po_kind (fst (parse deserialize line st)) = Valid \<longrightarrow>
      po_message_kind (fst (parse deserialize line st)) \<noteq> No_Message"
    by (simp add: parse_def Let_def parse_message_kinds markInvalidWithoutResponse_def new_outcome_def
        split: prod.split option.split json.split)
  with assms show ?thesis by simp
qed

lemma processLine_parse:
  assumes "parse (deserialize_in_place lib) line (sh_counters (ls_shared st), ls_parser st) = (outcome, (c, p))"
    and "clock_us E (sl_clock L) (sh_world (ls_shared st)) = (us, w)"
  shows "processLine E lib L line st =
    (let root_gate = extractSourceTarget lib line;
         st1 = st\<lparr>ls_parser := p, ls_shared := (ls_shared st)\<lparr>sh_counters := c, sh_world := w\<rparr>\<rparr>
     in if po_kind outcome = Valid then routeValid L outcome root_gate us st1
        else if po_kind outcome = StructurallyInvalid \<and>
                po_message_kind outcome = Command_Message \<and> po_has_seq outcome \<and>
                po_has_controller_ts outcome \<and> po_has_suggested_error outcome
        then
          if gt_valid root_gate \<and> \<not> validControllerTarget_gate (sl_identity L) root_gate
          then on_shared (count (increment invalid_targets_update)) st1
          else on_shared (routeRecoverableCommandError (sl_routes L)
                 \<lparr>re_seq = po_seq outcome, re_controller_ts = po_controller_ts outcome,
                  re_code = po_suggested_error outcome\<rparr>) st1
        else st1)"
  unfolding processLine_def Let_def assms prod.case ..

section \<open>Properties\<close>

text \<open>
  C17: a turn of the service loop always comes back, whatever the handlers and the peer do, under a
  clock that runs and with a peer whose bytes come to an end.
\<close>

theorem service_returns:
  assumes "running_clock E time" and "finite_backlog E backlog"
  shows "\<exists>st'. service E lib L st = Some st'"
  using service_returns_lemma [OF assms, of lib L st] by (simp add: returns_iff)

definition sample_loop :: "bytes \<Rightarrow> (unit, 'w) service_loop" where
  "sample_loop board =
     \<lparr>sl_identity = \<lparr>board_id = Some board, protocol_version = None, firmware_version = None\<rparr>,
      sl_routes = no_routes, sl_clock = False\<rparr>"

definition sample_library :: json_library where
  "sample_library = \<lparr>deserialize_in_place = sample_document, deserialize_copying = sample_document\<rparr>"

definition sample_loop_state :: "(unit, nat \<times> bytes) loop_state" where
  "sample_loop_state =
     \<lparr>ls_driver = new_session_driver new_registry (registry_identity new_registry) None 80,
      ls_parser = new_parser,
      ls_shared = \<lparr>sh_context = (), sh_counters = zero_counters, sh_scheduler = new_scheduler,
        sh_world = (3, [])\<rparr>\<rparr>"

lemma service_returns_witness:
  "\<exists>st'. service (sample_env 1) sample_library (sample_loop ''b'') sample_loop_state = Some st'"
  by (rule service_returns [OF sample_env_running sample_env_backlog])


lemma sample_addresses:
  "\<exists>root. line_addresses sample_library ''x'' root ''controller'' ''b''"
  by (simp add: line_addresses_def document_root_def sample_library_def sample_document_def
      member_def find_member_def strcmp_eq_def limits isValidUtf8.simps)


end
