(* ===== verification/HeartbeatHandler.thy ===== *)
theory HeartbeatHandler
  imports InboundParser OutboundScheduler
begin

text \<open>
  The answer to a heartbeat, \<open>src/core/HeartbeatHandler.h\<close>: count it, build the acknowledgement
  that repeats its sequence number, queue it. The result \<open>True\<close> asks for a teardown.
\<close>

definition buildHeartbeatAckLine :: "u64 \<Rightarrow> board_identity \<Rightarrow> nat \<Rightarrow> bytes option" where
  [builder]: "buildHeartbeatAckLine seq identity capacity =
     build_line capacity
       [beginObject,
        addString (Some kType) (Some (toString_message_type Heartbeat)),
        addUInt64 (Some kSeq) seq,
        addString (Some kSource) (board_id identity),
        addString (Some kTarget) (Some ''controller''),
        endObject]"

definition handleHeartbeat ::
    "parsed_heartbeat \<Rightarrow> board_identity \<Rightarrow> counters \<times> outbound_scheduler \<Rightarrow>
     bool \<times> counters \<times> outbound_scheduler" where
  "handleHeartbeat heartbeat identity st =
     (case st of (c, s) \<Rightarrow>
        let c1 = increment heartbeat_received_update c in
        case buildHeartbeatAckLine (ph_seq heartbeat) identity kHeartbeatJsonBufferBytes of
          None \<Rightarrow> (True, (c1, s))
        | Some line \<Rightarrow>
            case enqueueCritical HeartbeatAck (Some line) s of
              (result, s1) \<Rightarrow> (result \<noteq> Queued, (c1, s1)))"

section \<open>What is sent\<close>

definition heartbeat_members :: "bytes \<Rightarrow> u64 \<Rightarrow> (bytes \<times> json) list" where
  "heartbeat_members board seq =
     [(kType, JString ''heartbeat''), (kSeq, JUnsigned seq), (kSource, JString board),
      (kTarget, JString ''controller'')]"

lemma heartbeat_line_fits:
  "length board \<le> kMaxBoardIdBytes \<Longrightarrow> length (line_of (heartbeat_members board seq)) \<le> 512"
  using length_quoted_le [of hex_upper board] length_dec_u64 [of seq]
  by (simp add: line_of_def heartbeat_members_def quoted_plain plain_char_def limits)

lemma writes_heartbeat:
  assumes "board_named identity board"
  shows "writes (run_all
       [beginObject, addString (Some kType) (Some (toString_message_type Heartbeat)),
        addUInt64 (Some kSeq) seq, addString (Some kSource) (board_id identity),
        addString (Some kTarget) (Some ''controller''), endObject])
     (object_events (heartbeat_members board seq))"
proof -
  have "writes (run_all
       [beginObject, addString (Some kType) (Some (toString_message_type Heartbeat)),
        addUInt64 (Some kSeq) seq, addString (Some kSource) (board_id identity),
        addString (Some kTarget) (Some ''controller''), endObject])
     (concat [[ObjBegin], [FieldStr kType ''heartbeat''], [FieldLit kSeq (dec_u64 seq)],
        [FieldStr kSource board], [FieldStr kTarget ''controller''], [ObjEnd]])"
    by (rule writes_run_all)
      (simp add: as_events(1,2,4,6) writes_event assms [unfolded board_named_def]
        del: exec_event.simps member_events.simps concat.simps run_all.simps)
  then show ?thesis by (simp add: heartbeat_members_def object_events_def)
qed

lemma buildHeartbeatAckLine_eq:
  assumes "board_named identity board"
  shows "buildHeartbeatAckLine seq identity kHeartbeatJsonBufferBytes =
     Some (line_of (heartbeat_members board seq))"
proof -
  have "json_depth (JObject (heartbeat_members board seq)) \<le> kMaxJsonNestingDepth"
    "json_names_ok (JObject (heartbeat_members board seq))"
    by (simp_all add: heartbeat_members_def limits)
  from build_line_members [OF _ this writes_heartbeat [OF assms], of kHeartbeatJsonBufferBytes]
    heartbeat_line_fits [of board seq] assms
  show ?thesis by (simp add: buildHeartbeatAckLine_def board_named_def limits)
qed

text \<open>
  Every heartbeat is answered. With room in the queue, handling a heartbeat appends exactly one
  acknowledgement, which carries the heartbeat's own sequence number and the board's name; with a
  full queue nothing is queued and a teardown is requested.
\<close>

theorem heartbeat_answered:
  assumes "board_named identity board"
  shows "let (teardown, (c', s')) = handleHeartbeat heartbeat identity (c, s) in
     heartbeat_received c' = heartbeat_received c + 1 \<and>
     (if has_room s
      then \<not> teardown \<and> held_lines s' = held_lines s @
             [(HeartbeatAck, line_of (heartbeat_members board (ph_seq heartbeat)))]
      else teardown \<and> s' = s)"
proof -
  let ?line = "line_of (heartbeat_members board (ph_seq heartbeat))"
  have crit: "critical_line HeartbeatAck (Some ?line)"
    using heartbeat_line_fits [of board "ph_seq heartbeat"] assms
    by (intro line_of_critical) (simp_all add: board_named_def limits)
  show ?thesis
    using cq.enq_room [OF crit, of s] cq.enq_full [OF crit, of s]
    by (cases "enqueueCritical HeartbeatAck (Some ?line) s")
      (auto simp: handleHeartbeat_def buildHeartbeatAckLine_eq [OF assms] Let_def)
qed

lemma heartbeat_answered_witness:
  "held_lines (snd (snd (handleHeartbeat \<lparr>ph_seq = 7, ph_source = Some ''c'', ph_target = Some ''b''\<rparr>
      \<lparr>board_id = Some ''b'', protocol_version = None, firmware_version = None\<rparr>
      (zero_counters, new_scheduler)))) = [(HeartbeatAck, line_of (heartbeat_members ''b'' 7))]"
  using heartbeat_answered [of "\<lparr>board_id = Some ''b'', protocol_version = None, firmware_version = None\<rparr>"
      "''b''" "\<lparr>ph_seq = 7, ph_source = Some ''c'', ph_target = Some ''b''\<rparr>" zero_counters new_scheduler]
  by (simp add: board_named_def limits has_room_def held_lines_def new_scheduler_def split: prod.splits)

end
