(* ===== verification/TelemetryScheduler.thy ===== *)
theory TelemetryScheduler
  imports LineBuffer OutboundScheduler
begin

text \<open>
  Periodic telemetry, \<open>src/core/TelemetryScheduler.h\<close>: when a frame is due the provider fills an
  object writer, the frame's line is built around its payload, and the line replaces whatever
  telemetry still waits in the outbound queue.
\<close>

section \<open>State and line building\<close>

text \<open>\<open>ts_line\<close> is \<open>line_[0 .. line_size_)\<close>.\<close>

record telemetry_scheduler =
  ts_identity :: board_identity
  ts_provider :: "nat option"
  ts_next_seq :: u64
  ts_session_active :: bool
  ts_first_frame_due :: bool
  ts_last_due_ms :: u64
  ts_line :: bytes

definition new_telemetry_scheduler :: "board_identity \<Rightarrow> nat option \<Rightarrow> telemetry_scheduler" where
  "new_telemetry_scheduler identity provider =
     \<lparr>ts_identity = identity, ts_provider = provider, ts_next_seq = 1, ts_session_active = False,
      ts_first_frame_due = True, ts_last_due_ms = 0, ts_line = []\<rparr>"

definition appendBytes_tel :: "bytes \<Rightarrow> bytes act" where
  "appendBytes_tel = append_bounded kTelemetryJsonBufferBytes"

definition appendRaw_tel :: "bytes \<Rightarrow> bytes act" where   \<comment> \<open>of a string literal, never null\<close>
  "appendRaw_tel literal = appendBytes_tel literal"

definition appendUInt64_tel :: "u64 \<Rightarrow> bytes act" where
  "appendUInt64_tel n line =
     (let literal = dec_u64 n in
      if 0 < length literal \<and> length literal < kMaxUInt64LiteralBytes
      then appendBytes_tel literal line else (False, line))"

definition appendEscapedString_tel :: "c_string \<Rightarrow> bytes act" where
  "appendEscapedString_tel s =
     run_all
       [appendRaw_tel [QUOTE],
        put_each appendBytes_tel (escape_with hex_upper)
          (case s of None \<Rightarrow> [] | Some t \<Rightarrow> cstr t),
        appendRaw_tel [QUOTE]]"

definition buildLine_tel ::
    "'w env \<Rightarrow> u64 \<Rightarrow> c_string \<Rightarrow> bytes \<Rightarrow> 'w \<Rightarrow> bool \<times> bytes \<times> 'w" where
  "buildLine_tel E seq board data w =
     (if length data < 2 \<or> hd data \<noteq> CHR ''{'' \<or> last data \<noteq> CHR ''}'' then (False, ([], w))
      else run_all
        (map on_line
           [appendRaw_tel ''{\"type\":\"telemetry\",\"seq\":'',
            appendUInt64_tel seq,
            appendRaw_tel '',\"timestamp\":''] @
         stamp E appendUInt64_tel #
         map on_line
           [appendRaw_tel '',\"source\":'',
            appendEscapedString_tel board,
            appendRaw_tel '',\"target\":\"controller\",\"telemetry\":'',
            appendBytes_tel data,
            appendRaw_tel [CHR ''}'', LF]]) ([], w))"

type_synonym 'w telemetry_state = "telemetry_scheduler \<times> counters \<times> outbound_scheduler \<times> 'w"

definition buildAndQueue :: "'w env \<Rightarrow> 'w telemetry_state \<Rightarrow> bool \<times> 'w telemetry_state" where
  "buildAndQueue E st =
     (case st of (t, c, s, w) \<Rightarrow>
        case ts_provider t of
          None \<Rightarrow> (False, (t, increment telemetry_dropped_update c, s, w))
        | Some provider \<Rightarrow>
            case telemetryProvider E provider new_object_writer w of
              (provided, telemetry, w1) \<Rightarrow>
                case (if provided then close_ow telemetry else (False, telemetry)) of
                  (closed, telemetry1) \<Rightarrow>
                    if \<not> provided \<or> \<not> closed
                    then (False, (t, increment telemetry_dropped_update c, s, w1))
                    else case buildLine_tel E (ts_next_seq t) (board_id (ts_identity t))
                                (payload telemetry1) w1 of
                      (built, line, w2) \<Rightarrow>
                        let t1 = t\<lparr>ts_line := line\<rparr> in
                        if \<not> built then (False, (t1, increment telemetry_dropped_update c, s, w2))
                        else case replaceTelemetry (Some line) (c, s) of
                          (result, (c1, s1)) \<Rightarrow>
                            if result \<noteq> Queued
                            then (False, (t1, increment telemetry_dropped_update c1, s1, w2))
                            else (True, (t1\<lparr>ts_next_seq := ts_next_seq t1 + 1\<rparr>, c1, s1, w2)))"

definition service_telemetry :: "'w env \<Rightarrow> 'w telemetry_state \<Rightarrow> 'w telemetry_state" where
  "service_telemetry E st =
     (case st of (t0, c, s, w0) \<Rightarrow>
        let t = (if \<not> ts_session_active t0
                 then t0\<lparr>ts_session_active := True, ts_first_frame_due := True\<rparr> else t0) in
        case monotonicMilliseconds E w0 of
          (now, w) \<Rightarrow>
            if \<not> ts_first_frame_due t \<and> now - ts_last_due_ms t < kTelemetryPeriodMs
            then (t, c, s, w)
            else snd (buildAndQueue E
                   (t\<lparr>ts_first_frame_due := False, ts_last_due_ms := now\<rparr>, c, s, w)))"

definition onSessionInactive :: "telemetry_scheduler \<Rightarrow> telemetry_scheduler" where
  "onSessionInactive t = t\<lparr>ts_session_active := False, ts_first_frame_due := True\<rparr>"

section \<open>The line that comes out\<close>

interpretation tel: line_sink "line_sound kTelemetryJsonBufferBytes" appendBytes_tel line_extend
    "line_room kTelemetryJsonBufferBytes"
  unfolding appendBytes_tel_def by (rule line_sink_append_bounded)

abbreviation emits_tel :: "bytes act \<Rightarrow> bytes \<Rightarrow> bool" where
  "emits_tel \<equiv> emits_line kTelemetryJsonBufferBytes"

lemma emits_raw_tel: "emits_tel (appendRaw_tel t) t"
  by (simp add: appendRaw_tel_def tel.put_emits_on)

lemma emits_uint64_tel: "emits_tel (appendUInt64_tel n) (dec_u64 n)"
proof -
  have "appendUInt64_tel n = appendBytes_tel (dec_u64 n)"
    using length_dec_u64 [of n] by (auto simp: appendUInt64_tel_def Let_def limits fun_eq_iff)
  then show ?thesis by (simp add: tel.put_emits_on)
qed

lemma emits_escaped_tel: "emits_tel (appendEscapedString_tel (Some t)) (quoted hex_upper (cstr t))"
  using tel.on_quoted [of QUOTE "escape_with hex_upper" "cstr t"]
  by (simp add: appendEscapedString_tel_def appendRaw_tel_def quoted_def del: run_all.simps)

definition telemetry_members :: "bytes \<Rightarrow> u64 \<Rightarrow> u64 \<Rightarrow> (bytes \<times> json) list \<Rightarrow> (bytes \<times> json) list" where
  "telemetry_members board seq ts ms =
     [(kType, JString ''telemetry''), (kSeq, JUnsigned seq), (kTimestamp, JUnsigned ts),
      (kSource, JString board), (kTarget, JString ''controller''), (kTelemetry, JObject ms)]"

lemma object_text_shape:
  "2 \<le> length (serialise (JObject ms)) \<and> hd (serialise (JObject ms)) = CHR ''{'' \<and>
   last (serialise (JObject ms)) = CHR ''}''"
  by simp

lemma telemetry_text:
  "concat [''{\"type\":\"telemetry\",\"seq\":'', dec_u64 seq, '',\"timestamp\":''] @ dec_u64 ts @
   concat ['',\"source\":'', quoted hex_upper board, '',\"target\":\"controller\",\"telemetry\":'',
     serialise (JObject ms), [CHR ''}'', LF]] = line_of (telemetry_members board seq ts ms)"
  by (simp add: line_of_def telemetry_members_def quoted_plain plain_char_def del: serialise.simps(8))
    (simp add: quoted_plain plain_char_def)

lemma buildLine_tel_spec:
  assumes "nul_free board" and "length board \<le> kMaxBoardIdBytes"
    and "monotonicMilliseconds E w = (now, w1)"
  shows "if length (line_of (telemetry_members board seq now ms)) < kTelemetryJsonBufferBytes
     then buildLine_tel E seq (Some board) (serialise (JObject ms)) w =
       (True, (line_of (telemetry_members board seq now ms), w1))
     else \<exists>l. buildLine_tel E seq (Some board) (serialise (JObject ms)) w = (False, (l, w1))"
proof -
  let ?pre = "[appendRaw_tel ''{\"type\":\"telemetry\",\"seq\":'', appendUInt64_tel seq,
      appendRaw_tel '',\"timestamp\":'']"
  let ?post = "[appendRaw_tel '',\"source\":'', appendEscapedString_tel (Some board),
      appendRaw_tel '',\"target\":\"controller\",\"telemetry\":'',
      appendBytes_tel (serialise (JObject ms)), appendRaw_tel [CHR ''}'', LF]]"
  let ?ts = "[''{\"type\":\"telemetry\",\"seq\":'', dec_u64 seq, '',\"timestamp\":'']"
  let ?us = "['',\"source\":'', quoted hex_upper board, '',\"target\":\"controller\",\"telemetry\":'',
      serialise (JObject ms), [CHR ''}'', LF]]"
  have pre: "list_all2 emits_tel ?pre ?ts"
    by (simp add: emits_raw_tel emits_uint64_tel)
  have post: "list_all2 emits_tel ?post ?us"
    using emits_escaped_tel [of board] assms(1)
    by (simp add: emits_raw_tel tel.put_emits_on del: serialise.simps)
  have fits: "length (concat ?ts) < kTelemetryJsonBufferBytes"
    using length_dec_u64 [of seq] by (simp add: limits)
  have shape: "\<not> (length (serialise (JObject ms)) < 2 \<or> hd (serialise (JObject ms)) \<noteq> CHR ''{'' \<or>
      last (serialise (JObject ms)) \<noteq> CHR ''}'')" using object_text_shape [of ms] by auto
  have build: "buildLine_tel E seq (Some board) (serialise (JObject ms)) w =
      run_all (map on_line ?pre @ stamp E appendUInt64_tel # map on_line ?post) ([], w)"
    unfolding buildLine_tel_def using shape by (simp only: if_False)
  show ?thesis
    using stamped_emits [where put = appendUInt64_tel and text_of = dec_u64, OF tel.line_sink_axioms pre fits post emits_uint64_tel assms(3)]
    unfolding build telemetry_text by (simp only: append_assoc)
qed

text \<open>One frame, when what the provider wrote is known.\<close>

lemma buildAndQueue_frame:
  assumes "board_named (ts_identity t) board" and "ts_provider t = Some p"
    and pr: "telemetryProvider E p new_object_writer w = (provided, ow, w1)" and ms: "ow_holds ms ow"
    and now: "monotonicMilliseconds E w1 = (now, w2)"
    and run: "buildAndQueue E (t, c, s, w) = (ok, (t', c', s', w'))"
  shows "let line = line_of (telemetry_members board (ts_next_seq t) now ms) in
     if provided \<and> length line < kTelemetryJsonBufferBytes
     then ok \<and> s' = s\<lparr>os_telemetry := Some line\<rparr> \<and> ts_next_seq t' = ts_next_seq t + 1 \<and>
       telemetry_dropped c' = telemetry_dropped c \<and> w' = w2
     else \<not> ok \<and> s' = s \<and> ts_next_seq t' = ts_next_seq t \<and>
       telemetry_dropped c' = telemetry_dropped c + 1 \<and> w' \<in> {w1, w2}"
proof (cases provided)
  case False
  then show ?thesis using run by (auto simp: buildAndQueue_def assms(2) pr)
next
  case True
  obtain ow1 where cl: "close_ow ow = (True, ow1)" and pay: "payload ow1 = serialise (JObject ms)"
    using close_ow_succeeds [OF ms]
    by (cases "close_ow ow") (auto simp: ow_holds_def simp del: serialise.simps)
  let ?line = "line_of (telemetry_members board (ts_next_seq t) now ms)"
  have b: "board_id (ts_identity t) = Some board" "nul_free board" "length board \<le> kMaxBoardIdBytes"
    using assms(1) by (simp_all add: board_named_def)
  note build = buildLine_tel_spec [OF b(2,3) now, of "ts_next_seq t" ms]
  note steps = run [unfolded buildAndQueue_def prod.case assms(2) option.case pr b(1) Let_def]
  show ?thesis
  proof (cases "length ?line < kTelemetryJsonBufferBytes")
    case fits: True
    then have "isValidLine (Some ?line)" by (simp add: isValidLine_def line_of_shape limits)
    then have rep: "replaceTelemetry (Some ?line) (c, s) =
        (Queued, ((if os_telemetry s \<noteq> None then increment telemetry_coalesced_update c else c),
           s\<lparr>os_telemetry := Some ?line\<rparr>))" by (simp add: replaceTelemetry_def)
    have bl: "buildLine_tel E (ts_next_seq t) (Some board) (serialise (JObject ms)) w1 = (True, (?line, w2))"
      using build fits by (simp only: if_True)
    show ?thesis
      using steps fits by (auto simp: True cl pay bl rep Let_def simp del: serialise.simps)
  next
    case long: False
    then obtain l where bl: "buildLine_tel E (ts_next_seq t) (Some board) (serialise (JObject ms)) w1 =
        (False, (l, w2))" using build by (simp only: if_False) blast
    show ?thesis
      using steps long by (auto simp: True cl pay bl Let_def simp del: serialise.simps)
  qed
qed

section \<open>Properties\<close>


definition sample_telemetry :: telemetry_scheduler where
  "sample_telemetry = new_telemetry_scheduler
     \<lparr>board_id = Some ''b'', protocol_version = None, firmware_version = None\<rparr> (Some 0)"


text \<open>
  When frames are due over a sequence of service calls in one session; between two calls the rest
  of the program and the world may change in any way.
\<close>

definition frame_due :: "telemetry_scheduler \<Rightarrow> u64 \<Rightarrow> bool" where
  "frame_due t now \<longleftrightarrow>
     \<not> ts_session_active t \<or> ts_first_frame_due t \<or> kTelemetryPeriodMs \<le> now - ts_last_due_ms t"

fun due_times ::
    "'w env \<Rightarrow> telemetry_scheduler \<Rightarrow> (counters \<times> outbound_scheduler \<times> 'w) list \<Rightarrow> u64 list" where
  "due_times E t [] = []"
| "due_times E t ((c, s, w) # rest) =
     (if frame_due t (fst (monotonicMilliseconds E w)) then [fst (monotonicMilliseconds E w)] else []) @
     due_times E (fst (service_telemetry E (t, c, s, w))) rest"

lemma buildAndQueue_timing:
  "ts_last_due_ms (fst (snd (buildAndQueue E (t, c, s, w)))) = ts_last_due_ms t \<and>
   ts_session_active (fst (snd (buildAndQueue E (t, c, s, w)))) = ts_session_active t \<and>
   ts_first_frame_due (fst (snd (buildAndQueue E (t, c, s, w)))) = ts_first_frame_due t"
  by (simp add: buildAndQueue_def Let_def split: option.split prod.split)

lemma service_telemetry_timing:
  assumes "t' = fst (service_telemetry E (t, c, s, w))" and "now = fst (monotonicMilliseconds E w)"
  shows "ts_session_active t' \<and> \<not> ts_first_frame_due t' \<and>
     ts_last_due_ms t' = (if frame_due t now then now else ts_last_due_ms t)"
  using assms
  by (auto simp: service_telemetry_def Let_def frame_due_def buildAndQueue_timing not_less not_le
      split: prod.split)


end
