(* ===== verification/TeensyCommandServer.thy ===== *)
theory TeensyCommandServer
  imports ServiceLoop HeartbeatHandler TelemetryScheduler
begin

text \<open>
  The server a board program holds, \<open>src/TeensyCommandServer.h\<close>: it owns the registry, the handlers,
  the schedulers, the session driver and the service loop, and gives the loop its routes.

  The members the routes reach are the context of the shared state; the counters, the outbound
  scheduler and the world are shared with it. \<open>identity_\<close> is three pointers, null until
  \<open>setIdentity\<close> succeeds and then into the registry's own storage, so it is kept as whether it is
  bound. The two objects built in place are options.
\<close>

section \<open>State\<close>

datatype network_mode = Dhcp | StaticIpv4 | Other_Mode u8

type_synonym ipv4 = "u8 \<times> u8 \<times> u8 \<times> u8"

record network_config =
  nc_mode :: network_mode
  nc_listen_port :: u16
  nc_ip :: ipv4
  nc_gateway :: ipv4
  nc_subnet :: ipv4

record command_spec =
  cs_name :: c_string
  cs_args :: "(c_string \<times> value_type) list option"
  cs_arg_count :: nat
  cs_blocked_by_estop :: bool

text \<open>\<open>fm_network\<close> and \<open>fm_clock\<close>: whether the pointers are set.\<close>

record facade_members =
  fm_network :: bool
  fm_clock :: bool
  fm_registry :: command_registry
  fm_estop_handler :: estop_handler
  fm_identity_bound :: bool
  fm_network_config :: network_config
  fm_network_config_set :: bool
  fm_started :: bool
  fm_telemetry_scheduler :: "telemetry_scheduler option"

type_synonym 'w facade_shared = "(facade_members, 'w) shared"

record 'w teensy_command_server =
  tc_shared :: "'w facade_shared"
  tc_parser :: inbound_parser
  tc_session_driver :: "session_driver option"

definition identity_of :: "facade_members \<Rightarrow> board_identity" where
  "identity_of m =
     (if fm_identity_bound m then registry_identity (fm_registry m)
      else \<lparr>board_id = None, protocol_version = None, firmware_version = None\<rparr>)"

text \<open>The two constructors; \<open>attached\<close> is the one that is given a network and a clock.\<close>

definition new_server :: "bool \<Rightarrow> 'w \<Rightarrow> 'w teensy_command_server" where
  "new_server attached w =
     \<lparr>tc_shared =
        \<lparr>sh_context =
           \<lparr>fm_network = attached, fm_clock = attached, fm_registry = new_registry,
            fm_estop_handler = new_estop_handler, fm_identity_bound = False,
            fm_network_config =
              \<lparr>nc_mode = Dhcp, nc_listen_port = 0, nc_ip = (0, 0, 0, 0), nc_gateway = (0, 0, 0, 0),
               nc_subnet = (0, 0, 0, 0)\<rparr>,
            fm_network_config_set = False, fm_started = False, fm_telemetry_scheduler = None\<rparr>,
         sh_counters = zero_counters, sh_scheduler = new_scheduler, sh_world = w\<rparr>,
      tc_parser = new_parser, tc_session_driver = None\<rparr>"

section \<open>Configuration\<close>

text \<open>These calls change only the members.\<close>

type_synonym config_call = "facade_members \<Rightarrow> status \<times> facade_members"

definition on_registry ::
    "(command_registry \<Rightarrow> status \<times> command_registry) \<Rightarrow> config_call" where
  "on_registry f m = (case f (fm_registry m) of (st, r) \<Rightarrow> (st, m\<lparr>fm_registry := r\<rparr>))"

definition setIdentity_server :: "board_identity \<Rightarrow> config_call" where
  "setIdentity_server identity m =
     (case setIdentity identity (fm_registry m) of
        (result, r) \<Rightarrow>
          let m1 = m\<lparr>fm_registry := r\<rparr> in
          if status_ok result then (result, m1\<lparr>fm_identity_bound := True\<rparr>) else (result, m1))"

fun allZero :: "ipv4 \<Rightarrow> bool" where
  "allZero (a, b, c, d) \<longleftrightarrow> a = 0 \<and> b = 0 \<and> c = 0 \<and> d = 0"

definition setNetworkConfig :: "network_config \<Rightarrow> config_call" where
  "setNetworkConfig config m =
     (if cr_lifecycle (fm_registry m) = Sealed then ((RegistrationSealed, ''registry is sealed''), m)
      else if nc_listen_port config = 0
      then ((InvalidConfiguration, ''listen port is required''), m)
      else if nc_mode config \<noteq> Dhcp \<and> nc_mode config \<noteq> StaticIpv4
      then ((InvalidConfiguration, ''invalid network mode''), m)
      else if nc_mode config = StaticIpv4 \<and> allZero (nc_ip config)
      then ((InvalidConfiguration, ''static ip is required''), m)
      else (ok_status, m\<lparr>fm_network_config := config, fm_network_config_set := True\<rparr>))"

definition registerCommand_server :: "command_spec \<Rightarrow> command_handler option \<Rightarrow> config_call" where
  "registerCommand_server spec handler =
     on_registry (registerCommand
       \<lparr>rg_name = cs_name spec, rg_args = cs_args spec, rg_arg_count = cs_arg_count spec,
        rg_blocked_by_estop = cs_blocked_by_estop spec, rg_blocked_by_estop_specified = True,
        rg_handler = handler\<rparr>)"

text \<open>The loop both schema registrations have; it stops at the first refused field.\<close>

fun register_fields ::
    "(c_string \<times> value_type \<Rightarrow> command_registry \<Rightarrow> status \<times> command_registry) \<Rightarrow>
     (c_string \<times> value_type) list \<Rightarrow> command_registry \<Rightarrow> status \<times> command_registry" where
  "register_fields register [] r = (ok_status, r)"
| "register_fields register (f # fs) r =
     (case register f r of
        (result, r1) \<Rightarrow> if status_ok result then register_fields register fs r1 else (result, r1))"

definition registerTelemetrySchema ::
    "(c_string \<times> value_type) list option \<Rightarrow> nat \<Rightarrow> config_call" where
  "registerTelemetrySchema specs field_count m =
     (if 0 < field_count \<and> specs = None
      then ((InvalidArgumentSchema, ''telemetry fields required''), m)
      else on_registry (register_fields registerTelemetryField
             (take field_count (case specs of None \<Rightarrow> [] | Some fs \<Rightarrow> fs))) m)"

definition registerStateSchema ::
    "(c_string \<times> value_type) list option \<Rightarrow> nat \<Rightarrow> config_call" where
  "registerStateSchema specs field_count m =
     (if 0 < field_count \<and> specs = None
      then ((InvalidArgumentSchema, ''state fields required''), m)
      else on_registry (register_fields registerStateField
             (take field_count (case specs of None \<Rightarrow> [] | Some fs \<Rightarrow> fs))) m)"

definition setTelemetryProvider_server :: "nat option \<Rightarrow> config_call" where
  "setTelemetryProvider_server provider = on_registry (setTelemetryProvider provider)"

definition setEstopHook_server :: "nat option \<Rightarrow> config_call" where
  "setEstopHook_server hook = on_registry (setEstopHook hook)"

definition setControllerLossHook_server :: "nat option \<Rightarrow> config_call" where
  "setControllerLossHook_server hook = on_registry (setControllerLossHook hook)"

definition enableCountersDiagnosticCommand :: config_call where
  "enableCountersDiagnosticCommand = on_registry registerDiagnostics"

section \<open>Routes\<close>

definition routeCommand ::
    "'w env \<Rightarrow> parsed_command \<Rightarrow> command_args \<Rightarrow> u64 \<Rightarrow> 'w facade_shared \<Rightarrow> bool \<times> 'w facade_shared" where
  "routeCommand E command args parse_completed_us sh =
     (let m = sh_context sh in
      if \<not> fm_clock m then (True, sh)
      else case dispatch E (fm_registry m) command args parse_completed_us
                  (new_dispatcher (identity_of m), sh_counters sh, sh_scheduler sh, sh_world sh) of
        (teardown, (_, c, s, w)) \<Rightarrow>
          (teardown, sh\<lparr>sh_counters := c, sh_scheduler := s, sh_world := w\<rparr>))"

definition routeEstop ::
    "'w env \<Rightarrow> parsed_estop \<Rightarrow> 'w facade_shared \<Rightarrow> bool \<times> 'w facade_shared" where
  "routeEstop E estop sh =
     (let m = sh_context sh in
      case handleEstop E (identity_of m) (fm_clock m) (cr_estop_hook (fm_registry m))
             (sh_counters sh, sh_scheduler sh, sh_world sh) of
        (teardown, (c, s, w)) \<Rightarrow>
          (teardown, sh\<lparr>sh_counters := c, sh_scheduler := s, sh_world := w\<rparr>))"

definition routeHeartbeat ::
    "parsed_heartbeat \<Rightarrow> 'w facade_shared \<Rightarrow> bool \<times> 'w facade_shared" where
  "routeHeartbeat heartbeat sh =
     (case handleHeartbeat heartbeat (identity_of (sh_context sh)) (sh_counters sh, sh_scheduler sh) of
        (teardown, (c, s)) \<Rightarrow> (teardown, sh\<lparr>sh_counters := c, sh_scheduler := s\<rparr>))"

definition routeSafetyDue :: "'w facade_shared \<Rightarrow> bool \<times> 'w facade_shared" where
  "routeSafetyDue sh =
     (let m = sh_context sh in
      case service_estop (identity_of m) (fm_estop_handler m, sh_scheduler sh) of
        (teardown, (h, s)) \<Rightarrow>
          (teardown, sh\<lparr>sh_context := m\<lparr>fm_estop_handler := h\<rparr>, sh_scheduler := s\<rparr>))"

definition routeOutboundOutcome :: "outbound_outcome \<Rightarrow> 'w facade_shared \<Rightarrow> 'w facade_shared" where
  "routeOutboundOutcome outcome sh =
     (let m = sh_context sh in
      case onOutboundOutcome outcome (fm_estop_handler m, sh_scheduler sh) of
        (h, s) \<Rightarrow> sh\<lparr>sh_context := m\<lparr>fm_estop_handler := h\<rparr>, sh_scheduler := s\<rparr>)"

definition routeTelemetryDue :: "'w env \<Rightarrow> 'w facade_shared \<Rightarrow> 'w facade_shared" where
  "routeTelemetryDue E sh =
     (let m = sh_context sh in
      case fm_telemetry_scheduler m of
        None \<Rightarrow> sh
      | Some t \<Rightarrow>
          case service_telemetry E (t, sh_counters sh, sh_scheduler sh, sh_world sh) of
            (t1, c, s, w) \<Rightarrow>
              \<lparr>sh_context = m\<lparr>fm_telemetry_scheduler := Some t1\<rparr>, sh_counters = c,
               sh_scheduler = s, sh_world = w\<rparr>)"

definition routeTelemetryInactive_server :: "'w facade_shared \<Rightarrow> 'w facade_shared" where
  "routeTelemetryInactive_server sh =
     (let m = sh_context sh in
      case fm_telemetry_scheduler m of
        None \<Rightarrow> sh
      | Some t \<Rightarrow> sh\<lparr>sh_context := m\<lparr>fm_telemetry_scheduler := Some (onSessionInactive t)\<rparr>\<rparr>)"

text \<open>The routes left null stay as \<open>Routes{}\<close> has them.\<close>

definition facadeRoutes :: "'w env \<Rightarrow> (facade_members, 'w) routes" where
  "facadeRoutes E =
     no_routes\<lparr>rt_command_with_timing := Some (routeCommand E),
       rt_estop_with_result := Some (routeEstop E),
       rt_heartbeat_with_result := Some routeHeartbeat,
       rt_safety_due := Some routeSafetyDue,
       rt_outbound_outcome := Some routeOutboundOutcome,
       rt_telemetry_due := Some (routeTelemetryDue E),
       rt_telemetry_inactive := Some routeTelemetryInactive_server\<rparr>"

section \<open>Running\<close>

definition requestEstopTriggered_server ::
    "'w env \<Rightarrow> c_string \<Rightarrow> 'w teensy_command_server \<Rightarrow> status \<times> 'w teensy_command_server" where
  "requestEstopTriggered_server E reason sv =
     (let sh = tc_shared sv; m = sh_context sh in
      case requestEstopTriggered E (fm_clock m) reason (fm_estop_handler m, sh_scheduler sh, sh_world sh) of
        (result, (h, s, w)) \<Rightarrow>
          (result, sv\<lparr>tc_shared :=
             sh\<lparr>sh_context := m\<lparr>fm_estop_handler := h\<rparr>, sh_scheduler := s, sh_world := w\<rparr>\<rparr>))"

text \<open>The objects built in place are destroyed by the destructor, and before \<open>start\<close> builds them.\<close>

definition destroyTelemetryScheduler :: "'w facade_shared \<Rightarrow> 'w facade_shared" where
  "destroyTelemetryScheduler sh = sh\<lparr>sh_context := (sh_context sh)\<lparr>fm_telemetry_scheduler := None\<rparr>\<rparr>"

definition destroySessionDriver :: "'w teensy_command_server \<Rightarrow> 'w teensy_command_server" where
  "destroySessionDriver sv = sv\<lparr>tc_session_driver := None\<rparr>"

definition destroy_server :: "'w teensy_command_server \<Rightarrow> 'w teensy_command_server" where
  "destroy_server sv =
     (let sv1 = destroySessionDriver sv in sv1\<lparr>tc_shared := destroyTelemetryScheduler (tc_shared sv1)\<rparr>)"

definition isStarted :: "'w teensy_command_server \<Rightarrow> bool" where
  "isStarted sv = fm_started (sh_context (tc_shared sv))"

text \<open>What \<open>start\<close> builds once the registry is sealed.\<close>

definition start_session :: "'w env \<Rightarrow> 'w teensy_command_server \<Rightarrow> 'w teensy_command_server" where
  "start_session E sv =
     (let sh = destroyTelemetryScheduler (tc_shared sv); m = sh_context sh; r = fm_registry m;
          d = new_session_driver r (identity_of m) (cr_controller_loss_hook r)
                (nc_listen_port (fm_network_config m)) in
      case driver_begin E (d, sh_counters sh, sh_world sh) of
        (d1, c, w) \<Rightarrow>
          (destroySessionDriver sv)\<lparr>tc_shared :=
               sh\<lparr>sh_context := m\<lparr>fm_telemetry_scheduler :=
                    Some (new_telemetry_scheduler (identity_of m) (cr_telemetry_provider r))\<rparr>,
                  sh_counters := c, sh_world := w\<rparr>,
             tc_session_driver := Some d1\<rparr>)"

lemma start_session_eq:
  "start_session E sv =
     (let sh = tc_shared sv; m = sh_context sh; r = fm_registry m;
          d = new_session_driver r (identity_of m) (cr_controller_loss_hook r)
                (nc_listen_port (fm_network_config m)) in
      case driver_begin E (d, sh_counters sh, sh_world sh) of
        (d1, c, w) \<Rightarrow>
          sv\<lparr>tc_shared :=
               sh\<lparr>sh_context := m\<lparr>fm_telemetry_scheduler :=
                    Some (new_telemetry_scheduler (identity_of m) (cr_telemetry_provider r))\<rparr>,
                  sh_counters := c, sh_world := w\<rparr>,
             tc_session_driver := Some d1\<rparr>)"
  by (simp add: start_session_def destroySessionDriver_def destroyTelemetryScheduler_def identity_of_def
      Let_def split: prod.split)

definition start :: "'w env \<Rightarrow> 'w teensy_command_server \<Rightarrow> status \<times> 'w teensy_command_server" where
  "start E sv =
     (let sh = tc_shared sv; m = sh_context sh; r = fm_registry m in
      if \<not> fm_network_config_set m
      then ((InvalidConfiguration, ''network config is required''), sv)
      else
        let metadata = validateMetadataForSeal r in
        if \<not> status_ok metadata then (metadata, sv)
        else
          let size = validateMaximumSchemaSize r (registry_identity r) in
          if \<not> status_ok size then (size, sv)
          else case commitSeal r of
            (sealed, r1) \<Rightarrow>
              if \<not> status_ok sealed then (sealed, sv)
              else
                let m1 = m\<lparr>fm_registry := r1, fm_identity_bound := True, fm_started := True\<rparr>;
                    sv1 = sv\<lparr>tc_shared := sh\<lparr>sh_context := m1\<rparr>\<rparr> in
                (ok_status,
                 if fm_network m1 \<and> fm_clock m1 then start_session E sv1 else sv1))"

definition service_loop_of :: "'w env \<Rightarrow> facade_members \<Rightarrow> (facade_members, 'w) service_loop" where
  "service_loop_of E m =
     \<lparr>sl_identity = identity_of m, sl_routes = facadeRoutes E, sl_clock = fm_clock m\<rparr>"

definition service_server ::
    "'w env \<Rightarrow> json_library \<Rightarrow> 'w teensy_command_server \<Rightarrow> 'w teensy_command_server option" where
  "service_server E lib sv =
     (case tc_session_driver sv of
        None \<Rightarrow> Some sv
      | Some d \<Rightarrow>
          let m = sh_context (tc_shared sv) in
          if \<not> fm_started m then Some sv
          else map_option
                 (\<lambda>st. sv\<lparr>tc_shared := ls_shared st, tc_parser := ls_parser st,
                         tc_session_driver := Some (ls_driver st)\<rparr>)
                 (service E lib (service_loop_of E m)
                    \<lparr>ls_driver = d, ls_parser = tc_parser sv, ls_shared = tc_shared sv\<rparr>))"

section \<open>The routes meet the loop's contract\<close>

text \<open>What each handler does to the outbound scheduler, whatever the board code does.\<close>

lemma dispatch_scheduler:
  assumes "dispatch E registry command args us (d, c, s, w) = (teardown, (d', c', s', w'))"
  shows "s' = s \<or> (\<exists>line. s' = snd (enqueueCritical CommandResponse line s))"
proof -
  have err: "s2 = s \<or> (\<exists>line. s2 = snd (enqueueCritical CommandResponse line s))"
    if "enqueueError E seq cts code message (d1, c1, s, w1) = (td, (d2, c2, s2, w2))"
    for seq cts code message d1 c1 w1 td d2 c2 s2 w2
    using that by (auto simp: enqueueError_def Let_def split: prod.splits if_splits) (metis snd_conv)+
  show ?thesis
    using assms
    by (auto simp: dispatch_def Let_def enqueueFallbackInternalError_def
        split: option.splits prod.splits if_splits dest!: err) (metis snd_conv)+
qed

lemma handleEstop_scheduler:
  assumes "handleEstop E identity clock hook (c, s, w) = (teardown, (c', s', w'))"
  shows "s' = s \<or> (\<exists>line. s' = snd (enqueueCritical EstopAck line s))"
  using assms
  by (auto simp: handleEstop_def Let_def split: option.splits prod.splits if_splits) (metis snd_conv)+

lemma handleHeartbeat_scheduler:
  assumes "handleHeartbeat hb identity (c, s) = (teardown, (c', s'))"
  shows "s' = s \<or> (\<exists>line. s' = snd (enqueueCritical HeartbeatAck line s))"
  using assms
  by (auto simp: handleHeartbeat_def Let_def split: option.splits prod.splits) (metis snd_conv)+

lemma buildAndQueue_scheduler:
  assumes "buildAndQueue E (t, c, s, w) = (ok, (t', c', s', w'))"
  shows "s' = s \<or> (\<exists>line c1. s' = snd (snd (replaceTelemetry line (c1, s))))"
  using assms
  by (auto simp: buildAndQueue_def Let_def split: option.splits prod.splits if_splits) (metis snd_conv)+

text \<open>The members no route changes, and the part of the telemetry scheduler that stays.\<close>

type_synonym facade_fixed =
  "bool \<times> bool \<times> command_registry \<times> bool \<times> network_config \<times> bool \<times> bool \<times>
   (board_identity \<times> nat option) option"

definition facade_config :: "facade_members \<Rightarrow> facade_fixed" where
  "facade_config m =
     (fm_network m, fm_clock m, fm_registry m, fm_identity_bound m, fm_network_config m,
      fm_network_config_set m, fm_started m,
      map_option (\<lambda>t. (ts_identity t, ts_provider t)) (fm_telemetry_scheduler m))"

text \<open>
  The condition the routes keep: the configuration stays, the board has its name, and the e-stop handler and the queue agree
  about the board's event.
\<close>

definition facade_good :: "facade_fixed \<Rightarrow> bytes \<Rightarrow> facade_members \<Rightarrow> outbound_scheduler \<Rightarrow> bool" where
  "facade_good cfg board m s \<longleftrightarrow> facade_config m = cfg \<and>
     board_named (identity_of m) board \<and> estop_linked board (fm_estop_handler m, s)"

lemma identity_of_frame [simp]:
  "identity_of (m\<lparr>fm_estop_handler := h\<rparr>) = identity_of m"
  "identity_of (m\<lparr>fm_telemetry_scheduler := t\<rparr>) = identity_of m"
  "identity_of (m\<lparr>fm_network_config := n\<rparr>) = identity_of m"
  "identity_of (m\<lparr>fm_network_config_set := b\<rparr>) = identity_of m"
  "identity_of (m\<lparr>fm_started := b\<rparr>) = identity_of m"
  by (simp_all add: identity_of_def)

lemma facade_config_frame [simp]:
  "facade_config (m\<lparr>fm_estop_handler := h\<rparr>) = facade_config m"
  "fm_telemetry_scheduler m = Some t \<Longrightarrow> ts_identity t' = ts_identity t \<Longrightarrow> ts_provider t' = ts_provider t \<Longrightarrow>
     facade_config (m\<lparr>fm_telemetry_scheduler := Some t'\<rparr>) = facade_config m"
  by (simp_all add: facade_config_def)

lemma service_telemetry_fixed:
  assumes "service_telemetry E (t, c, s, w) = (t', st)"
  shows "ts_identity t' = ts_identity t \<and> ts_provider t' = ts_provider t"
proof -
  have "ts_identity (fst (snd (buildAndQueue E (t, st)))) = ts_identity t \<and>
      ts_provider (fst (snd (buildAndQueue E (t, st)))) = ts_provider t" for t st
    by (auto simp: buildAndQueue_def Let_def split: option.split prod.split if_splits)
  then show ?thesis
    using arg_cong [OF assms, of fst] by (auto simp: service_telemetry_def Let_def split: prod.splits if_splits)
qed

lemma facade_good_enqueue:
  assumes "facade_good cfg board m s" and "s' = s \<or> (\<exists>line. s' = snd (enqueueCritical kind line s))"
    and "kind \<noteq> EstopTriggered"
  shows "facade_good cfg board m s'"
  using assms linked_enqueue [of kind _ s _ s' board "fm_estop_handler m"]
  by (auto simp: facade_good_def) (metis prod.collapse)

lemma facade_good_telemetry:
  assumes "facade_good cfg board m s"
    and "s' = s \<or> (\<exists>line c1. s' = snd (snd (replaceTelemetry line (c1, s))))"
    and "fm_telemetry_scheduler m = Some t" "ts_identity t' = ts_identity t" "ts_provider t' = ts_provider t"
  shows "facade_good cfg board (m\<lparr>fm_telemetry_scheduler := Some t'\<rparr>) s'"
  using assms linked_telemetry [of _ _ s _ _ s' board "fm_estop_handler m"]
  by (auto simp: facade_good_def) (metis prod.collapse)

lemma routeCommand_keeps: "keeps (facade_good cfg board) (\<lambda>sh. snd (routeCommand E command args us sh))"
  unfolding keeps_def sh_inv_def
proof (intro allI impI)
  fix sh :: "'a facade_shared"
  assume good: "facade_good cfg board (sh_context sh) (sh_scheduler sh)"
  obtain td d c s w where run: "dispatch E (fm_registry (sh_context sh)) command args us
      (new_dispatcher (identity_of (sh_context sh)), sh_counters sh, sh_scheduler sh, sh_world sh) =
      (td, (d, c, s, w))" by (metis surj_pair)
  from facade_good_enqueue [OF good dispatch_scheduler [OF run]] good
  show "facade_good cfg board (sh_context (snd (routeCommand E command args us sh)))
      (sh_scheduler (snd (routeCommand E command args us sh)))"
    by (simp add: routeCommand_def Let_def run)
qed

lemma routeEstop_keeps: "keeps (facade_good cfg board) (\<lambda>sh. snd (routeEstop E pe sh))"
  unfolding keeps_def sh_inv_def
proof (intro allI impI)
  fix sh :: "'a facade_shared"
  assume good: "facade_good cfg board (sh_context sh) (sh_scheduler sh)"
  obtain td c s w where run: "handleEstop E (identity_of (sh_context sh)) (fm_clock (sh_context sh))
      (cr_estop_hook (fm_registry (sh_context sh))) (sh_counters sh, sh_scheduler sh, sh_world sh) =
      (td, (c, s, w))" by (metis surj_pair)
  from facade_good_enqueue [OF good handleEstop_scheduler [OF run]]
  show "facade_good cfg board (sh_context (snd (routeEstop E pe sh))) (sh_scheduler (snd (routeEstop E pe sh)))"
    by (simp add: routeEstop_def Let_def run)
qed

lemma routeHeartbeat_keeps: "keeps (facade_good cfg board) (\<lambda>sh. snd (routeHeartbeat ph sh))"
  unfolding keeps_def sh_inv_def
proof (intro allI impI)
  fix sh :: "'a facade_shared"
  assume good: "facade_good cfg board (sh_context sh) (sh_scheduler sh)"
  obtain td c s where run: "handleHeartbeat ph (identity_of (sh_context sh))
      (sh_counters sh, sh_scheduler sh) = (td, (c, s))" by (metis surj_pair)
  from facade_good_enqueue [OF good handleHeartbeat_scheduler [OF run]]
  show "facade_good cfg board (sh_context (snd (routeHeartbeat ph sh))) (sh_scheduler (snd (routeHeartbeat ph sh)))"
    by (simp add: routeHeartbeat_def Let_def run)
qed

lemma routeSafetyDue_keeps: "keeps (facade_good cfg board) (\<lambda>sh. snd (routeSafetyDue sh))"
  unfolding keeps_def sh_inv_def
proof (intro allI impI)
  fix sh :: "'a facade_shared"
  assume good: "facade_good cfg board (sh_context sh) (sh_scheduler sh)"
  obtain td h s where run: "service_estop (identity_of (sh_context sh))
      (fm_estop_handler (sh_context sh), sh_scheduler sh) = (td, (h, s))" by (metis surj_pair)
  from linked_service [OF run] good
  show "facade_good cfg board (sh_context (snd (routeSafetyDue sh))) (sh_scheduler (snd (routeSafetyDue sh)))"
    by (simp add: routeSafetyDue_def Let_def run facade_good_def)
qed

lemma routeTelemetryDue_keeps: "keeps (facade_good cfg board) (routeTelemetryDue E)"
  unfolding keeps_def sh_inv_def
proof (intro allI impI)
  fix sh :: "'a facade_shared"
  assume good: "facade_good cfg board (sh_context sh) (sh_scheduler sh)"
  show "facade_good cfg board (sh_context (routeTelemetryDue E sh)) (sh_scheduler (routeTelemetryDue E sh))"
  proof (cases "fm_telemetry_scheduler (sh_context sh)")
    case None
    with good show ?thesis by (simp add: routeTelemetryDue_def)
  next
    case (Some t)
    obtain t1 c s w where run: "service_telemetry E (t, sh_counters sh, sh_scheduler sh, sh_world sh) =
        (t1, c, s, w)" by (metis surj_pair)
    have "s = sh_scheduler sh \<or> (\<exists>line c1. s = snd (snd (replaceTelemetry line (c1, sh_scheduler sh))))"
      using run
      by (auto simp: service_telemetry_def Let_def split: prod.splits if_splits)
        (metis buildAndQueue_scheduler prod.collapse snd_conv)+
    from facade_good_telemetry [OF good this Some] service_telemetry_fixed [OF run] Some show ?thesis
      by (simp add: routeTelemetryDue_def Let_def run)
  qed
qed

lemma routeTelemetryInactive_facade:
  "sh_scheduler (routeTelemetryInactive (facadeRoutes E) sh) = sh_scheduler sh \<and>
   fm_estop_handler (sh_context (routeTelemetryInactive (facadeRoutes E) sh)) =
     fm_estop_handler (sh_context sh) \<and>
   identity_of (sh_context (routeTelemetryInactive (facadeRoutes E) sh)) = identity_of (sh_context sh) \<and>
   facade_config (sh_context (routeTelemetryInactive (facadeRoutes E) sh)) = facade_config (sh_context sh)"
  by (simp add: routeTelemetryInactive_def facadeRoutes_def routeTelemetryInactive_server_def Let_def
      onSessionInactive_def split: option.split)

text \<open>What an outcome does to the shared state: it is the e-stop handler that hears of it.\<close>

lemma routeOutcome_facade:
  assumes "onOutboundOutcome oc (fm_estop_handler (sh_context sh), sh_scheduler sh) = (h, s)"
  shows "\<exists>c. routeOutcome (facadeRoutes E) oc sh =
     sh\<lparr>sh_context := (sh_context sh)\<lparr>fm_estop_handler := h\<rparr>, sh_counters := c, sh_scheduler := s\<rparr>"
proof -
  have "\<exists>c. routeOutcome (facadeRoutes E) oc sh = routeOutboundOutcome oc (sh\<lparr>sh_counters := c\<rparr>)"
    by (auto simp: routeOutcome_def facadeRoutes_def count_def Let_def intro: exI [of _ "sh_counters sh"])
  then obtain c where "routeOutcome (facadeRoutes E) oc sh = routeOutboundOutcome oc (sh\<lparr>sh_counters := c\<rparr>)" ..
  with assms show ?thesis by (intro exI [of _ c]) (simp add: routeOutboundOutcome_def Let_def)
qed

lemma routeOutcome_fold_facade:
  assumes "fold onOutboundOutcome batch (fm_estop_handler (sh_context sh), sh_scheduler sh) = (h, s)"
  shows "\<exists>c. fold (routeOutcome (facadeRoutes E)) batch sh =
     sh\<lparr>sh_context := (sh_context sh)\<lparr>fm_estop_handler := h\<rparr>, sh_counters := c, sh_scheduler := s\<rparr>"
  using assms
proof (induction batch arbitrary: sh)
  case Nil
  then show ?case by (intro exI [of _ "sh_counters sh"]) simp
next
  case (Cons oc batch)
  obtain h1 s1 where step: "onOutboundOutcome oc (fm_estop_handler (sh_context sh), sh_scheduler sh) = (h1, s1)"
    by (cases "onOutboundOutcome oc (fm_estop_handler (sh_context sh), sh_scheduler sh)")
  from routeOutcome_facade [OF this, of E] obtain c where
    c: "routeOutcome (facadeRoutes E) oc sh = sh\<lparr>sh_context := (sh_context sh)\<lparr>fm_estop_handler := h1\<rparr>,
      sh_counters := c, sh_scheduler := s1\<rparr>" by blast
  from Cons.IH [of "routeOutcome (facadeRoutes E) oc sh"] Cons.prems step c show ?case by simp
qed

interpretation fr: loop_routes "facadeRoutes E" "facade_good cfg board" 
  for E :: "'w env" and cfg and board
proof unfold_locales
  note set = facadeRoutes_def no_routes_def
  show "facade_good cfg board m s \<Longrightarrow> scheduler_ok s" for m s
    by (simp add: facade_good_def estop_linked_def)
  show "keeps (facade_good cfg board) (routeTelemetryInactive (facadeRoutes E))"
    by (simp add: keeps_def sh_inv_def facade_good_def routeTelemetryInactive_facade)
  show "sh_queue (routeTelemetryInactive (facadeRoutes E) sh) = sh_queue sh" for sh :: "'w facade_shared"
    by (simp add: routeTelemetryInactive_facade)
  show "sh_queue (routeOutcome (facadeRoutes E) oc sh) = sh_queue sh" for oc and sh :: "'w facade_shared"
  proof -
    obtain h s where o: "onOutboundOutcome oc (fm_estop_handler (sh_context sh), sh_scheduler sh) = (h, s)"
      by (cases "onOutboundOutcome oc (fm_estop_handler (sh_context sh), sh_scheduler sh)")
    then have "queue_of s = sh_queue sh"
      by (auto simp: onOutboundOutcome_def queue_of_def markEstopTriggeredPending_def split: if_splits)
    with routeOutcome_facade [OF o, of E] show ?thesis by auto
  qed
  show "sh_inv (facade_good cfg board) (routeOutcome (facadeRoutes E) oc sh)"
    if "facade_good cfg board m s" "drainOne send s (ss :: 'w session) = Some (Some oc, s', ss')"
      "sh_context sh = m" "sh_scheduler sh = s'" for m s send ss oc s' ss' and sh :: "'w facade_shared"
  proof -
    obtain h q where o: "onOutboundOutcome oc (fm_estop_handler m, s') = (h, q)"
      by (cases "onOutboundOutcome oc (fm_estop_handler m, s')")
    have "estop_linked board (fm_estop_handler m, s)" using that(1) by (simp add: facade_good_def)
    from linked_drain [OF that(2) this o] routeOutcome_facade [of oc sh h q E] o that
    show ?thesis by (auto simp: sh_inv_def facade_good_def)
  qed
  show "sh_inv (facade_good cfg board) (fold (routeOutcome (facadeRoutes E)) batch sh)"
    if "facade_good cfg board m s" "clearForSessionEnd s = (batch, s')"
      "sh_context sh = m" "sh_scheduler sh = s'" for m s batch s' and sh :: "'w facade_shared"
  proof -
    obtain h q where o: "fold onOutboundOutcome batch (fm_estop_handler m, s') = (h, q)"
      by (cases "fold onOutboundOutcome batch (fm_estop_handler m, s')")
    have "estop_linked board (fm_estop_handler m, s)" using that(1) by (simp add: facade_good_def)
    from linked_end [OF that(2) this o] routeOutcome_fold_facade [of batch sh h q E] o that
    show ?thesis by (auto simp: sh_inv_def facade_good_def)
  qed
qed (auto simp: facadeRoutes_def no_routes_def routeCommand_keeps routeEstop_keeps routeHeartbeat_keeps
    routeSafetyDue_keeps routeTelemetryDue_keeps)

section \<open>Everything a program can do with a server\<close>

datatype facade_call =
    Call_setIdentity board_identity
  | Call_setNetworkConfig network_config
  | Call_registerCommand command_spec "command_handler option"
  | Call_registerTelemetrySchema "(c_string \<times> value_type) list option" nat
  | Call_registerStateSchema "(c_string \<times> value_type) list option" nat
  | Call_setTelemetryProvider "nat option"
  | Call_setEstopHook "nat option"
  | Call_setControllerLossHook "nat option"
  | Call_enableCountersDiagnosticCommand

fun configure :: "facade_call \<Rightarrow> config_call" where
  "configure (Call_setIdentity i) = setIdentity_server i"
| "configure (Call_setNetworkConfig n) = setNetworkConfig n"
| "configure (Call_registerCommand spec h) = registerCommand_server spec h"
| "configure (Call_registerTelemetrySchema fs n) = registerTelemetrySchema fs n"
| "configure (Call_registerStateSchema fs n) = registerStateSchema fs n"
| "configure (Call_setTelemetryProvider p) = setTelemetryProvider_server p"
| "configure (Call_setEstopHook h) = setEstopHook_server h"
| "configure (Call_setControllerLossHook h) = setControllerLossHook_server h"
| "configure Call_enableCountersDiagnosticCommand = enableCountersDiagnosticCommand"

definition on_members ::
    "(facade_members \<Rightarrow> facade_members) \<Rightarrow> 'w teensy_command_server \<Rightarrow> 'w teensy_command_server" where
  "on_members f sv =
     sv\<lparr>tc_shared := (tc_shared sv)\<lparr>sh_context := f (sh_context (tc_shared sv))\<rparr>\<rparr>"

text \<open>Between two calls the world may change in any way.\<close>

inductive server_reaches :: "'w env \<Rightarrow> json_library \<Rightarrow> 'w teensy_command_server \<Rightarrow> bool" for E lib where
  sr_new: "server_reaches E lib (new_server attached w)"
| sr_configure: "server_reaches E lib sv \<Longrightarrow> server_reaches E lib (on_members (\<lambda>m. snd (configure call m)) sv)"
| sr_request: "server_reaches E lib sv \<Longrightarrow>
     server_reaches E lib (snd (requestEstopTriggered_server E reason sv))"
| sr_start: "server_reaches E lib sv \<Longrightarrow> server_reaches E lib (snd (start E sv))"
| sr_service: "server_reaches E lib sv \<Longrightarrow> service_server E lib sv = Some sv' \<Longrightarrow> server_reaches E lib sv'"
| sr_world: "server_reaches E lib sv \<Longrightarrow>
     server_reaches E lib (sv\<lparr>tc_shared := (tc_shared sv)\<lparr>sh_world := w\<rparr>\<rparr>)"

definition board_of :: "facade_members \<Rightarrow> bytes" where
  "board_of m = si_board_id (cr_identity (fm_registry m))"

definition loop_state_of :: "'w teensy_command_server \<Rightarrow> session_driver \<Rightarrow> (facade_members, 'w) loop_state" where
  "loop_state_of sv d = \<lparr>ls_driver = d, ls_parser = tc_parser sv, ls_shared = tc_shared sv\<rparr>"

text \<open>
  The members by themselves, the server before its session driver exists, and with it. A board's
  own e-stop event may be pending before the start, but nothing is queued.
\<close>

definition members_ok :: "facade_members \<Rightarrow> bool" where
  "members_ok m \<longleftrightarrow>
     registry_ok (fm_registry m) \<and>
     (fm_identity_bound m \<longleftrightarrow> cr_identity_set (fm_registry m)) \<and>
     (fm_started m \<longleftrightarrow> cr_lifecycle (fm_registry m) = Sealed) \<and>
     (fm_started m \<longrightarrow> fm_identity_bound m \<and> fm_network_config_set m \<and> cr_telemetry_provider (fm_registry m) \<noteq> None \<and>
        cr_estop_hook (fm_registry m) \<noteq> None \<and> cr_controller_loss_hook (fm_registry m) \<noteq> None)"

definition server_ok :: "'w teensy_command_server \<Rightarrow> bool" where
  "server_ok sv \<longleftrightarrow>
     (let m = sh_context (tc_shared sv); s = sh_scheduler (tc_shared sv) in
      members_ok m \<and>
      (case tc_session_driver sv of
         None \<Rightarrow> \<not> hasPending s \<and> (\<forall>board. estop_linked board (fm_estop_handler m, s))
       | Some d \<Rightarrow>
           fm_started m \<and> sd_registry d = fm_registry m \<and> sd_identity d = identity_of m \<and>
           loop_settled (facade_good (facade_config m) (board_of m)) d (loop_state_of sv d)))"

lemma register_fields_ok:
  assumes "\<And>f r. registry_ok r \<Longrightarrow> registry_ok (snd (register f r))" and "registry_ok r"
  shows "registry_ok (snd (register_fields register fs r))"
  using assms(2)
proof (induction fs arbitrary: r)
  case (Cons f fs)
  obtain st r1 where f: "register f r = (st, r1)" by (cases "register f r")
  with assms(1) [OF Cons.prems, of f] Cons.IH [of r1] show ?case by simp
qed simp

text \<open>What a registration leaves alone.\<close>

definition same_setup :: "command_registry \<Rightarrow> command_registry \<Rightarrow> bool" where
  "same_setup r r' \<longleftrightarrow>
     cr_lifecycle r' = cr_lifecycle r \<and> cr_identity_set r' = cr_identity_set r \<and>
     (cr_lifecycle r = Sealed \<longrightarrow> r' = r)"

lemma same_setup_refl [simp]: "same_setup r r"
  by (simp add: same_setup_def)

lemma registerField_sealed: "registerField f stored n Sealed = (sealed_status, stored)"
  by (simp add: registerField_def)

lemma same_setup_calls:
  "same_setup r (snd (registerCommand reg r))"
  "same_setup r (snd (registerTelemetryField f r))"
  "same_setup r (snd (registerStateField f r))"
  "same_setup r (snd (setTelemetryProvider p r))"
  "same_setup r (snd (setEstopHook h r))"
  "same_setup r (snd (setControllerLossHook h r))"
proof -
  show "same_setup r (snd (registerCommand reg r))"
    by (auto simp: same_setup_def registerCommand_def Let_def split: option.split sum.split)
qed (auto simp: same_setup_def registerTelemetryField_def registerStateField_def registerField_sealed
    setTelemetryProvider_def setEstopHook_def setControllerLossHook_def split: prod.split)

lemma same_setup_fields:
  assumes "\<And>f r. same_setup r (snd (register f r))"
  shows "same_setup r (snd (register_fields register fs r))"
proof (induction fs arbitrary: r)
  case (Cons f fs)
  obtain st r1 where f: "register f r = (st, r1)" by (cases "register f r")
  with assms [of r f] Cons.IH [of r1] show ?case by (auto simp: same_setup_def)
qed (simp add: same_setup_def)

lemma configure_registry:
  assumes "\<not> (\<exists>i. call = Call_setIdentity i)" and "\<not> (\<exists>n. call = Call_setNetworkConfig n)"
    and "registry_ok (fm_registry m)"
  shows "\<exists>r. snd (configure call m) = m\<lparr>fm_registry := r\<rparr> \<and> same_setup (fm_registry m) r \<and> registry_ok r"
proof -
  have on: "\<exists>r. snd (on_registry f m) = m\<lparr>fm_registry := r\<rparr> \<and> same_setup (fm_registry m) r \<and> registry_ok r"
    if "same_setup (fm_registry m) (snd (f (fm_registry m)))" "registry_ok (snd (f (fm_registry m)))" for f
    using that by (auto simp: on_registry_def split: prod.split)
  have same: "\<exists>r. m = m\<lparr>fm_registry := r\<rparr> \<and> same_setup (fm_registry m) r \<and> registry_ok r"
    using assms(3) by (intro exI [of _ "fm_registry m"]) (simp add: same_setup_def)
  have ok: "registry_ok r \<Longrightarrow> registry_ok (snd (registerTelemetryField f r))"
    "registry_ok r \<Longrightarrow> registry_ok (snd (registerStateField f r))"
    "registry_ok r \<Longrightarrow> registry_ok (snd (setTelemetryProvider p r))"
    "registry_ok r \<Longrightarrow> registry_ok (snd (setEstopHook p r))"
    "registry_ok r \<Longrightarrow> registry_ok (snd (setControllerLossHook p r))" for f r p
    using registry_step_ok [of r "Register_Telemetry_Field f"] registry_step_ok [of r "Register_State_Field f"]
      registry_step_ok [of r "Set_Telemetry_Provider p"] registry_step_ok [of r "Set_Estop_Hook p"]
      registry_step_ok [of r "Set_Controller_Loss_Hook p"]
    by simp_all
  show ?thesis
    using assms same
    by (cases call)
      (auto intro!: on simp: registerCommand_server_def registerTelemetrySchema_def registerStateSchema_def
        setTelemetryProvider_server_def setEstopHook_server_def setControllerLossHook_server_def
        enableCountersDiagnosticCommand_def registerDiagnostics_def same_setup_calls registerCommand_ok
        same_setup_fields register_fields_ok ok)
qed

lemma configure_started:
  assumes "members_ok m" and "fm_started m"
  shows "snd (configure call m) = m"
proof (cases "(\<exists>i. call = Call_setIdentity i) \<or> (\<exists>n. call = Call_setNetworkConfig n)")
  case True
  with assms show ?thesis
    by (auto simp: members_ok_def setIdentity_server_def setIdentity_def sealed_status_def status_ok_def
        setNetworkConfig_def)
next
  case False
  with configure_registry [of call m] assms show ?thesis
    by (auto simp: members_ok_def same_setup_def)
qed

lemma configure_ok:
  assumes "members_ok m" and "\<not> fm_started m"
  shows "members_ok (snd (configure call m)) \<and> \<not> fm_started (snd (configure call m)) \<and>
     fm_estop_handler (snd (configure call m)) = fm_estop_handler m"
proof -
  consider i where "call = Call_setIdentity i" | n where "call = Call_setNetworkConfig n"
    | "\<not> (\<exists>i. call = Call_setIdentity i)" "\<not> (\<exists>n. call = Call_setNetworkConfig n)" by blast
  then show ?thesis
  proof cases
    case 1
    obtain st r where f: "setIdentity i (fm_registry m) = (st, r)" by (cases "setIdentity i (fm_registry m)")
    have "registry_ok r"
      using setIdentity_ok [of "fm_registry m" i] f assms(1) by (simp add: members_ok_def)
    moreover have "cr_lifecycle r = cr_lifecycle (fm_registry m) \<and>
        cr_identity_set r = (status_ok st \<or> cr_identity_set (fm_registry m))"
      using f by (auto simp: setIdentity_def Let_def status_ok_def ok_status_def copyStatus_def sealed_status_def
          split: if_splits prod.splits)
    ultimately show ?thesis using assms f by (auto simp: 1 members_ok_def setIdentity_server_def Let_def)
  next
    case 2
    with assms show ?thesis by (auto simp: members_ok_def setNetworkConfig_def)
  next
    case 3
    with configure_registry [of call m] assms show ?thesis by (auto simp: members_ok_def same_setup_def)
  qed
qed

lemma facade_config_members:
  assumes "facade_config m' = facade_config m"
  shows "members_ok m' = members_ok m \<and> identity_of m' = identity_of m \<and> board_of m' = board_of m \<and>
     fm_started m' = fm_started m \<and> fm_registry m' = fm_registry m"
  using assms by (simp add: facade_config_def members_ok_def identity_of_def board_of_def)

lemma board_named_of:
  assumes "members_ok m" and "fm_identity_bound m"
  shows "board_named (identity_of m) (board_of m)"
  using assms
  by (simp add: members_ok_def registry_ok_def identity_bounded_def board_named_def identity_of_def
      registry_identity_def board_of_def)

lemma loop_settled_refl: "loop_settled good d0 st \<Longrightarrow> loop_settled good (ls_driver st) st"
  by (simp add: loop_settled_def loop_running_def)

lemma new_server_ok: "server_ok (new_server attached w)"
  by (simp add: server_ok_def new_server_def members_ok_def new_registry_ok hasPending_def
      new_estop_linked) (simp add: new_registry_def new_scheduler_def)

lemma configure_server_ok:
  assumes "server_ok sv"
  shows "server_ok (on_members (\<lambda>m. snd (configure call m)) sv)"
proof -
  let ?m = "sh_context (tc_shared sv)"
  have m: "members_ok ?m" using assms by (simp add: server_ok_def Let_def)
  show ?thesis
  proof (cases "fm_started ?m")
    case True
    then have "on_members (\<lambda>m. snd (configure call m)) sv = sv"
      by (simp add: on_members_def configure_started [OF m])
    with assms show ?thesis by simp
  next
    case False
    with assms configure_ok [OF m False, of call] show ?thesis
      by (auto simp: server_ok_def Let_def on_members_def split: option.splits)
  qed
qed

lemma request_server_ok:
  assumes "server_ok sv"
  shows "server_ok (snd (requestEstopTriggered_server E reason sv))"
proof -
  define m s where "m = sh_context (tc_shared sv)" and "s = sh_scheduler (tc_shared sv)"
  obtain st h s1 w where run: "requestEstopTriggered E (fm_clock m) reason
      (fm_estop_handler m, s, sh_world (tc_shared sv)) = (st, (h, s1, w))" by (metis surj_pair)
  have link: "estop_linked board (fm_estop_handler m, s) \<Longrightarrow> estop_linked board (h, s1)" for board
    using linked_request [OF run] by blast
  have "queue_of s1 = queue_of s"
    using run by (auto simp: requestEstopTriggered_def markEstopTriggeredPending_def queue_of_def Let_def
        split: if_splits prod.splits)
  then have queue: "hasPending s1 = hasPending s" by (simp add: hasPending_iff)
  have same: "members_ok (m\<lparr>fm_estop_handler := h\<rparr>) = members_ok m"
    "board_of (m\<lparr>fm_estop_handler := h\<rparr>) = board_of m"
    using facade_config_members [of "m\<lparr>fm_estop_handler := h\<rparr>" m] by simp_all
  have eq: "snd (requestEstopTriggered_server E reason sv) = sv\<lparr>tc_shared :=
      (tc_shared sv)\<lparr>sh_context := m\<lparr>fm_estop_handler := h\<rparr>, sh_scheduler := s1, sh_world := w\<rparr>\<rparr>"
    using run by (simp add: requestEstopTriggered_server_def Let_def m_def s_def)
  show ?thesis
    using assms link queue same
    by (auto simp: eq server_ok_def Let_def loop_settled_def loop_running_def loop_state_of_def
        teardownPending_def sh_inv_def facade_good_def m_def [symmetric] s_def [symmetric]
        split: option.splits)
qed

lemma start_cases:
  assumes "server_ok sv"
  shows "start E sv = (fst (start E sv), sv) \<and> \<not> status_ok (fst (start E sv)) \<or>
    (let m = sh_context (tc_shared sv);
         m1 = m\<lparr>fm_registry := (fm_registry m)\<lparr>cr_lifecycle := Sealed\<rparr>, fm_identity_bound := True,
                fm_started := True\<rparr>;
         sv1 = sv\<lparr>tc_shared := (tc_shared sv)\<lparr>sh_context := m1\<rparr>\<rparr>
     in \<not> fm_started m \<and> members_ok m1 \<and>
        start E sv = (ok_status, if fm_network m \<and> fm_clock m then start_session E sv1 else sv1))"
proof -
  let ?m = "sh_context (tc_shared sv)"
  have m: "members_ok ?m" using assms by (simp add: server_ok_def Let_def)
  have lc: "cr_lifecycle (fm_registry ?m) \<noteq> Sealed \<longleftrightarrow> cr_lifecycle (fm_registry ?m) = Mutable"
    by (cases "cr_lifecycle (fm_registry ?m)") simp_all
  show ?thesis
    using m lc
    by (auto simp: start_def Let_def commitSeal_def sealed_status_def status_ok_def ok_status_def
        members_ok_def validateMetadataForSeal_def split: if_splits)
qed

lemma start_session_ok:
  assumes "members_ok (sh_context (tc_shared sv))" and "fm_started (sh_context (tc_shared sv))"
    and "\<not> hasPending (sh_scheduler (tc_shared sv))"
    and "\<forall>board. estop_linked board (fm_estop_handler (sh_context (tc_shared sv)), sh_scheduler (tc_shared sv))"
  shows "server_ok (start_session E sv)"
proof -
  define m where "m = sh_context (tc_shared sv)"
  define r where "r = fm_registry m"
  define d where "d = new_session_driver r (identity_of m) (cr_controller_loss_hook r)
      (nc_listen_port (fm_network_config m))"
  define t where "t = new_telemetry_scheduler (identity_of m) (cr_telemetry_provider r)"
  define m1 where "m1 = m\<lparr>fm_telemetry_scheduler := Some t\<rparr>"
  obtain d1 c w where b: "driver_begin E (d, sh_counters (tc_shared sv), sh_world (tc_shared sv)) = (d1, c, w)"
    by (metis surj_pair)
  note ok = driver_begin_ok [of d E "sh_counters (tc_shared sv)" "sh_world (tc_shared sv)", unfolded b fst_conv]
  have d1: "driver_ok d1" "same_config d d1" "\<not> sd_teardown_pending d1"
    using ok new_session_driver_ok [of r "identity_of m" "cr_controller_loss_hook r"] b
    by (auto simp: d_def driver_begin_def new_session_driver_def transitionTo_def split: prod.splits)
  have eq: "start_session E sv = sv\<lparr>tc_shared := (tc_shared sv)\<lparr>sh_context := m1, sh_counters := c, sh_world := w\<rparr>,
      tc_session_driver := Some d1\<rparr>"
    by (simp add: start_session_eq Let_def m_def [symmetric] r_def [symmetric] d_def [symmetric]
        t_def [symmetric] m1_def [symmetric] b)
  have mm: "members_ok m1 = members_ok m" "identity_of m1 = identity_of m" "board_of m1 = board_of m"
    "fm_started m1 = fm_started m" "fm_registry m1 = fm_registry m"
    by (simp_all add: m1_def members_ok_def board_of_def)
  have "fm_identity_bound m" using assms(1,2) unfolding members_ok_def m_def by blast
  from board_named_of [OF assms(1) [folded m_def] this] have
    "facade_good (facade_config m1) (board_of m1) m1 (sh_scheduler (tc_shared sv))"
    using assms(4) mm by (simp add: facade_good_def m_def m1_def)
  with assms(1-3) d1 mm show ?thesis
    by (simp add: eq server_ok_def Let_def loop_settled_def loop_running_def loop_state_of_def
        teardownPending_def sh_inv_def m_def [symmetric] same_config_def d_def new_session_driver_def r_def)
qed

lemma start_server_ok:
  assumes "server_ok sv"
  shows "server_ok (snd (start E sv))"
  using start_cases [OF assms, of E]
proof (elim disjE conjE)
  assume "start E sv = (fst (start E sv), sv)"
  then have "snd (start E sv) = sv" by (metis snd_conv)
  with assms show ?thesis by simp
next
  define m where "m = sh_context (tc_shared sv)"
  define m1 where "m1 = m\<lparr>fm_registry := (fm_registry m)\<lparr>cr_lifecycle := Sealed\<rparr>, fm_identity_bound := True,
      fm_started := True\<rparr>"
  define sv1 where "sv1 = sv\<lparr>tc_shared := (tc_shared sv)\<lparr>sh_context := m1\<rparr>\<rparr>"
  assume "let m = sh_context (tc_shared sv);
         m1 = m\<lparr>fm_registry := (fm_registry m)\<lparr>cr_lifecycle := Sealed\<rparr>, fm_identity_bound := True,
                fm_started := True\<rparr>;
         sv1 = sv\<lparr>tc_shared := (tc_shared sv)\<lparr>sh_context := m1\<rparr>\<rparr>
     in \<not> fm_started m \<and> members_ok m1 \<and>
        start E sv = (ok_status, if fm_network m \<and> fm_clock m then start_session E sv1 else sv1)"
  then have s: "\<not> fm_started m" "members_ok m1"
    "start E sv = (ok_status, if fm_network m \<and> fm_clock m then start_session E sv1 else sv1)"
    by (simp_all add: Let_def m_def m1_def sv1_def)
  have none: "tc_session_driver sv = None" "\<not> hasPending (sh_scheduler (tc_shared sv))"
    "\<forall>board. estop_linked board (fm_estop_handler m1, sh_scheduler (tc_shared sv))"
    using assms s(1) by (auto simp: server_ok_def Let_def m_def m1_def split: option.splits)
  have "server_ok sv1" using none s(2) by (simp add: server_ok_def Let_def sv1_def)
  moreover have "server_ok (start_session E sv1)"
    by (rule start_session_ok) (use none s(2) in \<open>simp_all add: sv1_def\<close>, simp add: m1_def)
  ultimately show ?thesis by (simp add: s(3))
qed

lemma service_server_keeps:
  assumes "service_server E lib sv = Some sv'" and "server_ok sv"
  shows "server_ok sv' \<and> facade_config (sh_context (tc_shared sv')) = facade_config (sh_context (tc_shared sv))"
proof (cases "tc_session_driver sv")
  case None
  with assms show ?thesis by (simp add: service_server_def)
next
  case (Some d)
  define m where "m = sh_context (tc_shared sv)"
  note ok = assms(2) [unfolded server_ok_def Let_def Some option.case, folded m_def]
  then obtain st where run: "service E lib (service_loop_of E m) (loop_state_of sv d) = Some st"
    and sv': "sv' = sv\<lparr>tc_shared := ls_shared st, tc_parser := ls_parser st,
        tc_session_driver := Some (ls_driver st)\<rparr>"
    using assms(1) Some by (auto simp: service_server_def Let_def loop_state_of_def m_def)
  have settled: "loop_settled (facade_good (facade_config m) (board_of m)) d st"
    by (rule fr.service_settles [OF run]) (use ok in \<open>simp_all add: service_loop_of_def\<close>)
  define m' where "m' = sh_context (ls_shared st)"
  have cfg: "facade_config m' = facade_config m" and same: "same_config d (ls_driver st)"
    using settled by (simp_all add: loop_settled_def loop_running_def sh_inv_def facade_good_def m'_def)
  have st: "loop_state_of sv' (ls_driver st) = st" by (simp add: loop_state_of_def sv')
  note mm = facade_config_members [OF cfg]
  have drv: "tc_session_driver sv' = Some (ls_driver st)" "sh_context (tc_shared sv') = m'"
    by (simp_all add: sv' m'_def)
  have "server_ok sv'"
    unfolding server_ok_def Let_def drv option.case st cfg
    using ok loop_settled_refl [OF settled] mm same by (simp add: same_config_def)
  then show ?thesis using cfg by (simp add: drv(2) m_def)
qed

lemmas service_server_ok = service_server_keeps [THEN conjunct1]

lemma server_reaches_ok: "server_reaches E lib sv \<Longrightarrow> server_ok sv"
proof (induction rule: server_reaches.induct)
  case (sr_world sv w)
  then show ?case
    by (auto simp: server_ok_def Let_def loop_settled_def loop_running_def loop_state_of_def
        teardownPending_def split: option.splits)
qed (auto intro: new_server_ok configure_server_ok request_server_ok start_server_ok service_server_ok)

section \<open>From a line to its answer\<close>

lemma parse_root:
  assumes "document_root deserialize (Some data) = Some root" and "getString (member kType root) = Some type"
  shows "parse deserialize (Some data) (c, p0) =
    (let p = (invalidate p0)\<lparr>ip_payload := Some data\<rparr> in
     if strcmp_eq type ''command'' then parseCommand root new_outcome (c, p)
     else if strcmp_eq type ''estop'' then parseEstop root new_outcome (c, p)
     else if strcmp_eq type ''heartbeat'' then parseHeartbeat root new_outcome (c, p)
     else (new_outcome\<lparr>po_kind := UnsupportedType\<rparr>, (increment invalid_json_update c, p)))"
  using assms
  by (auto simp: parse_def document_root_def Let_def Option.bind_eq_Some_conv
      split: if_splits elim!: getObject.elims)

lemma parse_message_of:
  assumes "document_root deserialize (Some data) = Some root" and "getString (member kType root) = Some type"
    and "parse deserialize (Some data) cp = (outcome, cp')"
  shows "strcmp_eq type ''command'' \<Longrightarrow> po_message_kind outcome = Command_Message"
    and "strcmp_eq type ''estop'' \<Longrightarrow> po_message_kind outcome = Estop_Message"
    and "strcmp_eq type ''heartbeat'' \<Longrightarrow> po_message_kind outcome = Heartbeat_Message"
proof -
  obtain c p where cp: "cp = (c, p)" by (cases cp)
  note run = assms(3) [unfolded cp parse_root [OF assms(1,2)] Let_def]
  show "strcmp_eq type ''command'' \<Longrightarrow> po_message_kind outcome = Command_Message"
    using run parse_message_kinds(1) by (metis fst_conv)
  show "strcmp_eq type ''estop'' \<Longrightarrow> po_message_kind outcome = Estop_Message"
    using run parse_message_kinds(2) [of root new_outcome "(c, (invalidate p)\<lparr>ip_payload := Some data\<rparr>)"]
    by (simp add: strcmp_eq_def)
  show "strcmp_eq type ''heartbeat'' \<Longrightarrow> po_message_kind outcome = Heartbeat_Message"
    using run parse_message_kinds(3) [of root new_outcome "(c, (invalidate p)\<lparr>ip_payload := Some data\<rparr>)"]
    by (simp add: strcmp_eq_def)
qed

lemma getFiniteDouble_finite: "getFiniteDouble v = Some d \<Longrightarrow> f64_finite d"
  by (auto simp: getFiniteDouble_def isFinite_def split: option.splits if_splits)

text \<open>A valid line of the controller for this board: the parser accepts it and the route is taken.\<close>

definition valid_line ::
    "json_library \<Rightarrow> board_identity \<Rightarrow> bytes \<Rightarrow> bytes \<Rightarrow> (bytes \<times> json) list \<Rightarrow> bool" where
  "valid_line lib identity type data root \<longleftrightarrow>
     (\<exists>source target t. line_addresses lib data root source target \<and> addressed identity source target \<and>
        getString (member kType root) = Some t \<and> cstr t = type) \<and>
     line_kind (deserialize_in_place lib) (Some data) = Valid"

lemma processLine_valid:
  assumes "valid_line lib (sl_identity L) type data root"
  obtains outcome p us st1 where
    "parse (deserialize_in_place lib) (Some data) (sh_counters (ls_shared st), ls_parser st) =
       (outcome, (sh_counters (ls_shared st), p))"
    "po_kind outcome = Valid"
    "st1 = st\<lparr>ls_parser := p, ls_shared := (ls_shared st)\<lparr>sh_world :=
       snd (clock_us E (sl_clock L) (sh_world (ls_shared st)))\<rparr>\<rparr>"
    "validControllerTarget_gate (sl_identity L) (extractSourceTarget lib (Some data))"
    "processLine E lib L (Some data) st =
       routeValid L outcome (extractSourceTarget lib (Some data)) us st1"
proof -
  let ?d = "deserialize_in_place lib"
  obtain outcome c p where parse: "parse ?d (Some data) (sh_counters (ls_shared st), ls_parser st) =
      (outcome, (c, p))" by (metis surj_pair)
  obtain us w where clk: "clock_us E (sl_clock L) (sh_world (ls_shared st)) = (us, w)"
    by (cases "clock_us E (sl_clock L) (sh_world (ls_shared st))")
  have kind: "po_kind outcome = Valid"
    using parse_kind [of ?d "Some data" "(sh_counters (ls_shared st), ls_parser st)"] parse assms
    by (simp add: valid_line_def)
  have c: "c = sh_counters (ls_shared st)"
    using parse_counter [of ?d "Some data" "sh_counters (ls_shared st)" "ls_parser st"] parse assms
    by (simp add: unanswerable_def valid_line_def)
  define st1 where "st1 = st\<lparr>ls_parser := p, ls_shared := (ls_shared st)\<lparr>sh_world := w\<rparr>\<rparr>"
  have "validControllerTarget_gate (sl_identity L) (extractSourceTarget lib (Some data))"
    using gate_of_line(2) assms by (auto simp: valid_line_def)
  moreover have "processLine E lib L (Some data) st =
      routeValid L outcome (extractSourceTarget lib (Some data)) us st1"
    using processLine_parse [OF parse clk] kind by (simp add: c Let_def st1_def)
  moreover have "w = snd (clock_us E (sl_clock L) (sh_world (ls_shared st)))" by (simp add: clk)
  ultimately show ?thesis using that parse kind c st1_def by blast
qed

lemma service_loop_of_simps [simp]:
  "sl_identity (service_loop_of E m) = identity_of m" "sl_clock (service_loop_of E m) = fm_clock m"
  "sl_routes (service_loop_of E m) = facadeRoutes E"
  by (simp_all add: service_loop_of_def)

text \<open>How a valid command line reaches the dispatcher, and what comes of it.\<close>

text \<open>A valid line of the facade, from the parser to its route, with the fields the handlers look at.\<close>

lemma facade_line_routed:
  assumes "valid_line lib (identity_of m) type data root"
  obtains outcome p us t source target where
    "parse (deserialize_in_place lib) (Some data) (sh_counters (ls_shared st), ls_parser st) =
       (outcome, (sh_counters (ls_shared st), p))"
    "po_kind outcome = Valid"
    "validControllerTarget_gate (identity_of m) (extractSourceTarget lib (Some data))"
    "processLine E lib (service_loop_of E m) (Some data) st =
       routeValid (service_loop_of E m) outcome (extractSourceTarget lib (Some data)) us
         (st\<lparr>ls_parser := p, ls_shared := (ls_shared st)\<lparr>sh_world :=
            snd (clock_us E (fm_clock m) (sh_world (ls_shared st)))\<rparr>\<rparr>)"
    "document_root (deserialize_in_place lib) (Some data) = Some root"
    "getString (member kType root) = Some t" "cstr t = type"
    "getString (member kSource root) = Some source" "getString (member kTarget root) = Some target"
    "validControllerTarget (identity_of m) (Some source) (Some target)"
proof -
  let ?L = "service_loop_of E m"
  have v: "valid_line lib (sl_identity ?L) type data root" using assms by simp
  obtain outcome p us st1 where line:
    "parse (deserialize_in_place lib) (Some data) (sh_counters (ls_shared st), ls_parser st) =
       (outcome, (sh_counters (ls_shared st), p))" "po_kind outcome = Valid"
    "st1 = st\<lparr>ls_parser := p, ls_shared := (ls_shared st)\<lparr>sh_world :=
       snd (clock_us E (sl_clock ?L) (sh_world (ls_shared st)))\<rparr>\<rparr>"
    "validControllerTarget_gate (sl_identity ?L) (extractSourceTarget lib (Some data))"
    "processLine E lib ?L (Some data) st = routeValid ?L outcome (extractSourceTarget lib (Some data)) us st1"
    by (rule processLine_valid [OF v])
  from assms obtain t source target where
    "document_root (deserialize_in_place lib) (Some data) = Some root"
    "getString (member kType root) = Some t" "cstr t = type"
    "getString (member kSource root) = Some source" "getString (member kTarget root) = Some target"
    "validControllerTarget (identity_of m) (Some source) (Some target)"
    by (auto simp: valid_line_def line_addresses_def validControllerTarget_addressed)
  with line show thesis by (intro that [of outcome p us t source target]) simp_all
qed

lemma command_line_dispatches:
  assumes "valid_line lib (identity_of m) ''command'' data root" and "fm_clock m"
    and "sh_context (ls_shared st) = m"
  obtains command ms us p td d' c' s' w' where
    "getSeq (member kSeq root) = Some (pc_seq command)"
    "getFiniteDouble (member kControllerTs root) = Some (pc_controller_ts command)"
    "getString (member kCommand root) = pc_command command"
    "getObject (member kArgs root) = Some ms"
    "dispatch E (fm_registry m) command (Some \<lparr>ab_args = Some ms, ab_active = True\<rparr>) us
       (new_dispatcher (identity_of m), sh_counters (ls_shared st), sh_scheduler (ls_shared st),
        snd (clock_us E (fm_clock m) (sh_world (ls_shared st)))) = (td, (d', c', s', w'))"
    "processLine E lib (service_loop_of E m) (Some data) st = teardown_if td
       (st\<lparr>ls_parser := p, ls_shared := (ls_shared st)
          \<lparr>sh_counters := c', sh_scheduler := s', sh_world := w'\<rparr>\<rparr>)"
proof -
  let ?L = "service_loop_of E m"
  define w where "w = snd (clock_us E (fm_clock m) (sh_world (ls_shared st)))"
  obtain outcome p us t source target where
    parse: "parse (deserialize_in_place lib) (Some data) (sh_counters (ls_shared st), ls_parser st) =
      (outcome, (sh_counters (ls_shared st), p))" and kind: "po_kind outcome = Valid"
    and gate: "validControllerTarget_gate (identity_of m) (extractSourceTarget lib (Some data))"
    and run: "processLine E lib ?L (Some data) st =
       routeValid ?L outcome (extractSourceTarget lib (Some data)) us
         (st\<lparr>ls_parser := p, ls_shared := (ls_shared st)\<lparr>sh_world := w\<rparr>\<rparr>)"
    and root: "document_root (deserialize_in_place lib) (Some data) = Some root"
      "getString (member kType root) = Some t" "cstr t = ''command''"
    and addr: "getString (member kSource root) = Some source" "getString (member kTarget root) = Some target"
      "validControllerTarget (identity_of m) (Some source) (Some target)"
    by (rule facade_line_routed [OF assms(1), of st E]) (simp add: w_def)
  have msg: "po_message_kind outcome = Command_Message"
    by (rule parse_message_of(1) [OF root(1,2) parse]) (simp add: strcmp_eq_def root(3))
  define st1 where "st1 = st\<lparr>ls_parser := p, ls_shared := (ls_shared st)\<lparr>sh_world := w\<rparr>\<rparr>"
  let ?cmd = "po_command outcome"
  from parse_command_valid [OF parse kind msg] root(1) obtain ms where carried:
    "getSeq (member kSeq root) = Some (pc_seq ?cmd)"
    "getFiniteDouble (member kControllerTs root) = Some (pc_controller_ts ?cmd)"
    "getString (member kCommand root) = pc_command ?cmd" "getObject (member kArgs root) = Some ms"
    "command_args_of p ?cmd = Some \<lparr>ab_args = Some ms, ab_active = True\<rparr>" by auto
  have sh1: "sh_context (ls_shared st1) = m" "sh_counters (ls_shared st1) = sh_counters (ls_shared st)"
    "sh_scheduler (ls_shared st1) = sh_scheduler (ls_shared st)" "ls_driver st1 = ls_driver st"
    "sh_world (ls_shared st1) = w" "ls_parser st1 = p" using assms(3) by (simp_all add: st1_def)
  obtain td d' c' s' w' where disp: "dispatch E (fm_registry m) ?cmd
      (Some \<lparr>ab_args = Some ms, ab_active = True\<rparr>) us (new_dispatcher (identity_of m),
       sh_counters (ls_shared st), sh_scheduler (ls_shared st), w) = (td, (d', c', s', w'))" by (metis surj_pair)
  have "processLine E lib ?L (Some data) st = teardown_if td
      (st1\<lparr>ls_shared := (ls_shared st1)\<lparr>sh_counters := c', sh_scheduler := s', sh_world := w'\<rparr>\<rparr>)"
    using run [folded st1_def] assms(2) msg gate disp
    by (simp add: routeValid_def Let_def facadeRoutes_def no_routes_def call_with_result_def
        routeCommand_def sh1 carried(5))
  then show thesis using that [OF carried(1-4) disp [unfolded w_def], of p] by (simp add: st1_def)
qed

section \<open>Properties\<close>



text \<open>
  C2: a valid command from the controller is answered. The turn that processes it appends exactly
  one response line to the queue, with the command's own sequence number and timestamp, and the
  session goes on; only when the queue is full is nothing queued, and then the session is torn
  down.
\<close>

theorem command_line_answered:
  assumes "valid_line lib (identity_of m) ''command'' data root"
    and "lawful_board E" and "board_named (identity_of m) board" and "fm_clock m"
    and "sh_context (ls_shared st) = m"
    and "processLine E lib (service_loop_of E m) (Some data) st = st'"
  shows "\<exists>command. getSeq (member kSeq root) = Some (pc_seq command) \<and>
     getFiniteDouble (member kControllerTs root) = Some (pc_controller_ts command) \<and>
     getString (member kCommand root) = pc_command command \<and>
     commands_received (sh_counters (ls_shared st')) = commands_received (sh_counters (ls_shared st)) + 1 \<and>
     (if has_room (sh_scheduler (ls_shared st))
      then ls_driver st' = ls_driver st \<and>
        (\<exists>line. held_lines (sh_scheduler (ls_shared st')) =
             held_lines (sh_scheduler (ls_shared st)) @ [(CommandResponse, line)] \<and>
           (answered_ok board command (sh_counters (ls_shared st)) (sh_counters (ls_shared st')) line \<or>
            answered_error board command (sh_counters (ls_shared st)) (sh_counters (ls_shared st')) line))
      else sh_scheduler (ls_shared st') = sh_scheduler (ls_shared st) \<and>
        ls_driver st' = requestTeardown CriticalTransmitFailure (ls_driver st))"
  by (rule command_line_dispatches [OF assms(1,4,5), of E])
     (use dispatch_answer [OF assms(2), of "new_dispatcher (identity_of m)" board] getFiniteDouble_finite assms(3,6)
       in \<open>fastforce simp: new_dispatcher_def teardown_if_def split: if_splits\<close>)

text \<open>A server that knows its board as \<open>b\<close>, and a session it serves.\<close>

definition sample_members :: facade_members where
  "sample_members =
     (sh_context (tc_shared (new_server True ())))
       \<lparr>fm_registry := new_registry\<lparr>cr_identity :=
            \<lparr>si_board_id = ''b'', si_protocol_version = ''1'', si_firmware_version = ''2''\<rparr>,
          cr_identity_set := True, cr_estop_hook := Some 0\<rparr>,
        fm_identity_bound := True\<rparr>"

definition sample_turn :: "(facade_members, nat \<times> bytes) loop_state" where
  "sample_turn =
     \<lparr>ls_driver = new_session_driver new_registry (identity_of sample_members) None 80,
      ls_parser = new_parser,
      ls_shared = \<lparr>sh_context = sample_members, sh_counters = zero_counters,
        sh_scheduler = new_scheduler, sh_world = (3, [])\<rparr>\<rparr>"

lemma sample_members_named: "board_named (identity_of sample_members) ''b''" "fm_clock sample_members"
  by (simp_all add: sample_members_def new_server_def identity_of_def registry_identity_def board_named_def
      limits)

lemma sample_valid_line: "\<exists>root. valid_line sample_library (identity_of sample_members) ''command'' ''x'' root"
proof -
  obtain root where a: "line_addresses sample_library ''x'' root ''controller'' ''b''"
    using sample_addresses by blast
  then have "root = [(kType, JString ''command''), (kSeq, JUnsigned 7), (kControllerTs, JUnsigned 1),
       (kSource, JString ''controller''), (kTarget, JString ''b''), (kCommand, JString ''go''),
       (kArgs, JObject [])]"
    by (simp add: line_addresses_def sample_library_def sample_document_def)
  then have "getString (member kType root) = Some ''command''"
    by (simp add: member_def find_member_def strcmp_eq_def)
  moreover have "addressed (identity_of sample_members) ''controller'' ''b''"
    by (simp add: addressed_def sample_members_def new_server_def identity_of_def registry_identity_def
        strcmp_eq_def)
  moreover have "line_kind (deserialize_in_place sample_library) (Some ''x'') = Valid"
    using sample_command parse_kind [of sample_document "Some ''x''" "(zero_counters, new_parser)"]
    by (auto simp: sample_library_def)
  moreover have "cstr ''command'' = ''command''" by (simp add: cstr_def)
  ultimately show ?thesis using a unfolding valid_line_def by blast
qed

lemma command_line_answered_witness:
  "\<exists>line. held_lines (sh_scheduler (ls_shared (processLine (sample_env 1) sample_library
      (service_loop_of (sample_env 1) sample_members) (Some ''x'') sample_turn))) = [(CommandResponse, line)]"
proof -
  obtain root where v: "valid_line sample_library (identity_of sample_members) ''command'' ''x'' root"
    using sample_valid_line by blast
  have c: "sh_context (ls_shared sample_turn) = sample_members"
    "has_room (sh_scheduler (ls_shared sample_turn))" "held_lines (sh_scheduler (ls_shared sample_turn)) = []"
    by (simp_all add: sample_turn_def new_scheduler_def has_room_def held_lines_def limits)
  from command_line_answered [OF v sample_env_lawful [of 1] sample_members_named c(1) refl] c(2,3)
  show ?thesis by auto
qed

text \<open>Down to the handler: what a valid e-stop line does is what \<open>handleEstop\<close> does.\<close>

lemma estop_line_handled:
  assumes "valid_line lib (identity_of m) ''estop'' data root"
    and "sh_context (ls_shared st) = m"
  obtains p td c' s' w' where
    "handleEstop E (identity_of m) (fm_clock m) (cr_estop_hook (fm_registry m))
       (sh_counters (ls_shared st), sh_scheduler (ls_shared st),
        snd (clock_us E (fm_clock m) (sh_world (ls_shared st)))) = (td, (c', s', w'))"
    "processLine E lib (service_loop_of E m) (Some data) st = teardown_if td
       (st\<lparr>ls_parser := p, ls_shared := (ls_shared st)
          \<lparr>sh_counters := c', sh_scheduler := s', sh_world := w'\<rparr>\<rparr>)"
proof -
  let ?L = "service_loop_of E m"
  define w where "w = snd (clock_us E (fm_clock m) (sh_world (ls_shared st)))"
  obtain outcome p us t source target where
    parse: "parse (deserialize_in_place lib) (Some data) (sh_counters (ls_shared st), ls_parser st) =
      (outcome, (sh_counters (ls_shared st), p))" and kind: "po_kind outcome = Valid"
    and gate: "validControllerTarget_gate (identity_of m) (extractSourceTarget lib (Some data))"
    and run: "processLine E lib ?L (Some data) st =
       routeValid ?L outcome (extractSourceTarget lib (Some data)) us
         (st\<lparr>ls_parser := p, ls_shared := (ls_shared st)\<lparr>sh_world := w\<rparr>\<rparr>)"
    and root: "document_root (deserialize_in_place lib) (Some data) = Some root"
      "getString (member kType root) = Some t" "cstr t = ''estop''"
    and addr: "getString (member kSource root) = Some source" "getString (member kTarget root) = Some target"
      "validControllerTarget (identity_of m) (Some source) (Some target)"
    by (rule facade_line_routed [OF assms(1), of st E]) (simp add: w_def)
  have msg: "po_message_kind outcome = Estop_Message"
    by (rule parse_message_of(2) [OF root(1,2) parse]) (simp add: strcmp_eq_def root(3))
  define st1 where "st1 = st\<lparr>ls_parser := p, ls_shared := (ls_shared st)\<lparr>sh_world := w\<rparr>\<rparr>"
  from parse_estop_valid [OF parse kind msg] root(1) addr
  have target: "validControllerTarget (identity_of m) (pe_source (po_estop outcome)) (pe_target (po_estop outcome))"
    by auto
  have sh1: "sh_context (ls_shared st1) = m" "sh_counters (ls_shared st1) = sh_counters (ls_shared st)"
    "sh_scheduler (ls_shared st1) = sh_scheduler (ls_shared st)" "ls_driver st1 = ls_driver st"
    "sh_world (ls_shared st1) = w" using assms(2) by (simp_all add: st1_def)
  obtain td c' s' w' where es: "handleEstop E (identity_of m) (fm_clock m) (cr_estop_hook (fm_registry m))
      (sh_counters (ls_shared st), sh_scheduler (ls_shared st), w) = (td, (c', s', w'))" by (metis surj_pair)
  have "processLine E lib ?L (Some data) st = teardown_if td
      (st1\<lparr>ls_shared := (ls_shared st1)\<lparr>sh_counters := c', sh_scheduler := s', sh_world := w'\<rparr>\<rparr>)"
    using run [folded st1_def] msg target es
    by (simp add: routeValid_def Let_def facadeRoutes_def no_routes_def call_with_result_def
        routeEstop_def sh1)
  with es show ?thesis by (intro that [of td c' s' w' p]) (simp_all add: w_def st1_def)
qed

text \<open>
  C3: an e-stop from the controller runs the registered hook, once the line is parsed and the two
  times are read, and is acknowledged exactly when the hook reports the safe state and the queue
  has room. Nothing else answers it; a missing or
  failing hook is counted and the session goes on; a full queue tears the session down.
\<close>

theorem estop_line_answered:
  assumes "valid_line lib (identity_of m) ''estop'' data root"
    and "board_named (identity_of m) board"
    and "sh_context (ls_shared st) = m"
    and "processLine E lib (service_loop_of E m) (Some data) st = st'"
  shows "let w = snd (clock_us E (fm_clock m) (snd (clock_us E (fm_clock m) (sh_world (ls_shared st)))));
       c = sh_counters (ls_shared st); c' = sh_counters (ls_shared st');
       s = sh_scheduler (ls_shared st); s' = sh_scheduler (ls_shared st') in
     estop_received c' = estop_received c + 1 \<and>
     (if \<exists>h. cr_estop_hook (fm_registry m) = Some h \<and> fst (safetyHook E h w)
      then estop_apply_failed c' = estop_apply_failed c \<and>
        (if has_room s
         then ls_driver st' = ls_driver st \<and>
           (\<exists>ts. held_lines s' = held_lines s @ [(EstopAck, ack_line board ts)])
         else s' = s \<and> ls_driver st' = requestTeardown CriticalTransmitFailure (ls_driver st))
      else s' = s \<and> ls_driver st' = ls_driver st \<and> estop_apply_failed c' = estop_apply_failed c + 1)"
proof (rule estop_line_handled [OF assms(1,3), of E])
  fix p td c' s' w'
  assume es: "handleEstop E (identity_of m) (fm_clock m) (cr_estop_hook (fm_registry m))
       (sh_counters (ls_shared st), sh_scheduler (ls_shared st),
        snd (clock_us E (fm_clock m) (sh_world (ls_shared st)))) = (td, (c', s', w'))"
    and run: "processLine E lib (service_loop_of E m) (Some data) st = teardown_if td
       (st\<lparr>ls_parser := p, ls_shared := (ls_shared st)
          \<lparr>sh_counters := c', sh_scheduler := s', sh_world := w'\<rparr>\<rparr>)"
  note acks = handleEstop_acks [OF assms(2), of E "fm_clock m" "cr_estop_hook (fm_registry m)"
      "sh_counters (ls_shared st)" "sh_scheduler (ls_shared st)"
      "snd (clock_us E (fm_clock m) (sh_world (ls_shared st)))", unfolded es Let_def prod.case]
  show ?thesis
    using acks run assms(4) by (auto simp: Let_def teardown_if_def split: if_splits)
qed

definition sample_estop_document :: "bytes \<Rightarrow> json option" where
  "sample_estop_document s =
     Some (JObject [(kType, JString ''estop''), (kSource, JString ''controller''), (kTarget, JString ''b'')])"

definition sample_estop_library :: json_library where
  "sample_estop_library =
     \<lparr>deserialize_in_place = sample_estop_document, deserialize_copying = sample_estop_document\<rparr>"

lemma estop_line_answered_witness:
  "\<exists>ts. held_lines (sh_scheduler (ls_shared (processLine (sample_env 1) sample_estop_library
      (service_loop_of (sample_env 1) sample_members) (Some ''x'') sample_turn))) =
    [(EstopAck, ack_line ''b'' ts)]"
proof -
  define root where "root = [(kType, JString ''estop''), (kSource, JString ''controller''), (kTarget, JString ''b'')]"
  have doc: "document_root sample_estop_document (Some ''x'') = Some root"
    by (simp add: document_root_def sample_estop_document_def root_def isValidUtf8.simps)
  have mem: "getString (member kType root) = Some ''estop''" "getString (member kSource root) = Some ''controller''"
    "getString (member kTarget root) = Some ''b''"
    by (simp_all add: root_def member_def find_member_def strcmp_eq_def)
  have keys: "containsKey kSource root" "containsKey kTarget root"
    by (simp_all add: containsKey_def root_def find_member_def strcmp_eq_def)
  have parsed: "po_kind (fst (parse sample_estop_document (Some ''x'') (zero_counters, new_parser))) = Valid"
    unfolding parse_root [OF doc mem(1)] Let_def
    by (simp add: strcmp_eq_def parseEstop_def mem [simplified] keys [simplified] Let_def)
  then have kind: "line_kind sample_estop_document (Some ''x'') = Valid" by (simp add: parse_kind)
  have "line_addresses sample_estop_library ''x'' root ''controller'' ''b''"
    using doc mem
    by (simp add: line_addresses_def sample_estop_library_def limits)
      (simp add: sample_estop_document_def root_def)
  moreover have "addressed (identity_of sample_members) ''controller'' ''b''"
    by (simp add: addressed_def sample_members_def new_server_def identity_of_def registry_identity_def
        strcmp_eq_def)
  moreover have "cstr ''estop'' = ''estop''" by (simp add: cstr_def)
  ultimately have v: "valid_line sample_estop_library (identity_of sample_members) ''estop'' ''x'' root"
    using mem(1) kind unfolding valid_line_def sample_estop_library_def json_library.select_convs by blast
  have c: "sh_context (ls_shared sample_turn) = sample_members"
    "cr_estop_hook (fm_registry sample_members) = Some 0"
    "has_room (sh_scheduler (ls_shared sample_turn))" "held_lines (sh_scheduler (ls_shared sample_turn)) = []"
    by (simp_all add: sample_turn_def sample_members_def new_registry_def new_scheduler_def has_room_def
        held_lines_def limits)
  have hook: "fst (safetyHook (sample_env 1) 0 w)" for w by (simp add: sample_env_def)
  from estop_line_answered [OF v sample_members_named(1) c(1) refl, of "sample_env 1"] c(2-4) hook
  show ?thesis by (auto simp: Let_def)
qed

text \<open>
  C4: a heartbeat from the controller is answered. The turn that processes it appends exactly one
  acknowledgement, with the heartbeat's own sequence number and the board's name, and the session
  goes on; with a full queue nothing is queued and the session is torn down. No board code runs:
  the world has only been asked for the time.
\<close>

theorem heartbeat_line_answered:
  assumes "valid_line lib (identity_of m) ''heartbeat'' data root"
    and "board_named (identity_of m) board"
    and "sh_context (ls_shared st) = m"
    and "processLine E lib (service_loop_of E m) (Some data) st = st'"
  shows "let c = sh_counters (ls_shared st); s = sh_scheduler (ls_shared st); s' = sh_scheduler (ls_shared st') in
     sh_world (ls_shared st') = snd (clock_us E (fm_clock m) (sh_world (ls_shared st))) \<and>
     sh_counters (ls_shared st') = increment heartbeat_received_update c \<and>
     (if has_room s
      then ls_driver st' = ls_driver st \<and>
        (\<exists>seq. getSeq (member kSeq root) = Some seq \<and>
           held_lines s' = held_lines s @ [(HeartbeatAck, line_of (heartbeat_members board seq))])
      else s' = s \<and> ls_driver st' = requestTeardown CriticalTransmitFailure (ls_driver st))"
proof -
  let ?L = "service_loop_of E m"
  define w where "w = snd (clock_us E (fm_clock m) (sh_world (ls_shared st)))"
  obtain outcome p us t source target where
    parse: "parse (deserialize_in_place lib) (Some data) (sh_counters (ls_shared st), ls_parser st) =
      (outcome, (sh_counters (ls_shared st), p))" and kind: "po_kind outcome = Valid"
    and gate: "validControllerTarget_gate (identity_of m) (extractSourceTarget lib (Some data))"
    and run: "processLine E lib ?L (Some data) st =
       routeValid ?L outcome (extractSourceTarget lib (Some data)) us
         (st\<lparr>ls_parser := p, ls_shared := (ls_shared st)\<lparr>sh_world := w\<rparr>\<rparr>)"
    and root: "document_root (deserialize_in_place lib) (Some data) = Some root"
      "getString (member kType root) = Some t" "cstr t = ''heartbeat''"
    and addr: "getString (member kSource root) = Some source" "getString (member kTarget root) = Some target"
      "validControllerTarget (identity_of m) (Some source) (Some target)"
    by (rule facade_line_routed [OF assms(1), of st E]) (simp add: w_def)
  have msg: "po_message_kind outcome = Heartbeat_Message"
    by (rule parse_message_of(3) [OF root(1,2) parse]) (simp add: strcmp_eq_def root(3))
  define st1 where "st1 = st\<lparr>ls_parser := p, ls_shared := (ls_shared st)\<lparr>sh_world := w\<rparr>\<rparr>"
  from parse_heartbeat_valid [OF parse kind msg] root(1) addr
  have seq: "getSeq (member kSeq root) = Some (ph_seq (po_heartbeat outcome))"
    and target: "validControllerTarget (identity_of m) (ph_source (po_heartbeat outcome))
      (ph_target (po_heartbeat outcome))" by auto
  obtain td c' s' where hb: "handleHeartbeat (po_heartbeat outcome) (identity_of m)
      (sh_counters (ls_shared st), sh_scheduler (ls_shared st)) = (td, (c', s'))" by (metis surj_pair)
  have counted: "c' = increment heartbeat_received_update (sh_counters (ls_shared st))"
    using hb by (auto simp: handleHeartbeat_def Let_def split: option.splits prod.splits)
  have "st' = teardown_if td (st1\<lparr>ls_shared := (ls_shared st1)\<lparr>sh_counters := c', sh_scheduler := s'\<rparr>\<rparr>)"
    using run [folded st1_def] assms(3,4) msg target hb
    by (simp add: routeValid_def Let_def facadeRoutes_def no_routes_def call_with_result_def
        routeHeartbeat_def st1_def)
  with heartbeat_answered [OF assms(2), of "po_heartbeat outcome" "sh_counters (ls_shared st)"
      "sh_scheduler (ls_shared st)", unfolded hb Let_def prod.case] counted seq
  show ?thesis by (auto simp: Let_def teardown_if_def st1_def w_def split: if_splits)
qed

definition sample_heartbeat_root :: "(bytes \<times> json) list" where
  "sample_heartbeat_root =
     [(kType, JString ''heartbeat''), (kSeq, JUnsigned 9), (kSource, JString ''controller''), (kTarget, JString ''b'')]"

definition sample_heartbeat_library :: json_library where
  "sample_heartbeat_library =
     \<lparr>deserialize_in_place = (\<lambda>s. Some (JObject sample_heartbeat_root)),
      deserialize_copying = (\<lambda>s. Some (JObject sample_heartbeat_root))\<rparr>"

lemma heartbeat_line_answered_witness:
  "held_lines (sh_scheduler (ls_shared (processLine (sample_env 1) sample_heartbeat_library
      (service_loop_of (sample_env 1) sample_members) (Some ''x'') sample_turn))) =
    [(HeartbeatAck, line_of (heartbeat_members ''b'' 9))]"
proof -
  have mem: "getString (member kType sample_heartbeat_root) = Some ''heartbeat''"
    "getString (member kSource sample_heartbeat_root) = Some ''controller''"
    "getString (member kTarget sample_heartbeat_root) = Some ''b''"
    "getSeq (member kSeq sample_heartbeat_root) = Some 9"
    "list_all (\<lambda>k. containsKey k sample_heartbeat_root) [kType, kSeq, kSource, kTarget]"
    by (simp_all add: sample_heartbeat_root_def member_def find_member_def containsKey_def strcmp_eq_def)
  have texts: "cstr ''heartbeat'' = ''heartbeat''" "cstr ''controller'' = ''controller''" "cstr ''b'' = ''b''"
    by (simp_all add: cstr_def)
  have "line_addresses sample_heartbeat_library ''x'' sample_heartbeat_root ''controller'' ''b''"
    using mem texts by (simp add: line_addresses_def sample_heartbeat_library_def limits document_root_def)
  moreover have "line_kind (deserialize_in_place sample_heartbeat_library) (Some ''x'') = Valid"
    using mem texts by (simp add: sample_heartbeat_library_def line_kind_def document_root_def
        message_type_of_cases line_error_def strcmp_eq_def shape_defs expected_kind_def)
  moreover have "addressed (identity_of sample_members) ''controller'' ''b''"
    by (simp add: addressed_def sample_members_def new_server_def identity_of_def registry_identity_def
        strcmp_eq_def)
  ultimately have v: "valid_line sample_heartbeat_library (identity_of sample_members) ''heartbeat'' ''x''
      sample_heartbeat_root"
    using mem(1) texts(1) unfolding valid_line_def by blast
  have c: "sh_context (ls_shared sample_turn) = sample_members"
    "has_room (sh_scheduler (ls_shared sample_turn))" "held_lines (sh_scheduler (ls_shared sample_turn)) = []"
    by (simp_all add: sample_turn_def new_scheduler_def has_room_def held_lines_def limits)
  from heartbeat_line_answered [OF v sample_members_named(1) c(1) refl, of "sample_env 1"] c(2,3) mem(4)
  show ?thesis by (simp add: Let_def)
qed

lemma schema_size_iff:
  assumes "registry_ok r"
  shows "status_ok (validateMaximumSchemaSize r (registry_identity r)) \<longleftrightarrow>
     length (line_of (schema_members r (cr_identity r) (- 1))) \<le> kBoardTxMaxLineBytes"
proof -
  have cap: "0 < kSchemaJsonBufferBytes" "min kSchemaJsonBufferBytes kBoardTxMaxLineBytes = kBoardTxMaxLineBytes"
    by (simp_all add: limits)
  show ?thesis
    unfolding validateMaximumSchemaSize_def buildSchemaLine_eq [OF assms cap(1)] cap(2)
    by (simp add: Let_def status_ok_def ok_status_def)
qed

text \<open>
  C24: \<open>start\<close> succeeds exactly when the configuration is complete: a network configuration, an
  identity, a telemetry provider and both hooks were set, the largest schema line fits the
  transmit limit, and the server was not started before. It then seals the registry and, with a
  network attached, begins the session machine; otherwise nothing changes.
\<close>

theorem start_succeeds_iff:
  assumes "server_reaches E lib sv"
  shows "let m = sh_context (tc_shared sv); r = fm_registry m; (result, sv') = start E sv in
     (status_ok result \<longleftrightarrow>
        fm_network_config_set m \<and> fm_identity_bound m \<and> cr_telemetry_provider r \<noteq> None \<and>
        cr_estop_hook r \<noteq> None \<and> cr_controller_loss_hook r \<noteq> None \<and>
        length (line_of (schema_members r (cr_identity r) (- 1))) \<le> kBoardTxMaxLineBytes \<and>
        \<not> fm_started m) \<and>
     (if status_ok result
      then fm_started (sh_context (tc_shared sv')) \<and>
        fm_registry (sh_context (tc_shared sv')) = r\<lparr>cr_lifecycle := Sealed\<rparr> \<and>
        (fm_network m \<and> fm_clock m \<longrightarrow>
          (\<exists>d. tc_session_driver sv' = Some d \<and> sd_state d = NETWORK_STARTING \<and>
               sd_listen_port d = nc_listen_port (fm_network_config m)))
      else sv' = sv)"
proof -
  define m r where "m = sh_context (tc_shared sv)" and "r = fm_registry m"
  have "members_ok m" using server_reaches_ok [OF assms] by (simp add: server_ok_def Let_def m_def)
  then have m: "registry_ok r" "fm_identity_bound m \<longleftrightarrow> cr_identity_set r"
    "fm_started m \<longleftrightarrow> cr_lifecycle r = Sealed" unfolding members_ok_def r_def by blast+
  note size = schema_size_iff [OF m(1)]
  have meta: "status_ok (validateMetadataForSeal r) \<longleftrightarrow> cr_identity_set r \<and> cr_telemetry_provider r \<noteq> None \<and>
      cr_estop_hook r \<noteq> None \<and> cr_controller_loss_hook r \<noteq> None"
    by (auto simp: validateMetadataForSeal_def status_ok_def ok_status_def)
  have seal: "status_ok (fst (commitSeal r)) \<longleftrightarrow> cr_lifecycle r \<noteq> Sealed"
    by (simp add: commitSeal_def status_ok_def ok_status_def sealed_status_def)
  define m1 where "m1 = m\<lparr>fm_registry := r\<lparr>cr_lifecycle := Sealed\<rparr>, fm_identity_bound := True, fm_started := True\<rparr>"
  define sv1 where "sv1 = sv\<lparr>tc_shared := (tc_shared sv)\<lparr>sh_context := m1\<rparr>\<rparr>"
  have begun: "fm_started (sh_context (tc_shared (start_session E sv1)))"
    "fm_registry (sh_context (tc_shared (start_session E sv1))) = r\<lparr>cr_lifecycle := Sealed\<rparr>"
    "\<exists>d. tc_session_driver (start_session E sv1) = Some d \<and> sd_state d = NETWORK_STARTING \<and>
       sd_listen_port d = nc_listen_port (fm_network_config m)"
    by (auto simp: start_session_eq Let_def sv1_def m1_def driver_begin_def new_session_driver_def
        transitionTo_def split: prod.split)
  consider (no) "fst (start E sv) \<noteq> ok_status \<and> \<not> status_ok (fst (start E sv)) \<and> snd (start E sv) = sv"
      "\<not> (fm_network_config_set m \<and> status_ok (validateMetadataForSeal r) \<and>
          status_ok (validateMaximumSchemaSize r (registry_identity r)) \<and> cr_lifecycle r \<noteq> Sealed)"
    | (yes) "start E sv = (ok_status, if fm_network m \<and> fm_clock m then start_session E sv1 else sv1)"
      "fm_network_config_set m \<and> status_ok (validateMetadataForSeal r) \<and>
          status_ok (validateMaximumSchemaSize r (registry_identity r)) \<and> cr_lifecycle r \<noteq> Sealed"
  proof (cases "fm_network_config_set m \<and> status_ok (validateMetadataForSeal r) \<and>
          status_ok (validateMaximumSchemaSize r (registry_identity r)) \<and> cr_lifecycle r \<noteq> Sealed")
    case True
    then have "commitSeal r = (ok_status, r\<lparr>cr_lifecycle := Sealed\<rparr>)" by (simp add: commitSeal_def)
    with True have "start E sv = (ok_status, if fm_network m \<and> fm_clock m then start_session E sv1 else sv1)"
      unfolding start_def Let_def m_def [symmetric] r_def [symmetric] sv1_def m1_def
      by (simp add: status_ok_def ok_status_def)
    with True yes show thesis by blast
  next
    case False
    then have "\<not> status_ok (fst (start E sv)) \<and> snd (start E sv) = sv"
      unfolding start_def Let_def m_def [symmetric] r_def [symmetric]
      by (auto simp: status_ok_def commitSeal_def sealed_status_def)
    moreover have "status_ok ok_status" by (simp add: status_ok_def ok_status_def)
    ultimately show thesis using False no by metis
  qed
  then show ?thesis
  proof cases
    case no
    then show ?thesis
      using m size meta by (cases "start E sv") (auto simp: Let_def m_def [symmetric] r_def [symmetric])
  next
    case yes
    then have "status_ok ok_status" by (simp add: status_ok_def ok_status_def)
    with yes m size meta begun show ?thesis
      by (auto simp: Let_def m_def [symmetric] r_def [symmetric] sv1_def m1_def)
  qed
qed

lemma start_succeeds_iff_witness:
  "\<not> status_ok (fst (start (sample_env 1) (new_server True (3, []))))"
  using start_succeeds_iff [OF sr_new [where E = "sample_env 1" and lib = sample_library and attached = True
        and w = "(3, [])"]]
  by (auto simp: Let_def new_server_def split: prod.splits)

text \<open>
  C38: a command whose structure is wrong gets no response from the server, although its sequence
  number and timestamp are usable. The loop offers such an error to
  \<open>recoverable_command_error\<close>, but the server's routes do not set that route, so the line has no
  effect on the queue or the session.
\<close>

theorem invalid_command_unanswered:
  assumes "line_kind (deserialize_in_place lib) (Some data) = StructurallyInvalid"
    and "processLine E lib (service_loop_of E m) (Some data) st = st'"
  shows "sh_scheduler (ls_shared st') = sh_scheduler (ls_shared st) \<and>
     sh_context (ls_shared st') = sh_context (ls_shared st) \<and> ls_driver st' = ls_driver st"
proof -
  let ?d = "deserialize_in_place lib" and ?L = "service_loop_of E m"
  obtain outcome c p where parse: "parse ?d (Some data) (sh_counters (ls_shared st), ls_parser st) =
      (outcome, (c, p))" by (metis surj_pair)
  obtain us w where clk: "clock_us E (sl_clock ?L) (sh_world (ls_shared st)) = (us, w)"
    by (cases "clock_us E (sl_clock ?L) (sh_world (ls_shared st))")
  have kind: "po_kind outcome = StructurallyInvalid"
    using parse_kind [of ?d "Some data" "(sh_counters (ls_shared st), ls_parser st)"] parse assms(1) by simp
  have route: "routeRecoverableCommandError (facadeRoutes E) e sh = sh" for e and sh :: "'a facade_shared"
    by (simp add: routeRecoverableCommandError_def facadeRoutes_def no_routes_def)
  show ?thesis
    using processLine_parse [OF parse clk] assms(2) kind by (auto simp: Let_def route split: if_splits)
qed

definition sample_wrong_document :: "bytes \<Rightarrow> json option" where
  "sample_wrong_document s = Some (JObject [(kType, JString ''command''), (kSeq, JUnsigned 7)])"

lemma invalid_command_unanswered_witness:
  "held_lines (sh_scheduler (ls_shared (processLine (sample_env 1)
      \<lparr>deserialize_in_place = sample_wrong_document, deserialize_copying = sample_wrong_document\<rparr>
      (service_loop_of (sample_env 1) sample_members) (Some ''x'') sample_turn))) = []"
proof -
  define root where "root = [(kType, JString ''command''), (kSeq, JUnsigned 7)]"
  have doc: "document_root sample_wrong_document (Some ''x'') = Some root"
    by (simp add: document_root_def sample_wrong_document_def root_def isValidUtf8.simps)
  have mem: "getString (member kType root) = Some ''command''" "getSeq (member kSeq root) = Some 7"
    "\<not> containsKey kControllerTs root"
    by (simp_all add: root_def member_def find_member_def containsKey_def strcmp_eq_def)
  have "po_kind (fst (parse sample_wrong_document (Some ''x'') (zero_counters, new_parser))) = StructurallyInvalid"
    unfolding parse_root [OF doc mem(1)] Let_def
    by (simp add: strcmp_eq_def parseCommand_def mem [simplified] Let_def structuralError_def)
  then have "line_kind sample_wrong_document (Some ''x'') = StructurallyInvalid" by (simp add: parse_kind)
  then have k: "line_kind (deserialize_in_place \<lparr>deserialize_in_place = sample_wrong_document,
      deserialize_copying = sample_wrong_document\<rparr>) (Some ''x'') = StructurallyInvalid" by simp
  from invalid_command_unanswered [OF k refl, of "sample_env 1" sample_members sample_turn] show ?thesis
    by (simp add: sample_turn_def held_lines_def new_scheduler_def)
qed

end
