(* ===== verification/QNEthernet.thy ===== *)
theory QNEthernet
  imports SessionDriver TeensyCommandServer
begin

text \<open>
  The board's platform layer, \<open>src/platform/qnethernet/\<close>: the clock, the transport over one
  Ethernet client, and the network server with its two connection slots and the generations that
  tell an old connection handle from a new one.

  QNEthernet and the Arduino core are third-party: their calls are the fields of a record, over a
  client value \<open>'c\<close> and a state \<open>'n\<close> of library, hardware and network. A call may change both.
\<close>

section \<open>The libraries\<close>

record ('c, 'n) qnethernet =
  qn_millis :: "'n \<Rightarrow> u32 \<times> 'n"
  qn_micros :: "'n \<Rightarrow> u32 \<times> 'n"
  qn_yield :: "'n \<Rightarrow> 'n"
  qn_loop :: "'n \<Rightarrow> 'n"
  qn_linkOff :: "'n \<Rightarrow> bool \<times> 'n"
  qn_localIP :: "'n \<Rightarrow> u32 \<times> 'n"
  qn_INADDR_NONE :: u32
  qn_begin_dhcp :: "'n \<Rightarrow> bool \<times> 'n"
  qn_begin_static :: "ipv4 \<Rightarrow> ipv4 \<Rightarrow> ipv4 \<Rightarrow> 'n \<Rightarrow> bool \<times> 'n"
  qn_beginWithReuse :: "u16 \<Rightarrow> 'n \<Rightarrow> bool \<times> 'n"
  qn_serverListening :: "'n \<Rightarrow> bool \<times> 'n"
  qn_accept :: "'n \<Rightarrow> 'c \<times> 'n"
  qn_noClient :: 'c
  qn_connected :: "'c \<Rightarrow> 'n \<Rightarrow> bool \<times> 'c \<times> 'n"
  qn_disableTimeout :: "'c \<Rightarrow> 'n \<Rightarrow> 'c \<times> 'n"
  qn_setNoDelay :: "'c \<Rightarrow> 'n \<Rightarrow> bool \<times> 'c \<times> 'n"
  qn_available :: "'c \<Rightarrow> 'n \<Rightarrow> int \<times> 'c \<times> 'n"
  qn_read :: "nat \<Rightarrow> 'c \<Rightarrow> 'n \<Rightarrow> (int \<times> bytes) \<times> 'c \<times> 'n"
  qn_write :: "bytes \<Rightarrow> 'c \<Rightarrow> 'n \<Rightarrow> nat \<times> 'c \<times> 'n"
  qn_flush :: "'c \<Rightarrow> 'n \<Rightarrow> 'c \<times> 'n"
  qn_close :: "'c \<Rightarrow> 'n \<Rightarrow> 'c \<times> 'n"
  qn_abort :: "'c \<Rightarrow> 'n \<Rightarrow> 'c \<times> 'n"
  qn_serialReady :: "'n \<Rightarrow> bool \<times> 'n"
  qn_serialWrite :: "bytes \<Rightarrow> 'n \<Rightarrow> 'n"

section \<open>The clock\<close>

text \<open>\<open>millis()\<close> and \<open>micros()\<close> are 32 bits wide; the conversion to 64 bits does not extend them.\<close>

definition monotonicMilliseconds_qn :: "('c, 'n) qnethernet \<Rightarrow> 'n \<Rightarrow> u64 \<times> 'n" where
  "monotonicMilliseconds_qn Q n = (case qn_millis Q n of (t, n1) \<Rightarrow> (ucast t, n1))"

definition monotonicMicroseconds_qn :: "('c, 'n) qnethernet \<Rightarrow> 'n \<Rightarrow> u64 \<times> 'n" where
  "monotonicMicroseconds_qn Q n = (case qn_micros Q n of (t, n1) \<Rightarrow> (ucast t, n1))"

section \<open>The transport\<close>

text \<open>Its state is its client.\<close>

definition reset_qn :: "('c, 'n) qnethernet \<Rightarrow> 'c \<Rightarrow> 'n \<Rightarrow> 'c \<times> 'n" where
  "reset_qn Q client n = qn_disableTimeout Q client n"

definition close_transport_qn :: "('c, 'n) qnethernet \<Rightarrow> 'c \<Rightarrow> 'n \<Rightarrow> 'c \<times> 'n" where
  "close_transport_qn Q client n =
     (case qn_disableTimeout Q client n of (c1, n1) \<Rightarrow> qn_close Q c1 n1)"

definition abort_transport_qn :: "('c, 'n) qnethernet \<Rightarrow> 'c \<Rightarrow> 'n \<Rightarrow> 'c \<times> 'n" where
  "abort_transport_qn Q client n = qn_abort Q client n"

text \<open>
  \<open>readSome\<close> into a buffer that is never null. The bytes are the part of the buffer that was
  filled; \<open>read\<close> fills at most what it was asked for.
\<close>

definition readSome_qn ::
    "('c, 'n) qnethernet \<Rightarrow> nat \<Rightarrow> 'c \<Rightarrow> 'n \<Rightarrow> bytes \<times> 'c \<times> 'n" where
  "readSome_qn Q capacity client n =
     (if capacity = 0 then ([], client, n)
      else case qn_linkOff Q n of
        (True, n1) \<Rightarrow> ([], client, n1)
      | (False, n1) \<Rightarrow>
          (case qn_available Q client n1 of
             (avail, c1, n2) \<Rightarrow>
               if avail \<le> 0 then ([], c1, n2)
               else case qn_read Q (min capacity (nat avail)) c1 n2 of
                 ((got, bs), c2, n3) \<Rightarrow> (if 0 < got then take (nat got) bs else [], c2, n3)))"

definition writeSome_qn ::
    "('c, 'n) qnethernet \<Rightarrow> bytes \<Rightarrow> 'c \<Rightarrow> 'n \<Rightarrow> nat \<times> 'c \<times> 'n" where
  "writeSome_qn Q data client n =
     (if data = [] then (0, client, n)
      else case qn_linkOff Q n of
        (True, n1) \<Rightarrow> (0, client, n1)
      | (False, n1) \<Rightarrow>
          (case qn_connected Q client n1 of
             (False, c1, n2) \<Rightarrow> (0, c1, n2)
           | (True, c1, n2) \<Rightarrow> qn_write Q data c1 n2))"

definition connectionState_qn ::
    "('c, 'n) qnethernet \<Rightarrow> 'c \<Rightarrow> 'n \<Rightarrow> transport_connection_state \<times> 'c \<times> 'n" where
  "connectionState_qn Q client n =
     (case qn_linkOff Q n of
        (True, n1) \<Rightarrow> (LinkDown, client, n1)
      | (False, n1) \<Rightarrow>
          (case qn_available Q client n1 of
             (avail, c1, n2) \<Rightarrow>
               if 0 < avail then (BytesAvailable, c1, n2)
               else case qn_connected Q c1 n2 of
                 (up, c2, n3) \<Rightarrow> (if up then Open else Closed, c2, n3)))"

definition flush_qn :: "('c, 'n) qnethernet \<Rightarrow> 'c \<Rightarrow> 'n \<Rightarrow> bool \<times> 'c \<times> 'n" where
  "flush_qn Q client n =
     (case qn_linkOff Q n of
        (True, n1) \<Rightarrow> (False, client, n1)
      | (False, n1) \<Rightarrow>
          (case qn_connected Q client n1 of
             (False, c1, n2) \<Rightarrow> (False, c1, n2)
           | (True, c1, n2) \<Rightarrow>
               (case qn_flush Q c1 n2 of
                  (c2, n3) \<Rightarrow>
                    case connectionState_qn Q c2 n3 of
                      (st, c3, n4) \<Rightarrow>
                        if st = Closed then (False, c3, n4)
                        else case connectionState_qn Q c3 n4 of
                          (st', c4, n5) \<Rightarrow> (st' \<noteq> LinkDown, c4, n5))))"

section \<open>The network server\<close>

definition kConnectionSlotCount :: nat where "kConnectionSlotCount = 2"

record 'c slot =
  sl_client :: 'c
  sl_generation :: u32
  sl_active :: bool
  sl_retired :: bool

record 'c network_server =
  qs_slots :: "'c slot list"
  qs_config :: network_config
  qs_pending_client :: 'c
  qs_configured :: bool
  qs_interface_begin_attempted :: bool
  qs_interface_started :: bool
  qs_listening :: bool

type_synonym ('c, 'n) platform = "'c network_server \<times> 'n"

definition new_network_server :: "('c, 'n) qnethernet \<Rightarrow> 'c network_server" where
  "new_network_server Q =
     \<lparr>qs_slots = replicate kConnectionSlotCount
        \<lparr>sl_client = qn_noClient Q, sl_generation = 0, sl_active = False, sl_retired = False\<rparr>,
      qs_config = \<lparr>nc_mode = Dhcp, nc_listen_port = 0, nc_ip = (0, 0, 0, 0),
        nc_gateway = (0, 0, 0, 0), nc_subnet = (0, 0, 0, 0)\<rparr>,
      qs_pending_client = qn_noClient Q, qs_configured = False, qs_interface_begin_attempted = False,
      qs_interface_started = False, qs_listening = False\<rparr>"

definition configure_qn :: "network_config \<Rightarrow> 'c network_server \<Rightarrow> 'c network_server" where
  "configure_qn config s =
     s\<lparr>qs_config := config, qs_configured := True, qs_interface_begin_attempted := False,
       qs_interface_started := False, qs_listening := False\<rparr>"

definition beginInterfaceIfNeeded ::
    "('c, 'n) qnethernet \<Rightarrow> ('c, 'n) platform \<Rightarrow> ('c, 'n) platform" where
  "beginInterfaceIfNeeded Q sn =
     (case sn of (s, n) \<Rightarrow>
        if \<not> qs_configured s \<or> qs_interface_started s \<or> qs_interface_begin_attempted s then (s, n)
        else
          let s1 = s\<lparr>qs_interface_begin_attempted := True\<rparr>; config = qs_config s1 in
          case (if nc_mode config = StaticIpv4
                then qn_begin_static Q (nc_ip config) (nc_subnet config) (nc_gateway config) n
                else qn_begin_dhcp Q n) of
            (started, n1) \<Rightarrow> (s1\<lparr>qs_interface_started := started\<rparr>, n1))"

definition progress_qn :: "('c, 'n) qnethernet \<Rightarrow> ('c, 'n) platform \<Rightarrow> ('c, 'n) platform" where
  "progress_qn Q sn = (case beginInterfaceIfNeeded Q sn of (s, n) \<Rightarrow> (s, qn_yield Q (qn_loop Q n)))"

definition hasAddress :: "('c, 'n) qnethernet \<Rightarrow> u32 \<Rightarrow> bool" where
  "hasAddress Q raw \<longleftrightarrow> raw \<noteq> 0 \<and> raw \<noteq> qn_INADDR_NONE Q"

definition availability_qn ::
    "('c, 'n) qnethernet \<Rightarrow> ('c, 'n) platform \<Rightarrow> network_availability \<times> ('c, 'n) platform" where
  "availability_qn Q sn =
     (case sn of (s, n) \<Rightarrow>
        if \<not> qs_configured s \<or> \<not> qs_interface_started s then (Uninitialized, (s, n))
        else case qn_linkOff Q n of
          (True, n1) \<Rightarrow> (Link_Down, (s, n1))
        | (False, n1) \<Rightarrow>
            (case qn_localIP Q n1 of
               (ip, n2) \<Rightarrow> (if hasAddress Q ip then Ready else AddressPending, (s, n2))))"

definition begin_qn ::
    "('c, 'n) qnethernet \<Rightarrow> u16 \<Rightarrow> ('c, 'n) platform \<Rightarrow> bool \<times> ('c, 'n) platform" where
  "begin_qn Q port sn =
     (case availability_qn Q sn of
        (a, (s, n)) \<Rightarrow>
          if a \<noteq> Ready \<or> port = 0 then (False, (s, n))
          else case qn_beginWithReuse Q port n of
            (listening, n1) \<Rightarrow> (listening, (s\<lparr>qs_listening := listening\<rparr>, n1)))"

definition isListening_qn ::
    "('c, 'n) qnethernet \<Rightarrow> ('c, 'n) platform \<Rightarrow> bool \<times> ('c, 'n) platform" where
  "isListening_qn Q sn =
     (case sn of (s, n) \<Rightarrow>
        if \<not> qs_listening s then (False, (s, n))
        else case qn_serverListening Q n of (l, n1) \<Rightarrow> (l, (s, n1)))"

text \<open>The index of the first slot that is neither active nor retired, or the number of slots.\<close>

fun firstReusableSlot :: "'c slot list \<Rightarrow> nat" where
  "firstReusableSlot [] = 0"
| "firstReusableSlot (sl # sls) =
     (if \<not> sl_active sl \<and> \<not> sl_retired sl then 0 else Suc (firstReusableSlot sls))"

definition cachePendingConnection ::
    "('c, 'n) qnethernet \<Rightarrow> ('c, 'n) platform \<Rightarrow> bool \<times> ('c, 'n) platform" where
  "cachePendingConnection Q sn =
     (case sn of (s, n) \<Rightarrow>
        case qn_connected Q (qs_pending_client s) n of
          (True, c, n1) \<Rightarrow> (True, (s\<lparr>qs_pending_client := c\<rparr>, n1))
        | (False, c, n1) \<Rightarrow>
            (case qn_accept Q n1 of
               (c1, n2) \<Rightarrow>
                 case qn_connected Q c1 n2 of
                   (up, c2, n3) \<Rightarrow> (up, (s\<lparr>qs_pending_client := c2\<rparr>, n3))))"

definition hasPendingConnection_qn ::
    "('c, 'n) qnethernet \<Rightarrow> ('c, 'n) platform \<Rightarrow> bool \<times> ('c, 'n) platform" where
  "hasPendingConnection_qn Q sn =
     (case isListening_qn Q sn of
        (l, (s, n)) \<Rightarrow>
          if \<not> l \<or> length (qs_slots s) \<le> firstReusableSlot (qs_slots s) then (False, (s, n))
          else cachePendingConnection Q (s, n))"

definition kNoDelayFailureMessage :: bytes where
  "kNoDelayFailureMessage = ''command-server: setNoDelay failed'' @ [LF]"

definition logNoDelayFailure :: "('c, 'n) qnethernet \<Rightarrow> 'n \<Rightarrow> 'n" where
  "logNoDelayFailure Q n =
     (case qn_serialReady Q n of
        (True, n1) \<Rightarrow> qn_serialWrite Q kNoDelayFailureMessage n1
      | (False, n1) \<Rightarrow> n1)"

definition accept_qn ::
    "('c, 'n) qnethernet \<Rightarrow> ('c, 'n) platform \<Rightarrow> connection_handle \<times> ('c, 'n) platform" where
  "accept_qn Q sn =
     (case hasPendingConnection_qn Q sn of
        (False, sn1) \<Rightarrow> (kInvalidConnection, sn1)
      | (True, (s, n)) \<Rightarrow>
          let i = firstReusableSlot (qs_slots s) in
          if length (qs_slots s) \<le> i then (kInvalidConnection, (s, n))
          else
            let slot = qs_slots s ! i;
                generation = (if sl_generation slot = 0 then 1 else sl_generation slot) in
            case qn_disableTimeout Q (qs_pending_client s) n of (c1, n1) \<Rightarrow>
            case qn_setNoDelay Q c1 n1 of (ok, c2, n2) \<Rightarrow>
              let n3 = (if ok then n2 else logNoDelayFailure Q n2) in
              case reset_qn Q c2 n3 of
                (c3, n4) \<Rightarrow>
                  (\<lparr>ch_slot = of_nat i, ch_generation = generation\<rparr>,
                   (s\<lparr>qs_slots := (qs_slots s)[i := slot\<lparr>sl_generation := generation,
                        sl_client := c3, sl_active := True\<rparr>],
                      qs_pending_client := qn_noClient Q\<rparr>, n4)))"

text \<open>A slot pointer is an index, None for null.\<close>

definition lookup :: "connection_handle \<Rightarrow> 'c network_server \<Rightarrow> nat option" where
  "lookup handle s =
     (let i = unat (ch_slot handle) in
      if \<not> isValidConnectionHandle handle \<or> length (qs_slots s) \<le> i then None
      else
        let slot = qs_slots s ! i in
        if \<not> sl_active slot \<or> sl_retired slot \<or> sl_generation slot \<noteq> ch_generation handle then None
        else Some i)"

definition transport_qn ::
    "connection_handle \<Rightarrow> ('c, 'n) platform \<Rightarrow> transport_ptr option \<times> ('c, 'n) platform" where
  "transport_qn handle sn = (lookup handle (fst sn), sn)"

definition invalidate_slot :: "'c slot \<Rightarrow> 'c slot" where
  "invalidate_slot slot =
     (let s1 = slot\<lparr>sl_active := False\<rparr> in
      if sl_generation s1 = 0xFFFFFFFF then s1\<lparr>sl_generation := 0, sl_retired := True\<rparr>
      else
        let s2 = s1\<lparr>sl_generation := sl_generation s1 + 1\<rparr> in
        if sl_generation s2 = 0 then s2\<lparr>sl_retired := True\<rparr> else s2)"

definition close_qn ::
    "('c, 'n) qnethernet \<Rightarrow> connection_handle \<Rightarrow> ('c, 'n) platform \<Rightarrow> ('c, 'n) platform" where
  "close_qn Q handle sn =
     (case sn of (s, n) \<Rightarrow>
        case lookup handle s of
          None \<Rightarrow> (s, n)
        | Some i \<Rightarrow>
            case close_transport_qn Q (sl_client (qs_slots s ! i)) n of
              (c, n1) \<Rightarrow>
                (s\<lparr>qs_slots := (qs_slots s)[i := invalidate_slot ((qs_slots s ! i)\<lparr>sl_client := c\<rparr>)]\<rparr>, n1))"

definition abort_qn ::
    "('c, 'n) qnethernet \<Rightarrow> connection_handle \<Rightarrow> ('c, 'n) platform \<Rightarrow> ('c, 'n) platform" where
  "abort_qn Q handle sn =
     (case sn of (s, n) \<Rightarrow>
        case lookup handle s of
          None \<Rightarrow> (s, n)
        | Some i \<Rightarrow>
            case abort_transport_qn Q (sl_client (qs_slots s ! i)) n of
              (c, n1) \<Rightarrow>
                (s\<lparr>qs_slots := (qs_slots s)[i := invalidate_slot ((qs_slots s ! i)\<lparr>sl_client := c\<rparr>)]\<rparr>, n1))"

section \<open>The environment the core sees\<close>

text \<open>A call on the transport of slot \<open>t\<close>, which \<open>transport\<close> returned and so exists.\<close>

definition on_client ::
    "('c \<Rightarrow> 'n \<Rightarrow> 'a \<times> 'c \<times> 'n) \<Rightarrow> transport_ptr \<Rightarrow> ('c, 'n) platform \<Rightarrow> 'a \<times> ('c, 'n) platform" where
  "on_client f t sn =
     (case sn of (s, n) \<Rightarrow>
        case f (sl_client (qs_slots s ! t)) n of
          (a, c, n1) \<Rightarrow> (a, (s\<lparr>qs_slots := (qs_slots s)[t := (qs_slots s ! t)\<lparr>sl_client := c\<rparr>]\<rparr>, n1)))"

definition on_library :: "('n \<Rightarrow> 'a \<times> 'n) \<Rightarrow> ('c, 'n) platform \<Rightarrow> 'a \<times> ('c, 'n) platform" where
  "on_library f sn = (case f (snd sn) of (a, n) \<Rightarrow> (a, (fst sn, n)))"

text \<open>The callbacks of the board are taken from \<open>B\<close>.\<close>

definition qn_env ::
    "('c, 'n) qnethernet \<Rightarrow> ('c, 'n) platform env \<Rightarrow> ('c, 'n) platform env" where
  "qn_env Q B =
     B\<lparr>monotonicMilliseconds := on_library (monotonicMilliseconds_qn Q),
       monotonicMicroseconds := on_library (monotonicMicroseconds_qn Q),
       progress := progress_qn Q, availability := availability_qn Q, net_begin := begin_qn Q,
       isListening := isListening_qn Q, hasPendingConnection := hasPendingConnection_qn Q,
       accept := accept_qn Q, transport := transport_qn, abort := abort_qn Q,
       readSome := (\<lambda>t n. on_client (readSome_qn Q n) t),
       writeSome := (\<lambda>t d. on_client (writeSome_qn Q d) t),
       flush := on_client (flush_qn Q), connectionState := on_client (connectionState_qn Q)\<rparr>"

section \<open>Connection handles\<close>

text \<open>Operations that may issue a handle, one after the other, with the handles in order.\<close>

fun run_steps :: "('op \<Rightarrow> 's \<Rightarrow> 'h option \<times> 's) \<Rightarrow> 'op list \<Rightarrow> 's \<Rightarrow> 'h list \<times> 's" where
  "run_steps step [] s = ([], s)"
| "run_steps step (op # ops) s =
     (case step op s of
        (issued, s1) \<Rightarrow>
          case run_steps step ops s1 of
            (hs, s2) \<Rightarrow> (case issued of None \<Rightarrow> hs | Some h \<Rightarrow> h # hs, s2))"

text \<open>
  What the session driver needs of a table of connections: a handle it is given designates a
  connection at once and never did before, and one that stopped designating a connection is spent
  for good. Two handles never name the same connection.
\<close>

locale connection_table =
  fixes step :: "'op \<Rightarrow> 's \<Rightarrow> 'h option \<times> 's"
    and live :: "'h \<Rightarrow> 's \<Rightarrow> bool" and spent :: "'h \<Rightarrow> 's \<Rightarrow> bool" and ok :: "'s \<Rightarrow> bool"
  assumes ok_step: "ok s \<Longrightarrow> ok (snd (step op s))"
    and issued_fresh: "ok s \<Longrightarrow> fst (step op s) = Some h \<Longrightarrow>
      live h (snd (step op s)) \<and> \<not> live h s \<and> \<not> spent h s"
    and ended_spent: "ok s \<Longrightarrow> live h s \<Longrightarrow> \<not> live h (snd (step op s)) \<Longrightarrow> spent h (snd (step op s))"
    and spent_step: "ok s \<Longrightarrow> spent h s \<Longrightarrow> spent h (snd (step op s))"
    and spent_dead: "spent h s \<Longrightarrow> \<not> live h s"
begin

lemma run_ok: "ok s \<Longrightarrow> ok (snd (run_steps step ops s))"
proof (induction ops arbitrary: s)
  case (Cons op ops)
  from Cons.IH [OF ok_step [OF Cons.prems]] show ?case by (simp add: split_beta)
qed simp

lemma run_spent: "ok s \<Longrightarrow> spent h s \<Longrightarrow> spent h (snd (run_steps step ops s))"
proof (induction ops arbitrary: s)
  case (Cons op ops)
  from Cons.IH [OF ok_step spent_step] Cons.prems show ?case by (simp add: split_beta)
qed simp

lemma run_ended:
  "ok s \<Longrightarrow> live h s \<Longrightarrow> \<not> live h (snd (run_steps step ops s)) \<Longrightarrow> spent h (snd (run_steps step ops s))"
proof (induction ops arbitrary: s)
  case (Cons op ops)
  note ok1 = ok_step [OF Cons.prems(1)]
  show ?case
  proof (cases "live h (snd (step op s))")
    case True
    with Cons.IH [OF ok1] Cons.prems(3) show ?thesis by (simp add: split_beta)
  next
    case False
    from run_spent [OF ok1 ended_spent [OF Cons.prems(1,2) False]] show ?thesis by (simp add: split_beta)
  qed
qed simp

lemma run_fresh:
  "ok s \<Longrightarrow> distinct (fst (run_steps step ops s)) \<and>
     (\<forall>h \<in> set (fst (run_steps step ops s)). \<not> live h s \<and> \<not> spent h s)"
proof (induction ops arbitrary: s)
  case (Cons op ops)
  define s1 where "s1 = snd (step op s)"
  note ok1 = ok_step [OF Cons.prems, of op, folded s1_def]
  have later: "\<not> live h s \<and> \<not> spent h s" if "h \<in> set (fst (run_steps step ops s1))" for h
    using Cons.IH [OF ok1] that ended_spent [OF Cons.prems, of h op, folded s1_def]
      spent_step [OF Cons.prems, of h op, folded s1_def] by blast
  show ?case
  proof (cases "fst (step op s)")
    case None
    with Cons.IH [OF ok1] later show ?thesis by (simp add: split_beta s1_def)
  next
    case (Some h)
    note fresh = issued_fresh [OF Cons.prems Some, folded s1_def]
    with Cons.IH [OF ok1] have "h \<notin> set (fst (run_steps step ops s1))" by blast
    with Some Cons.IH [OF ok1] later fresh show ?thesis by (simp add: split_beta s1_def)
  qed
qed simp

lemma run_issued:
  "ok s \<Longrightarrow> h \<in> set (fst (run_steps step ops s)) \<Longrightarrow>
     live h (snd (run_steps step ops s)) \<or> spent h (snd (run_steps step ops s))"
proof (induction ops arbitrary: s)
  case (Cons op ops)
  define s1 where "s1 = snd (step op s)"
  note ok1 = ok_step [OF Cons.prems(1), of op, folded s1_def]
  have "h \<in> set (fst (run_steps step ops s1)) \<or> fst (step op s) = Some h"
    using Cons.prems(2) by (auto simp: s1_def split_beta split: option.splits)
  then show ?case
  proof
    assume "fst (step op s) = Some h"
    then have "live h s1" using issued_fresh [OF Cons.prems(1)] by (simp add: s1_def)
    with run_ended [OF ok1] show ?thesis by (auto simp: s1_def split_beta)
  qed (use Cons.IH [OF ok1] in \<open>simp add: s1_def split_beta\<close>)
qed simp

lemma run_dead:
  assumes "ok s" and "h \<in> set (fst (run_steps step ops s))" and "\<not> live h (snd (run_steps step ops s))"
  shows "\<not> live h (snd (run_steps step later (snd (run_steps step ops s))))"
  using run_issued [OF assms(1,2)] assms(3) run_spent [OF run_ok [OF assms(1)]] spent_dead by blast

end

text \<open>Every operation of the platform.\<close>

datatype platform_op =
    Op_Accept | Op_Abort connection_handle | Op_Close connection_handle | Op_Progress
  | Op_Configure network_config | Op_Availability | Op_Begin u16 | Op_IsListening | Op_HasPending
  | Op_Read nat nat | Op_Write nat bytes | Op_Flush nat | Op_State nat

fun platform_step ::
    "('c, 'n) qnethernet \<Rightarrow> platform_op \<Rightarrow> ('c, 'n) platform \<Rightarrow>
     connection_handle option \<times> ('c, 'n) platform" where
  "platform_step Q Op_Accept sn =
     (case accept_qn Q sn of
        (h, sn1) \<Rightarrow> (if isValidConnectionHandle h then Some h else None, sn1))"
| "platform_step Q (Op_Abort h) sn = (None, abort_qn Q h sn)"
| "platform_step Q (Op_Close h) sn = (None, close_qn Q h sn)"
| "platform_step Q Op_Progress sn = (None, progress_qn Q sn)"
| "platform_step Q (Op_Configure c) sn = (None, (configure_qn c (fst sn), snd sn))"
| "platform_step Q Op_Availability sn = (None, snd (availability_qn Q sn))"
| "platform_step Q (Op_Begin p) sn = (None, snd (begin_qn Q p sn))"
| "platform_step Q Op_IsListening sn = (None, snd (isListening_qn Q sn))"
| "platform_step Q Op_HasPending sn = (None, snd (hasPendingConnection_qn Q sn))"
| "platform_step Q (Op_Read t k) sn = (None, snd (on_client (readSome_qn Q k) t sn))"
| "platform_step Q (Op_Write t d) sn = (None, snd (on_client (writeSome_qn Q d) t sn))"
| "platform_step Q (Op_Flush t) sn = (None, snd (on_client (flush_qn Q) t sn))"
| "platform_step Q (Op_State t) sn = (None, snd (on_client (connectionState_qn Q) t sn))"

definition platform_live :: "connection_handle \<Rightarrow> ('c, 'n) platform \<Rightarrow> bool" where
  "platform_live h sn \<longleftrightarrow> lookup h (fst sn) \<noteq> None"

text \<open>A slot's generation has passed the handle's, or the slot is out of use.\<close>

definition platform_spent :: "connection_handle \<Rightarrow> ('c, 'n) platform \<Rightarrow> bool" where
  "platform_spent h sn \<longleftrightarrow>
     (let slots = qs_slots (fst sn); i = unat (ch_slot h) in
      isValidConnectionHandle h \<and> i < length slots \<and>
      (sl_retired (slots ! i) \<or> ch_generation h < sl_generation (slots ! i)))"

definition platform_ok :: "('c, 'n) platform \<Rightarrow> bool" where
  "platform_ok sn \<longleftrightarrow>
     length (qs_slots (fst sn)) = kConnectionSlotCount \<and>
     (\<forall>i < kConnectionSlotCount. sl_active (qs_slots (fst sn) ! i) \<longrightarrow>
        sl_generation (qs_slots (fst sn) ! i) \<noteq> 0 \<and> \<not> sl_retired (qs_slots (fst sn) ! i))"

text \<open>The part of a slot the handles depend on.\<close>

definition slot_tags :: "('c, 'n) platform \<Rightarrow> (u32 \<times> bool \<times> bool) list" where
  "slot_tags sn = map (\<lambda>sl. (sl_generation sl, sl_active sl, sl_retired sl)) (qs_slots (fst sn))"

lemma slot_tags_nth:
  assumes "slot_tags sn' = slot_tags sn" and "i < length (qs_slots (fst sn))"
  shows "length (qs_slots (fst sn')) = length (qs_slots (fst sn))"
    "sl_generation (qs_slots (fst sn') ! i) = sl_generation (qs_slots (fst sn) ! i)"
    "sl_active (qs_slots (fst sn') ! i) = sl_active (qs_slots (fst sn) ! i)"
    "sl_retired (qs_slots (fst sn') ! i) = sl_retired (qs_slots (fst sn) ! i)"
proof -
  show len: "length (qs_slots (fst sn')) = length (qs_slots (fst sn))"
    using arg_cong [OF assms(1), of length] by (simp add: slot_tags_def)
  have "slot_tags sn' ! i = slot_tags sn ! i" using assms(1) by simp
  then show "sl_generation (qs_slots (fst sn') ! i) = sl_generation (qs_slots (fst sn) ! i)"
    "sl_active (qs_slots (fst sn') ! i) = sl_active (qs_slots (fst sn) ! i)"
    "sl_retired (qs_slots (fst sn') ! i) = sl_retired (qs_slots (fst sn) ! i)"
    using assms(2) len by (simp_all add: slot_tags_def)
qed

lemma slot_tags_length: "slot_tags sn' = slot_tags sn \<Longrightarrow> length (qs_slots (fst sn')) = length (qs_slots (fst sn))"
  by (drule arg_cong [of _ _ length]) (simp add: slot_tags_def)

lemma same_tags:
  assumes "slot_tags sn' = slot_tags sn"
  shows "platform_live h sn' = platform_live h sn \<and> platform_spent h sn' = platform_spent h sn \<and>
     (platform_ok sn \<longrightarrow> platform_ok sn')"
proof -
  note len = slot_tags_length [OF assms]
  note nth = slot_tags_nth(2-4) [OF assms]
  have "platform_ok sn \<longrightarrow> platform_ok sn'"
    using len nth by (simp add: platform_ok_def)
  moreover have "platform_live h sn' = platform_live h sn" "platform_spent h sn' = platform_spent h sn"
    using len nth by (auto simp: platform_live_def lookup_def platform_spent_def Let_def not_le)
  ultimately show ?thesis by blast
qed

lemma on_client_tags: "slot_tags (snd (on_client f t sn)) = slot_tags sn"
proof (cases "t < length (qs_slots (fst sn))")
  case True
  then show ?thesis
    by (auto simp: on_client_def slot_tags_def split_beta intro!: nth_equalityI simp: nth_list_update)
next
  case False
  then show ?thesis by (simp add: on_client_def slot_tags_def split_beta list_update_beyond)
qed

lemma hasPending_slots: "qs_slots (fst (snd (hasPendingConnection_qn Q sn))) = qs_slots (fst sn)"
  by (auto simp: hasPendingConnection_qn_def isListening_qn_def cachePendingConnection_def
      split: prod.split bool.split)

lemma quiet_tags:
  "slot_tags (progress_qn Q sn) = slot_tags sn"
  "slot_tags (configure_qn c (fst sn), snd sn) = slot_tags sn"
  "slot_tags (snd (availability_qn Q sn)) = slot_tags sn"
  "slot_tags (snd (begin_qn Q p sn)) = slot_tags sn"
  "slot_tags (snd (isListening_qn Q sn)) = slot_tags sn"
  "slot_tags (snd (hasPendingConnection_qn Q sn)) = slot_tags sn"
proof -
  show "slot_tags (snd (hasPendingConnection_qn Q sn)) = slot_tags sn"
    by (simp add: slot_tags_def hasPending_slots)
  have "slot_tags (snd (availability_qn Q sn)) = slot_tags sn" for sn :: "('a, 'b) platform"
    by (auto simp: slot_tags_def availability_qn_def split: prod.split bool.split)
  then show av: "slot_tags (snd (availability_qn Q sn)) = slot_tags sn" .
  obtain a s n where eq: "availability_qn Q sn = (a, (s, n))" by (metis surj_pair)
  with av show "slot_tags (snd (begin_qn Q p sn)) = slot_tags sn"
    by (simp add: begin_qn_def slot_tags_def split: prod.split)
qed (auto simp: slot_tags_def progress_qn_def beginInterfaceIfNeeded_def configure_qn_def isListening_qn_def
    Let_def split: prod.split)

lemma firstReusableSlot_spec:
  "firstReusableSlot slots < length slots \<Longrightarrow>
     \<not> sl_active (slots ! firstReusableSlot slots) \<and> \<not> sl_retired (slots ! firstReusableSlot slots)"
  by (induction slots) auto

lemma accept_cases:
  assumes "platform_ok sn" and "platform_step Q Op_Accept sn = (issued, sn')"
  obtains (none) "issued = None" "slot_tags sn' = slot_tags sn"
  | (some) h i c where "issued = Some h" "i < kConnectionSlotCount" "unat (ch_slot h) = i"
      "isValidConnectionHandle h"
      "\<not> sl_active (qs_slots (fst sn) ! i)" "\<not> sl_retired (qs_slots (fst sn) ! i)"
      "ch_generation h = (if sl_generation (qs_slots (fst sn) ! i) = 0 then 1
         else sl_generation (qs_slots (fst sn) ! i))"
      "qs_slots (fst sn') = (qs_slots (fst sn))[i := (qs_slots (fst sn) ! i)
         \<lparr>sl_generation := ch_generation h, sl_client := c, sl_active := True\<rparr>]"
proof -
  obtain p s n where hp: "hasPendingConnection_qn Q sn = (p, (s, n))" by (metis surj_pair)
  have slots: "qs_slots s = qs_slots (fst sn)" using hasPending_slots [of Q sn] hp by simp
  let ?i = "firstReusableSlot (qs_slots s)"
  show ?thesis
  proof (cases "p \<and> ?i < length (qs_slots s)")
    case False
    then have "accept_qn Q sn = (kInvalidConnection, (s, n))"
      by (auto simp: accept_qn_def hp Let_def split: bool.split)
    with assms(2) slots show ?thesis by (intro none) (auto simp: slot_tags_def)
  next
    case True
    obtain c1 n1 where c1: "qn_disableTimeout Q (qs_pending_client s) n = (c1, n1)" by (metis surj_pair)
    obtain ok c2 n2 where c2: "qn_setNoDelay Q c1 n1 = (ok, c2, n2)" by (metis surj_pair)
    obtain c3 n4 where c3: "reset_qn Q c2 (if ok then n2 else logNoDelayFailure Q n2) = (c3, n4)"
      by (metis surj_pair)
    define g where "g = (if sl_generation (qs_slots s ! ?i) = 0 then 1 else sl_generation (qs_slots s ! ?i))"
    define h where "h = \<lparr>ch_slot = of_nat ?i, ch_generation = g\<rparr>"
    have acc: "fst (accept_qn Q sn) = h" "qs_slots (fst (snd (accept_qn Q sn))) =
        (qs_slots s)[?i := (qs_slots s ! ?i)\<lparr>sl_generation := g, sl_client := c3, sl_active := True\<rparr>]"
      using True by (simp_all add: accept_qn_def hp Let_def c1 c2 c3 g_def h_def)
    have i: "?i < 2" using True assms(1) slots by (simp add: platform_ok_def kConnectionSlotCount_def)
    then have u: "unat (ch_slot h) = ?i" by (simp add: h_def unat_of_nat)
    have "ch_slot h \<noteq> 0xFF"
    proof
      assume "ch_slot h = 0xFF"
      then have "unat (ch_slot h) = 255" by simp
      with u i show False by simp
    qed
    then have valid: "isValidConnectionHandle h"
      by (simp add: isValidConnectionHandle_def kInvalidConnection_def h_def g_def)
    show ?thesis
      by (rule some [of h ?i c3])
        (use assms(2) acc valid u i firstReusableSlot_spec [of "qs_slots s"] True slots
          in \<open>auto simp: split_beta g_def h_def kConnectionSlotCount_def\<close>)
  qed
qed

text \<open>Ending a connection moves its slot past the handle's generation, or retires the slot.\<close>

lemma lookup_Some:
  "lookup h s = Some i \<longleftrightarrow>
     i = unat (ch_slot h) \<and> isValidConnectionHandle h \<and> i < length (qs_slots s) \<and>
     sl_active (qs_slots s ! i) \<and> \<not> sl_retired (qs_slots s ! i) \<and>
     sl_generation (qs_slots s ! i) = ch_generation h"
  by (auto simp: lookup_def Let_def)

lemma u32_next: "(g :: u32) \<noteq> 0xFFFFFFFF \<Longrightarrow> g < g + 1"
proof -
  assume a: "g \<noteq> 0xFFFFFFFF"
  have "uint g \<noteq> 2 ^ 32 - 1"
  proof
    assume "uint g = 2 ^ 32 - 1"
    then have "uint g = uint (0xFFFFFFFF :: u32)" by simp
    with a show False by (simp only: word_uint_eq_iff)
  qed
  then have "uint g + 1 < 2 ^ 32" using uint_lt2p [of g] by simp
  then have "uint (g + 1) = uint g + 1" by (simp add: uint_word_ariths)
  then show ?thesis by (simp add: word_less_def)
qed

lemma drop_cases:
  assumes "sn' = abort_qn Q h sn \<or> sn' = close_qn Q h sn"
  obtains (none) "lookup h (fst sn) = None" "slot_tags sn' = slot_tags sn"
  | (some) i c where "lookup h (fst sn) = Some i"
      "qs_slots (fst sn') = (qs_slots (fst sn))[i := invalidate_slot ((qs_slots (fst sn) ! i)\<lparr>sl_client := c\<rparr>)]"
proof (cases "lookup h (fst sn)")
  case None
  with assms show ?thesis
    by (intro none) (auto simp: abort_qn_def close_qn_def slot_tags_def split: prod.split)
next
  case (Some i)
  with assms obtain c where "qs_slots (fst sn') =
      (qs_slots (fst sn))[i := invalidate_slot ((qs_slots (fst sn) ! i)\<lparr>sl_client := c\<rparr>)]"
    by (auto simp: abort_qn_def close_qn_def split: prod.splits)
  with Some show ?thesis by (rule some)
qed

lemma invalidate_slot_simps:
  "\<not> sl_active (invalidate_slot sl)"
  "sl_retired (invalidate_slot sl) \<or> sl_generation sl < sl_generation (invalidate_slot sl)"
  "sl_retired sl \<Longrightarrow> sl_retired (invalidate_slot sl)"
  using u32_next [of "sl_generation sl"] by (auto simp: invalidate_slot_def Let_def)

text \<open>How one slot may change in a step, and that this is all that handles need.\<close>

definition slot_advances :: "'c slot \<Rightarrow> 'c slot \<Rightarrow> bool" where
  "slot_advances old new \<longleftrightarrow>
     (sl_retired old \<longrightarrow> sl_retired new) \<and>
     (sl_retired new \<or> sl_generation old \<le> sl_generation new) \<and>
     (sl_active old \<longrightarrow> sl_active new \<and> sl_generation new = sl_generation old \<and> sl_retired new = sl_retired old \<or>
        sl_retired new \<or> sl_generation old < sl_generation new) \<and>
     (sl_active new \<longrightarrow> sl_generation new \<noteq> 0 \<and> \<not> sl_retired new)"

lemma step_advances:
  assumes "platform_ok sn" and "platform_step Q op sn = (issued, sn')"
  shows "length (qs_slots (fst sn')) = length (qs_slots (fst sn)) \<and>
     (\<forall>i < kConnectionSlotCount. slot_advances (qs_slots (fst sn) ! i) (qs_slots (fst sn') ! i))"
proof -
  have refl: "slot_advances (qs_slots (fst sn) ! i) (qs_slots (fst sn) ! i)" if "i < kConnectionSlotCount" for i
    using assms(1) that by (auto simp: slot_advances_def platform_ok_def)
  have len: "length (qs_slots (fst sn)) = kConnectionSlotCount" using assms(1) by (simp add: platform_ok_def)
  have same: ?thesis if "slot_tags sn' = slot_tags sn"
    using slot_tags_length [OF that] slot_tags_nth(2-4) [OF that] refl len by (simp add: slot_advances_def)
  have drop: ?thesis if "sn' = abort_qn Q h sn \<or> sn' = close_qn Q h sn" for h
    using that
  proof (cases rule: drop_cases)
    case (some i c)
    note inv = invalidate_slot_simps [of "(qs_slots (fst sn) ! i)\<lparr>sl_client := c\<rparr>"]
    have "slot_advances (qs_slots (fst sn) ! i) (invalidate_slot ((qs_slots (fst sn) ! i)\<lparr>sl_client := c\<rparr>))"
      using inv by (auto simp: slot_advances_def)
    with some refl len show ?thesis by (auto simp: nth_list_update lookup_Some)
  qed (rule same)
  show ?thesis
  proof (cases "op = Op_Accept")
    case True
    from assms(1) assms(2) [unfolded True] show ?thesis
    proof (cases rule: accept_cases)
      case (some h i c)
      have "slot_advances (qs_slots (fst sn) ! i) ((qs_slots (fst sn) ! i)
         \<lparr>sl_generation := ch_generation h, sl_client := c, sl_active := True\<rparr>)"
        using some by (auto simp: slot_advances_def)
      with some refl len show ?thesis by (auto simp: nth_list_update)
    qed (rule same)
  next
    case False
    with assms(2) have "slot_tags sn' = slot_tags sn \<or> (\<exists>h. sn' = abort_qn Q h sn \<or> sn' = close_qn Q h sn)"
      by (cases op) (auto simp: quiet_tags on_client_tags)
    with same drop show ?thesis by blast
  qed
qed

interpretation ct: connection_table "platform_step Q" platform_live platform_spent platform_ok
  for Q :: "('c, 'n) qnethernet"
proof unfold_locales
  fix sn :: "('c, 'n) platform" and op h
  assume ok: "platform_ok sn"
  obtain issued sn' where st: "platform_step Q op sn = (issued, sn')" by (cases "platform_step Q op sn")
  note adv = step_advances [OF ok st]
  have len: "length (qs_slots (fst sn)) = kConnectionSlotCount" using ok by (simp add: platform_ok_def)
  show "platform_ok (snd (platform_step Q op sn))"
    using adv len by (auto simp: st platform_ok_def slot_advances_def)
  show "platform_spent h (snd (platform_step Q op sn))" if "platform_spent h sn"
    using that adv len by (auto simp: st platform_spent_def slot_advances_def Let_def)
  show "platform_spent h (snd (platform_step Q op sn))"
    if "platform_live h sn" "\<not> platform_live h (snd (platform_step Q op sn))"
  proof -
    define i where "i = unat (ch_slot h)"
    have l: "isValidConnectionHandle h" "i < kConnectionSlotCount" "sl_active (qs_slots (fst sn) ! i)"
      "\<not> sl_retired (qs_slots (fst sn) ! i)" "sl_generation (qs_slots (fst sn) ! i) = ch_generation h"
      using that(1) len by (auto simp: platform_live_def lookup_Some i_def)
    have "slot_advances (qs_slots (fst sn) ! i) (qs_slots (fst sn') ! i)" using adv l(2) by blast
    moreover have "\<not> (sl_active (qs_slots (fst sn') ! i) \<and> \<not> sl_retired (qs_slots (fst sn') ! i) \<and>
        sl_generation (qs_slots (fst sn') ! i) = ch_generation h)"
      using that(2) l adv len by (auto simp: st platform_live_def lookup_def Let_def i_def)
    ultimately show ?thesis
      using l adv len by (auto simp: st platform_spent_def slot_advances_def Let_def i_def)
  qed
  show "platform_live h (snd (platform_step Q op sn)) \<and> \<not> platform_live h sn \<and> \<not> platform_spent h sn"
    if "fst (platform_step Q op sn) = Some h"
  proof -
    have op: "op = Op_Accept" using that by (cases op) simp_all
    from ok st [unfolded op] show ?thesis
    proof (cases rule: accept_cases)
      case none
      with that st show ?thesis by simp
    next
      case (some h' i c)
      with that st have "h' = h" by simp
      with some len show ?thesis
        by (auto simp: st platform_live_def platform_spent_def lookup_def Let_def)
    qed
  qed
next
  fix h and sn :: "('c, 'n) platform"
  show "platform_spent h sn \<Longrightarrow> \<not> platform_live h sn"
    by (auto simp: platform_spent_def platform_live_def lookup_def Let_def)
qed

section \<open>Properties\<close>

lemma new_network_server_ok: "platform_ok (new_network_server Q, n)"
  by (simp add: platform_ok_def new_network_server_def kConnectionSlotCount_def)

text \<open>
  C23: connection handles are never confused. Over any sequence of operations of the network server
  and its transports, whatever the Ethernet library does, every handle \<open>accept\<close> gives out is
  different from all others, it is valid and designates a connection when it is given, and once
  the connection was closed or aborted no later operation makes the handle designate one again.
\<close>

theorem handles_never_reused:
  assumes "run_steps (platform_step Q) ops (new_network_server Q, n) = (hs, sn)"
  shows "distinct hs \<and>
     (\<forall>h \<in> set hs. platform_live h sn \<or> platform_spent h sn) \<and>
     (\<forall>h \<in> set hs. \<forall>later. lookup h (fst sn) = None \<longrightarrow>
        lookup h (fst (snd (run_steps (platform_step Q) later sn))) = None)"
  using ct.run_fresh [OF new_network_server_ok, of Q ops Q n] ct.run_issued [OF new_network_server_ok, of _ Q ops Q n]
    ct.run_dead [OF new_network_server_ok, of _ Q ops Q n] assms
  by (simp add: platform_live_def)

text \<open>A library with one peer that connects at once, on a network that is up.\<close>

definition sample_qn :: "(bool, nat) qnethernet" where
  "sample_qn =
     \<lparr>qn_millis = (\<lambda>n. (of_nat n, n)), qn_micros = (\<lambda>n. (of_nat n, n)), qn_yield = Suc,
      qn_loop = (\<lambda>n. n), qn_linkOff = (\<lambda>n. (False, n)), qn_localIP = (\<lambda>n. (1, n)),
      qn_INADDR_NONE = 0xFFFFFFFF, qn_begin_dhcp = (\<lambda>n. (True, n)),
      qn_begin_static = (\<lambda>a b c n. (True, n)), qn_beginWithReuse = (\<lambda>p n. (True, n)),
      qn_serverListening = (\<lambda>n. (True, n)), qn_accept = (\<lambda>n. (True, n)), qn_noClient = False,
      qn_connected = (\<lambda>c n. (c, c, n)), qn_disableTimeout = (\<lambda>c n. (c, n)),
      qn_setNoDelay = (\<lambda>c n. (True, c, n)), qn_available = (\<lambda>c n. (0, c, n)),
      qn_read = (\<lambda>k c n. ((0, []), c, n)), qn_write = (\<lambda>d c n. (length d, c, n)),
      qn_flush = (\<lambda>c n. (c, n)), qn_close = (\<lambda>c n. (False, n)), qn_abort = (\<lambda>c n. (False, n)),
      qn_serialReady = (\<lambda>n. (False, n)), qn_serialWrite = (\<lambda>d n. n)\<rparr>"

lemma handles_never_reused_witness:
  "\<exists>hs sn. run_steps (platform_step sample_qn)
       [Op_Configure \<lparr>nc_mode = Dhcp, nc_listen_port = 80, nc_ip = (0, 0, 0, 0), nc_gateway = (0, 0, 0, 0),
          nc_subnet = (0, 0, 0, 0)\<rparr>, Op_Progress, Op_Begin 80, Op_Accept,
        Op_Abort \<lparr>ch_slot = 0, ch_generation = 1\<rparr>, Op_Accept]
       (new_network_server sample_qn, 0) = (hs, sn) \<and>
     hs = [\<lparr>ch_slot = 0, ch_generation = 1\<rparr>, \<lparr>ch_slot = 0, ch_generation = 2\<rparr>] \<and> distinct hs"
proof -
  let ?ops = "[Op_Configure \<lparr>nc_mode = Dhcp, nc_listen_port = 80, nc_ip = (0, 0, 0, 0),
      nc_gateway = (0, 0, 0, 0), nc_subnet = (0, 0, 0, 0)\<rparr>, Op_Progress, Op_Begin 80, Op_Accept,
      Op_Abort \<lparr>ch_slot = 0, ch_generation = 1\<rparr>, Op_Accept]"
  obtain hs sn where run: "run_steps (platform_step sample_qn) ?ops (new_network_server sample_qn, 0) = (hs, sn)"
    by (cases "run_steps (platform_step sample_qn) ?ops (new_network_server sample_qn, 0)")
  have two: "replicate 2 x = [x, x]" for x :: "bool slot" by (simp add: numeral_2_eq_2)
  from run have "hs = [\<lparr>ch_slot = 0, ch_generation = 1\<rparr>, \<lparr>ch_slot = 0, ch_generation = 2\<rparr>]"
    by (simp add: configure_qn_def progress_qn_def beginInterfaceIfNeeded_def begin_qn_def
        availability_qn_def hasAddress_def accept_qn_def hasPendingConnection_qn_def isListening_qn_def
        cachePendingConnection_def reset_qn_def abort_qn_def abort_transport_qn_def lookup_def
        invalidate_slot_def new_network_server_def sample_qn_def kConnectionSlotCount_def
        isValidConnectionHandle_def kInvalidConnection_def Let_def two)
  with run handles_never_reused [OF run] show ?thesis by blast
qed

lemma widened_wrap:
  assumes "t1 < (t0 :: u32)"
  shows "2 ^ 63 < (ucast t1 :: u64) - ucast t0"
proof -
  have lt: "uint t1 < uint t0" using assms by (simp add: word_less_def)
  have nn: "0 \<le> uint t1" by simp
  have b: "uint t0 < 4294967296" using uint_lt2p [of t0] by simp
  define a c where "a = uint t1" and "c = uint t0"
  note u = lt [folded a_def c_def] nn [folded a_def] b [folded c_def]
  have ua: "uint (ucast t1 :: u64) = a" "uint (ucast t0 :: u64) = c"
    by (simp_all add: a_def c_def uint_up_ucast is_up)
  have "uint ((ucast t1 :: u64) - ucast t0) = (a - c) mod 18446744073709551616"
    by (simp add: uint_word_ariths(2) ua)
  moreover have "(a - c) mod 18446744073709551616 = (a - c + 18446744073709551616) mod 18446744073709551616" by simp
  moreover have "(a - c + 18446744073709551616) mod 18446744073709551616 = a - c + 18446744073709551616"
    by (rule mod_pos_pos_trivial) (use u in linarith)+
  ultimately have "uint ((ucast t1 :: u64) - ucast t0) = a - c + 18446744073709551616" by (simp only:)
  then have "9223372036854775808 < uint ((ucast t1 :: u64) - ucast t0)" using u by linarith
  then show ?thesis by (simp add: word_less_def)
qed

text \<open>
  C39: the platform clock is not monotonic. \<open>millis()\<close> and \<open>micros()\<close> wrap at 32 bits, the readings
  are widened but not extended, and every duration is a 64-bit difference. Two readings on either
  side of a wrap, however close in time, are more than \<open>2^63\<close> apart: a transmit that began just before
  it is over its deadline at once, and a hook over its budget.
\<close>

theorem clock_wrap_breaks_durations:
  assumes "fst (qn_millis Q n1) < fst (qn_millis Q n0)" and "fst (qn_micros Q m1) < fst (qn_micros Q m0)"
  shows "deadlineExpired (fst (monotonicMilliseconds (qn_env Q B) (s, n0)))
       (fst (monotonicMilliseconds (qn_env Q B) (s', n1))) \<and>
     2 ^ 63 < fst (monotonicMicroseconds (qn_env Q B) (s, m1)) - fst (monotonicMicroseconds (qn_env Q B) (s', m0)) \<and>
     kHookBudgetMs * 1000 <
       fst (monotonicMicroseconds (qn_env Q B) (s, m1)) - fst (monotonicMicroseconds (qn_env Q B) (s', m0))"
proof -
  note far = widened_wrap
  have ms: "fst (monotonicMilliseconds (qn_env Q B) (s, n)) = ucast (fst (qn_millis Q n))"
    "fst (monotonicMicroseconds (qn_env Q B) (s, n)) = ucast (fst (qn_micros Q n))" for s n
    by (simp_all add: qn_env_def on_library_def monotonicMilliseconds_qn_def monotonicMicroseconds_qn_def
        split_beta)
  have small: "kTransmitDeadlineMs \<le> 2 ^ 63" "kHookBudgetMs * 1000 \<le> (2 ^ 63 :: u64)"
    by (simp_all add: limits word_le_def)
  from far [OF assms(1)] far [OF assms(2)] small show ?thesis
    by (auto simp: ms deadlineExpired_def intro: order.trans order.strict_trans1 less_imp_le)
qed

lemma clock_wrap_breaks_durations_witness:
  "\<forall>B s s'. deadlineExpired (fst (monotonicMilliseconds (qn_env sample_qn B) (s, 4294967295)))
     (fst (monotonicMilliseconds (qn_env sample_qn B) (s', 4294967296)))"
proof (intro allI)
  fix B s s'
  show "deadlineExpired (fst (monotonicMilliseconds (qn_env sample_qn B) (s, 4294967295)))
     (fst (monotonicMilliseconds (qn_env sample_qn B) (s', 4294967296)))"
    using clock_wrap_breaks_durations [of sample_qn 4294967296 4294967295 4294967296 4294967295 B s s']
    by (simp add: sample_qn_def word_less_def)
qed

end
