(* ===== verification/Quiet.thy ===== *)
theory Quiet
  imports TeensyCommandServer
begin

text \<open>
  Which calls of the environment the parts of the server make. \<open>quiet E w w'\<close>: the world went from
  \<open>w\<close> to \<open>w'\<close> by calls of the clock, the transports, the board and the network server other than
  \<open>accept\<close> and \<open>abort\<close>, the two that begin and end a connection. Everything except the polling and
  the teardown of the session driver is quiet.
\<close>

section \<open>Quiet steps\<close>

inductive quiet :: "'w env \<Rightarrow> 'w \<Rightarrow> 'w \<Rightarrow> bool" for E :: "'w env" and w :: 'w where
  quiet_refl: "quiet E w w"
| quiet_ms: "monotonicMilliseconds E w1 = (x, w2) \<Longrightarrow> quiet E w w1 \<Longrightarrow> quiet E w w2"
| quiet_us: "monotonicMicroseconds E w1 = (x, w2) \<Longrightarrow> quiet E w w1 \<Longrightarrow> quiet E w w2"
| quiet_progress: "quiet E w w1 \<Longrightarrow> quiet E w (progress E w1)"
| quiet_availability: "availability E w1 = (a, w2) \<Longrightarrow> quiet E w w1 \<Longrightarrow> quiet E w w2"
| quiet_begin: "net_begin E port w1 = (b, w2) \<Longrightarrow> quiet E w w1 \<Longrightarrow> quiet E w w2"
| quiet_isListening: "isListening E w1 = (b, w2) \<Longrightarrow> quiet E w w1 \<Longrightarrow> quiet E w w2"
| quiet_hasPending: "hasPendingConnection E w1 = (b, w2) \<Longrightarrow> quiet E w w1 \<Longrightarrow> quiet E w w2"
| quiet_transport: "transport E h w1 = (p, w2) \<Longrightarrow> quiet E w w1 \<Longrightarrow> quiet E w w2"
| quiet_read: "readSome E t k w1 = (bs, w2) \<Longrightarrow> quiet E w w1 \<Longrightarrow> quiet E w w2"
| quiet_write: "writeSome E t data w1 = (k, w2) \<Longrightarrow> quiet E w w1 \<Longrightarrow> quiet E w w2"
| quiet_flush: "flush E t w1 = (b, w2) \<Longrightarrow> quiet E w w1 \<Longrightarrow> quiet E w w2"
| quiet_state: "connectionState E t w1 = (st, w2) \<Longrightarrow> quiet E w w1 \<Longrightarrow> quiet E w w2"
| quiet_hook: "safetyHook E n w1 = (safe, w2) \<Longrightarrow> quiet E w w1 \<Longrightarrow> quiet E w w2"
| quiet_provider: "telemetryProvider E n ow w1 = (ok, ow', w2) \<Longrightarrow> quiet E w w1 \<Longrightarrow> quiet E w w2"
| quiet_handler: "commandHandler E n seq args ow w1 = (res, ow', w2) \<Longrightarrow> quiet E w w1 \<Longrightarrow> quiet E w w2"

lemma quiet_trans: "quiet E w1 w2 \<Longrightarrow> quiet E w2 w3 \<Longrightarrow> quiet E w1 w3"
proof -
  assume q: "quiet E w1 w2"
  assume "quiet E w2 w3"
  then show ?thesis by induction (blast intro: quiet.intros q)+
qed

lemma quiet_send_step:
  assumes IH: "\<And>E t line start_ms taken w r. loop E t line start_ms taken w = Some r \<Longrightarrow> quiet E w (snd r)"
    and body: "(if length line \<le> taken then Some (Ended_Past, w)
      else case monotonicMilliseconds E w of
        (now, w1) \<Rightarrow>
          if deadlineExpired start_ms now then Some (Ended_Deadline, w1)
          else case writeSome E t (drop taken line) w1 of
            (written, w2) \<Rightarrow>
              if taken + written = length line
              then Some (Ended_Flushed, snd (flush E t w2))
              else loop E t line start_ms (taken + written) (progress E w2)) = Some r"
  shows "quiet E w (snd r)"
proof -
  obtain now w1 where ms: "monotonicMilliseconds E w = (now, w1)" by (cases "monotonicMilliseconds E w")
  obtain k w2 where wr: "writeSome E t (drop taken line) w1 = (k, w2)"
    by (cases "writeSome E t (drop taken line) w1")
  obtain b w3 where fl: "flush E t w2 = (b, w3)" by (cases "flush E t w2")
  note q1 = quiet_ms [OF ms quiet_refl]
  note q2 = quiet_write [OF wr q1]
  note q = q1 q2 quiet_flush [OF fl q2] quiet_progress [OF q2]
  from body show ?thesis
    by (auto simp: ms wr fl q quiet_refl split: if_splits dest!: IH intro: quiet_trans [OF q(4)])
qed

lemma send_loop_quiet:
  assumes "send_loop E t line start_ms taken w = Some r"
  shows "quiet E w (snd r)"
  by (rule send_loop.raw_induct [where P = "\<lambda>E t line start_ms taken w r. quiet E w (snd r)", OF _ assms])
    (rule quiet_send_step, assumption+)

lemma sendLine_quiet:
  assumes "sendLine E line mc (wr, c, w) = Some (r, (wr', c', w'))"
  shows "quiet E w w'"
proof -
  have *: "quiet E w w'" if v: "sendValidLine E t l mc (wr, c, w) = Some (r, (wr', c', w'))"
    for t l wr wr'
  proof -
    obtain now w1 where ms: "monotonicMilliseconds E w = (now, w1)" by (cases "monotonicMilliseconds E w")
    from v obtain e where "send_loop E t l now 0 w1 = Some (e, w')"
      by (auto simp: sendValidLine_def ms split: option.splits send_end.splits prod.splits)
    from quiet_trans [OF quiet_ms [OF ms quiet_refl] send_loop_quiet [OF this]] show ?thesis by simp
  qed
  show ?thesis
    using assms by (auto simp: sendLine_def quiet_refl split: if_splits option.splits prod.splits dest!: *)
qed

lemma quiet_read_step:
  assumes IH: "\<And>E t f c w r. loop E t f c w = Some r \<Longrightarrow> quiet E w (snd (snd (snd r)))"
    and body: "(if hasLine f then Some (Read_Done, f, c, w)
      else case connectionState E t w of
        (st, w1) \<Rightarrow>
          if st = Closed then Some (Read_Loss ConnectionLost, f, c, w1)
          else if st = LinkDown then Some (Read_Loss LinkLost, f, c, w1)
          else if st \<noteq> BytesAvailable then Some (Read_Done, f, c, w1)
          else case readSome E t 64 w1 of
            (read, w2) \<Rightarrow>
              if read = [] then Some (Read_Empty, f, c, w2)
              else case append_framer read (c, f) of
                (_, (c1, f1)) \<Rightarrow> loop E t f1 c1 w2) = Some r"
  shows "quiet E w (snd (snd (snd r)))"
proof -
  obtain st w1 where cs: "connectionState E t w = (st, w1)" by (cases "connectionState E t w")
  obtain bs w2 where rd: "readSome E t 64 w1 = (bs, w2)" by (cases "readSome E t 64 w1")
  note q1 = quiet_state [OF cs quiet_refl]
  note q = q1 quiet_read [OF rd q1]
  from body show ?thesis
    by (auto simp: cs rd q quiet_refl split: if_splits prod.splits dest!: IH intro: quiet_trans [OF q(2)])
qed

lemma read_loop_quiet:
  assumes "read_loop E t f c w = Some (e, f', c', w')"
  shows "quiet E w w'"
proof -
  have "quiet E w (snd (snd (snd (e, f', c', w'))))"
    by (rule read_loop.raw_induct [where P = "\<lambda>E t f c w r. quiet E w (snd (snd (snd r)))", OF _ assms])
      (rule quiet_read_step, assumption+)
  then show ?thesis by simp
qed

text \<open>The lines that are stamped with the time.\<close>

lemma run_all_quiet:
  assumes "\<And>f l w. f \<in> set fs \<Longrightarrow> quiet E w (snd (snd (f (l, w))))"
  shows "quiet E w (snd (snd (run_all fs (l, w))))"
  using assms
proof (induction fs arbitrary: l w)
  case (Cons f fs)
  obtain ok l1 w1 where f: "f (l, w) = (ok, (l1, w1))" by (metis surj_pair)
  have "quiet E w w1" using Cons.prems [of f w l] f by simp
  moreover have "quiet E w1 (snd (snd (run_all fs (l1, w1))))"
    by (rule Cons.IH) (use Cons.prems in simp)
  ultimately show ?case by (auto simp: f intro: quiet_trans)
qed (simp add: quiet_refl)

lemma line_acts_quiet:
  "quiet E w (snd (snd (on_line f (l, w))))" "quiet E w (snd (snd (stamp E g (l, w))))"
  by (auto simp: on_line_def stamp_def intro: quiet.intros split: prod.split)

lemma appendEnvelopePrefix_quiet:
  "quiet E w (snd (snd (appendEnvelopePrefix E seq cts board st (l, w))))"
  unfolding appendEnvelopePrefix_def by (rule run_all_quiet) (auto simp: line_acts_quiet)

lemma built_line_quiet:
  "quiet E w (snd (snd (buildOkLine E board seq cts data us w)))"
  "quiet E w (snd (snd (buildErrorLine E board seq cts code msg w)))"
  "quiet E w (snd (snd (buildLine_tel E seq board data w)))"
proof -
  show "quiet E w (snd (snd (buildOkLine E board seq cts data us w)))"
    unfolding buildOkLine_def
    by (rule run_all_quiet) (auto simp: line_acts_quiet appendEnvelopePrefix_quiet)
  show "quiet E w (snd (snd (buildErrorLine E board seq cts code msg w)))"
    unfolding buildErrorLine_def
    by (rule run_all_quiet) (auto simp: line_acts_quiet appendEnvelopePrefix_quiet)
  show "quiet E w (snd (snd (buildLine_tel E seq board data w)))"
  proof (cases "length data < 2 \<or> hd data \<noteq> CHR ''{'' \<or> last data \<noteq> CHR ''}''")
    case True
    then show ?thesis by (auto simp: buildLine_tel_def quiet_refl)
  next
    case False
    show ?thesis unfolding buildLine_tel_def if_not_P [OF False]
      by (rule run_all_quiet) (auto simp: line_acts_quiet)
  qed
qed

section \<open>The handlers\<close>

lemma clock_quiet:
  "clock_us E clock w1 = (x, w2) \<Longrightarrow> quiet E w w1 \<Longrightarrow> quiet E w w2"
  "clock_ms E clock w1 = (x, w2) \<Longrightarrow> quiet E w w1 \<Longrightarrow> quiet E w w2"
  by (auto simp: clock_us_def clock_ms_def intro: quiet.intros split: if_splits)

lemma enqueueError_quiet:
  "quiet E w (snd (snd (snd (snd (enqueueError E seq cts code msg (d, c, s, w))))))"
  using built_line_quiet(2) [of E w "board_id (cd_identity d)" seq cts code msg]
  by (auto simp: enqueueError_def Let_def split: prod.split)

lemma call_handler_quiet:
  "call_handler E h seq args c w = (res, ow, w1) \<Longrightarrow> quiet E w w1"
  by (auto simp: call_handler_def quiet_refl intro: quiet.intros split: command_handler.splits prod.splits)

lemma dispatch_quiet:
  assumes "dispatch E registry command args us (d, c, s, w) = (teardown, (d', c', s', w'))"
  shows "quiet E w w'"
proof -
  have err: "quiet E w0 w2"
    if "enqueueError E seq cts code msg (d1, c1, s1, w1) = (td, (d2, c2, s2, w2))" "quiet E w0 w1"
    for w0 seq cts code msg d1 c1 s1 w1 td d2 c2 s2 w2
    using enqueueError_quiet [of E w1 seq cts code msg d1 c1 s1] that quiet_trans by fastforce
  show ?thesis
  proof (cases "findCommand registry (pc_command command)")
    case None
    with assms show ?thesis by (auto simp: dispatch_def Let_def quiet_refl dest!: err)
  next
    case (Some reg)
    show ?thesis
    proof (cases "validateArgs reg args")
      case v: (Some e)
      with assms Some show ?thesis
        by (auto simp: dispatch_def Let_def quiet_refl dest!: err split: prod.splits)
    next
      case v: None
      obtain res ow w1 where h: "call_handler E (sc_handler reg) (pc_seq command) args
          (increment commands_received_update c) w = (res, ow, w1)" by (metis surj_pair)
      note q1 = call_handler_quiet [OF h]
      obtain ready w2 where us: "monotonicMicroseconds E w1 = (ready, w2)"
        by (cases "monotonicMicroseconds E w1")
      have q2: "quiet E w w2" using us q1 by (rule quiet_us)
      obtain closed r where cl: "(if objectWriterFailed ow then (False, ow) else close_ow ow) = (closed, r)"
        by (metis surj_pair)
      obtain built line w3 where b: "buildOkLine E (board_id (cd_identity d)) (pc_seq command)
          (pc_controller_ts command) (payload r) (ready - us) w2 = (built, line, w3)" by (metis surj_pair)
      have q3: "quiet E w w3"
        using built_line_quiet(1) [of E w2 "board_id (cd_identity d)" "pc_seq command" "pc_controller_ts command"
            "payload r" "ready - us"] b quiet_trans [OF q2] by simp
      show ?thesis
        using assms q1 q3
        unfolding dispatch_def Let_def prod.case Some option.case v h us cl b enqueueFallbackInternalError_def
        by (auto split: if_splits prod.splits dest: err [OF _ q1] err [OF _ q3])
    qed
  qed
qed

lemma handleEstop_quiet:
  assumes "handleEstop E identity clock hook (c, s, w) = (teardown, (c', s', w'))"
  shows "quiet E w w'"
proof (cases hook)
  case None
  with assms show ?thesis by (auto simp: handleEstop_def Let_def quiet_refl)
next
  case (Some h)
  obtain t1 w1 where c1: "clock_us E clock w = (t1, w1)" by (cases "clock_us E clock w")
  obtain safe w2 where hk: "safetyHook E h w1 = (safe, w2)" by (cases "safetyHook E h w1")
  obtain t2 w3 where c2: "clock_us E clock w2 = (t2, w3)" by (cases "clock_us E clock w2")
  obtain now w4 where c3: "clock_ms E clock w3 = (now, w4)" by (cases "clock_ms E clock w3")
  note q3 = clock_quiet(1) [OF c2 quiet_hook [OF hk clock_quiet(1) [OF c1 quiet_refl]]]
  have "w' = w3 \<or> w' = w4"
    using assms by (auto simp: handleEstop_def Let_def Some c1 hk c2 c3 split: if_splits option.splits prod.splits)
  with q3 clock_quiet(2) [OF c3 q3] show ?thesis by blast
qed

lemma requestEstopTriggered_quiet:
  "requestEstopTriggered E clock reason (h, s, w) = (st, (h', s', w')) \<Longrightarrow> quiet E w w'"
  by (auto simp: requestEstopTriggered_def Let_def quiet_refl split: prod.splits if_splits
      intro: clock_quiet)

lemma service_telemetry_quiet:
  assumes "service_telemetry E (t, c, s, w) = (t', c', s', w')"
  shows "quiet E w w'"
proof -
  have *: "quiet E w2 w'" if "buildAndQueue E (t2, c2, s2, w2) = (ok, (t', c', s', w'))" for t2 c2 s2 w2 ok
  proof (cases "ts_provider t2")
    case None
    with that show ?thesis by (simp add: buildAndQueue_def quiet_refl)
  next
    case (Some p)
    obtain pr ow w3 where h: "telemetryProvider E p new_object_writer w2 = (pr, ow, w3)" by (metis surj_pair)
    have q: "quiet E w2 w3" using h quiet_refl by (rule quiet_provider)
    obtain closed r where cl: "(if pr then close_ow ow else (False, ow)) = (closed, r)"
      by (metis surj_pair)
    obtain built line w4 where b: "buildLine_tel E (ts_next_seq t2) (board_id (ts_identity t2))
        (payload r) w3 = (built, line, w4)" by (metis surj_pair)
    have q4: "quiet E w2 w4"
      using built_line_quiet(3) [of E w3 "ts_next_seq t2" "board_id (ts_identity t2)" "payload r"] b
        quiet_trans [OF q] by simp
    show ?thesis
      using that q q4 unfolding buildAndQueue_def Let_def prod.case Some option.case h cl b
      by (auto split: if_splits prod.splits)
  qed
  obtain now w1 where ms: "monotonicMilliseconds E w = (now, w1)" by (cases "monotonicMilliseconds E w")
  have "quiet E w w1" using ms quiet_refl by (rule quiet_ms)
  moreover have "quiet E w1 w'"
  proof (cases "c' = c \<and> s' = s \<and> w' = w1")
    case True
    then show ?thesis by (simp add: quiet_refl)
  next
    case False
    obtain t1 where "snd (buildAndQueue E (t1, c, s, w1)) = (t', c', s', w')"
      using assms False by (auto simp: service_telemetry_def Let_def ms split: if_splits)
    then show ?thesis using * [of t1 c s w1 "fst (buildAndQueue E (t1, c, s, w1))"] by (metis prod.collapse)
  qed
  ultimately show ?thesis by (rule quiet_trans)
qed

end
