(* ===== verification/Connections.thy ===== *)
theory Connections
  imports Quiet
begin

text \<open>
  Who owns a connection. A network server hands out handles, and each must be given back with
  \<open>abort\<close> or its slot is lost. The locale \<open>connection_owner\<close> states what the session driver relies
  on: a set of live connections that only \<open>accept\<close> and \<open>abort\<close> change, and a transport for each.
  Inside it, the handles the driver holds are the live ones, after every operation of the driver,
  every turn of the service loop and every call of the server. \<open>quiet_routes\<close> is what this needs
  of the loop's routes.

  The last section puts board code with a state of its own beside a platform.
\<close>


section \<open>The handles a driver holds\<close>

definition handles :: "session_driver \<Rightarrow> connection_handle \<times> connection_handle" where
  "handles d = (sd_active_handle d, sd_replacement_handle d)"

definition held :: "session_driver \<Rightarrow> connection_handle set" where
  "held d = {h. isValidConnectionHandle h \<and> (h = sd_active_handle d \<or> h = sd_replacement_handle d)}"

lemma handles_steps [simp]:
  "handles (requestTeardown r d) = handles d"
  "handles (transitionTo n d) = handles d"
  "handles (teardown_callback td d) = handles d"
  "handles (replacePendingTeardownReason r d) = handles d"
  "handles (driver_releaseLine d) = handles d"
  "handles (d\<lparr>sd_framer := f\<rparr>) = handles d"
  "handles (d\<lparr>sd_writer := wr\<rparr>) = handles d"
  "handles (d\<lparr>sd_teardown_pending := b\<rparr>) = handles d"
  "handles (d\<lparr>sd_pending_teardown_reason := r\<rparr>) = handles d"
  "handles (d\<lparr>sd_network_init_attempted := b\<rparr>) = handles d"
  "handles (d\<lparr>sd_next_network_init_ms := m\<rparr>) = handles d"
  by (simp_all add: handles_def frame_simps driver_releaseLine_def)

text \<open>A session after which the world was left quiet and the driver's handles are the same.\<close>

definition quiet_session :: "'w env \<Rightarrow> 'w session \<Rightarrow> 'w session \<Rightarrow> bool" where
  "quiet_session E s s' \<longleftrightarrow>
     quiet E (snd (snd s)) (snd (snd s')) \<and> handles (fst s') = handles (fst s)"

lemma quiet_session_refl: "quiet_session E s s"
  by (simp add: quiet_session_def quiet_refl)

lemma quiet_session_trans: "quiet_session E s1 s2 \<Longrightarrow> quiet_session E s2 s3 \<Longrightarrow> quiet_session E s1 s3"
  by (auto simp: quiet_session_def intro: quiet_trans)

lemma runControllerLossHook_quiet: "quiet_session E (d, c, w) (runControllerLossHook E (d, c, w))"
proof (cases "sd_controller_loss_hook d")
  case None
  then show ?thesis by (simp add: runControllerLossHook_def quiet_session_refl)
next
  case (Some h)
  obtain t1 w1 where c1: "monotonicMicroseconds E w = (t1, w1)" by (cases "monotonicMicroseconds E w")
  obtain safe w2 where hk: "safetyHook E h w1 = (safe, w2)" by (cases "safetyHook E h w1")
  obtain t2 w3 where c2: "monotonicMicroseconds E w2 = (t2, w3)" by (cases "monotonicMicroseconds E w2")
  from quiet_us [OF c2 quiet_hook [OF hk quiet_us [OF c1 quiet_refl]]] show ?thesis
    by (simp add: runControllerLossHook_def quiet_session_def Some c1 hk c2)
qed

lemma detectActiveLoss_quiet: "quiet_session E (d, c, w) (detectActiveLoss E (d, c, w))"
proof -
  obtain p w1 where tr: "transport E (sd_active_handle d) w = (p, w1)"
    by (cases "transport E (sd_active_handle d) w")
  note q1 = quiet_transport [OF tr quiet_refl]
  show ?thesis
  proof (cases p)
    case None
    with tr q1 show ?thesis by (simp add: detectActiveLoss_def quiet_session_def)
  next
    case (Some t)
    obtain st w2 where cs: "connectionState E t w1 = (st, w2)" by (cases "connectionState E t w1")
    from quiet_state [OF cs q1] tr Some cs show ?thesis
      by (simp add: detectActiveLoss_def quiet_session_def)
  qed
qed

lemma readAvailable_quiet:
  assumes "readAvailable E (d, c, w) = Some s'"
  shows "quiet_session E (d, c, w) s'"
proof -
  obtain p w1 where tr: "transport E (sd_active_handle d) w = (p, w1)"
    by (cases "transport E (sd_active_handle d) w")
  note q1 = quiet_transport [OF tr quiet_refl]
  show ?thesis
  proof (cases p)
    case None
    with assms tr q1 show ?thesis by (auto simp: readAvailable_def quiet_session_def)
  next
    case (Some t)
    with assms tr obtain e f c1 w2 where rl: "read_loop E t (sd_framer d) c w1 = Some (e, f, c1, w2)"
      by (auto simp: readAvailable_def split: option.splits)
    note q2 = quiet_trans [OF q1 read_loop_quiet [OF rl]]
    have "quiet_session E (d, c, w) (d\<lparr>sd_framer := f\<rparr>, c1, w2)" using q2 by (simp add: quiet_session_def)
    moreover have "quiet_session E (d\<lparr>sd_framer := f\<rparr>, c1, w2) s'"
      using assms tr rl Some detectActiveLoss_quiet [of E "d\<lparr>sd_framer := f\<rparr>" c1 w2]
      by (cases e) (auto simp: readAvailable_def Let_def quiet_session_def quiet_refl)
    ultimately show ?thesis by (rule quiet_session_trans)
  qed
qed

lemma nextLine_quiet:
  assumes "nextLine E (d, c, w) = Some (line, s')"
  shows "quiet_session E (d, c, w) s'"
proof (cases "\<not> sessionActive d \<or> sd_teardown_pending d")
  case True
  with assms show ?thesis by (auto simp: nextLine_def quiet_session_refl)
next
  case False
  obtain s1 where s1: "(if hasLine (sd_framer d) then Some (d, c, w) else readAvailable E (d, c, w)) = Some s1"
    using assms False by (auto simp: nextLine_def split: option.splits)
  have "quiet_session E (d, c, w) s1"
    using s1 readAvailable_quiet [of E d c w s1] by (auto simp: quiet_session_refl split: if_splits)
  moreover have "quiet_session E s1 s'"
    using assms False s1
    by (auto simp: nextLine_def quiet_session_def quiet_refl split: if_splits prod.splits)
  ultimately show ?thesis by (rule quiet_session_trans)
qed

lemma sendActiveLine_quiet:
  assumes "sendActiveLine E line mc (d, c, w) = Some (result, s')"
  shows "quiet_session E (d, c, w) s'"
  using assms sendLine_quiet
  by (fastforce simp: sendActiveLine_def quiet_session_def quiet_refl split: if_splits option.splits prod.splits)

lemma driver_begin_quiet: "quiet_session E (d, c, w) (driver_begin E (d, c, w))"
  by (auto simp: driver_begin_def quiet_session_def quiet_refl intro: quiet_ms split: prod.split)

lemma pumpNetworkStarting_quiet: "quiet_session E (d, c, w) (pumpNetworkStarting E (d, c, w))"
proof -
  obtain a w1 where av: "availability E w = (a, w1)" by (cases "availability E w")
  obtain now w2 where ms: "(if sd_network_init_attempted d then monotonicMilliseconds E w1 else (0, w1)) = (now, w2)"
    by (metis surj_pair)
  note q1 = quiet_availability [OF av quiet_refl]
  have q2: "quiet E w w2" using ms q1 by (auto intro: quiet_ms split: if_splits)
  obtain b w3 where nb: "net_begin E (sd_listen_port d) w2 = (b, w3)"
    by (cases "net_begin E (sd_listen_port d) w2")
  note q3 = quiet_begin [OF nb q2]
  obtain t w4 where ms2: "monotonicMilliseconds E w3 = (t, w4)" by (cases "monotonicMilliseconds E w3")
  note q4 = quiet_ms [OF ms2 q3]
  show ?thesis
    by (cases b) (auto simp: pumpNetworkStarting_def av ms nb ms2 Let_def quiet_session_def q1 q2 q3 q4)
qed

section \<open>Ownership\<close>

definition owns ::
    "('w \<Rightarrow> bool) \<Rightarrow> ('w \<Rightarrow> connection_handle set) \<Rightarrow> session_driver \<Rightarrow> 'w \<Rightarrow> bool" where
  "owns sound live d w \<longleftrightarrow>
     sound w \<and> live w = held d \<and>
     (isValidConnectionHandle (sd_replacement_handle d) \<longrightarrow>
        sd_replacement_handle d \<noteq> sd_active_handle d)"

lemma torn_down_handles:
  "sd_replacement_handle (fst (torn_down E (d, c, w))) = sd_replacement_handle d"
  "isValidConnectionHandle (sd_active_handle d) \<Longrightarrow>
     sd_active_handle (fst (torn_down E (d, c, w))) = kInvalidConnection"
  "isValidConnectionHandle (sd_active_handle d) \<Longrightarrow>
     snd (snd (torn_down E (d, c, w))) =
       abort E (sd_active_handle d) (snd (snd (runControllerLossHook E (d, c, w))))"
  "\<not> isValidConnectionHandle (sd_active_handle d) \<Longrightarrow>
     sd_active_handle (fst (torn_down E (d, c, w))) = sd_active_handle d"
  "\<not> isValidConnectionHandle (sd_active_handle d) \<Longrightarrow> snd (snd (torn_down E (d, c, w))) = w"
  by (simp_all add: torn_down_def Let_def split_beta frame_simps)

locale connection_owner =
  fixes E :: "'w env" and sound :: "'w \<Rightarrow> bool" and live :: "'w \<Rightarrow> connection_handle set"
  assumes quiet_keeps: "quiet E w w' \<Longrightarrow> sound w \<Longrightarrow> sound w' \<and> live w' = live w"
    and accept_issues: "accept E w = (h, w') \<Longrightarrow> sound w \<Longrightarrow> sound w' \<and>
      live w' = (if isValidConnectionHandle h then insert h (live w) else live w) \<and>
      (isValidConnectionHandle h \<longrightarrow> h \<notin> live w)"
    and live_transport: "sound w \<Longrightarrow> h \<in> live w \<Longrightarrow> fst (transport E h w) \<noteq> None"
    and abort_ends: "sound w \<Longrightarrow> sound (abort E h w) \<and> live (abort E h w) = live w - {h}"
begin

abbreviation owned :: "session_driver \<Rightarrow> 'w \<Rightarrow> bool" where
  "owned \<equiv> owns sound live"

lemma owned_handles:
  assumes "owned d w" and "quiet E w w'" and "handles d' = handles d"
  shows "owned d' w'"
  using assms quiet_keeps [OF assms(2)] by (auto simp: owns_def held_def handles_def)

lemma owned_quiet: "owned (fst s) (snd (snd s)) \<Longrightarrow> quiet_session E s s' \<Longrightarrow> owned (fst s') (snd (snd s'))"
  using owned_handles by (auto simp: quiet_session_def)

lemma owned_torn_down:
  assumes "owned d w"
  shows "let (d1, c1, w1) = torn_down E (d, c, w) in
     owned d1 w1 \<and> \<not> isValidConnectionHandle (sd_active_handle d1) \<and>
     sd_replacement_handle d1 = sd_replacement_handle d"
proof -
  obtain d0 c1 w1 where h: "runControllerLossHook E (d, c, w) = (d0, c1, w1)"
    by (cases "runControllerLossHook E (d, c, w)")
  have q: "quiet E w w1" using runControllerLossHook_quiet [of E d c w] h by (simp add: quiet_session_def)
  have s: "sound w1" "live w1 = held d" using quiet_keeps [OF q] assms by (simp_all add: owns_def)
  have rep: "isValidConnectionHandle (sd_replacement_handle d) \<longrightarrow>
      sd_replacement_handle d \<noteq> sd_active_handle d" using assms by (simp add: owns_def)
  obtain d1 c2 w2 where t: "torn_down E (d, c, w) = (d1, c2, w2)" by (cases "torn_down E (d, c, w)")
  note td = torn_down_handles [where E = E and d = d and c = c and w = w, unfolded t h fst_conv snd_conv]
  show ?thesis
  proof (cases "isValidConnectionHandle (sd_active_handle d)")
    case True
    have "held d1 = held d - {sd_active_handle d}"
      using rep td(1) td(2) [OF True] kInvalidConnection_invalid by (auto simp: held_def)
    with td(1) td(2) [OF True] td(3) [OF True] s abort_ends [OF s(1), of "sd_active_handle d"] assms
    show ?thesis by (auto simp: t owns_def)
  next
    case False
    from assms False td(1) td(4) [OF False] td(5) [OF False] show ?thesis
      by (simp add: t owns_def held_def)
  qed
qed

text \<open>A new connection becomes the active one, or is given back.\<close>

lemma owned_promote_with:
  assumes f: "\<And>s s'. f s = Some s' \<Longrightarrow> owned (fst s) (snd (snd s)) \<Longrightarrow>
      \<not> isValidConnectionHandle (sd_replacement_handle (fst s)) \<Longrightarrow> owned (fst s') (snd (snd s'))"
    and run: "promote_with f E h (d, c, w) = Some s'"
    and w: "sound w" "live w = {h}" "isValidConnectionHandle h"
    and d: "\<not> isValidConnectionHandle (sd_replacement_handle d)"
  shows "owned (fst s') (snd (snd s'))"
proof -
  obtain p w1 where tr: "transport E h w = (p, w1)" by (cases "transport E h w")
  from live_transport [OF w(1), of h] w(2) tr obtain t where p: "p = Some t" by auto
  define d1 where "d1 = transitionTo SESSION_CONNECTED
      (d\<lparr>sd_active_handle := h, sd_writer := bindTransport t (sd_writer d),
         sd_framer := closeSession (sd_framer d)\<rparr>)"
  have d1: "sd_active_handle d1 = h" "\<not> isValidConnectionHandle (sd_replacement_handle d1)"
    using d by (simp_all add: d1_def frame_simps)
  have own: "owned d2 w2" if "quiet E w w2" "handles d2 = handles d1" for d2 w2
    using quiet_keeps [OF that(1) w(1)] that(2) d1 w by (auto simp: owns_def held_def handles_def)
  have rep: "\<not> isValidConnectionHandle (sd_replacement_handle d2)" if "handles d2 = handles d1" for d2
    using that d1(2) by (simp add: handles_def)
  obtain now w2 where now: "monotonicMilliseconds E w1 = (now, w2)"
    by (cases "monotonicMilliseconds E w1")
  have q2: "quiet E w w2" by (rule quiet_ms [OF now quiet_transport [OF tr quiet_refl]])
  obtain st line where b: "buildSchemaLineWithTimestamp (sd_registry d1) (sd_identity d1) now
      (Some kSchemaJsonBufferBytes) = (st, line)" by (metis surj_pair)
  note run' = run [unfolded promote_with_def prod.case tr p option.case Let_def,
      folded d1_def, unfolded now prod.case b]
  show ?thesis
  proof (cases "status_ok st")
    case False
    with run' have "f (requestTeardown SchemaSendFailure d1, c, w2) = Some s'" by simp
    from f [OF this] own [OF q2] rep show ?thesis by simp
  next
    case True
    let ?send = "sendLine E (Some (take kSchemaJsonBufferBytes (cstr line))) Critical (sd_writer d1, c, w2)"
    obtain result td wr c1 w3 where send: "?send = Some ((result, td), (wr, c1, w3))"
      using run' True by (cases ?send) auto
    define d2 where "d2 = teardown_callback td (d1\<lparr>sd_writer := wr\<rparr>)"
    have own2: "owned d3 w3" "\<not> isValidConnectionHandle (sd_replacement_handle d3)"
      if "handles d3 = handles d2" for d3
      using own [OF quiet_trans [OF q2 sendLine_quiet [OF send]]] rep that by (simp_all add: d2_def)
    show ?thesis
    proof (cases "result = Sent")
      case False
      with run' True send have "f (replacePendingTeardownReason SchemaSendFailure d2, c1, w3) = Some s'"
        by (simp add: d2_def)
      from f [OF this] own2 show ?thesis by simp
    next
      case True
      with run' \<open>status_ok st\<close> send have "s' = (transitionTo SESSION_ACTIVE d2, increment schemas_sent_update c1, w3)"
        by (simp add: d2_def)
      with own2 show ?thesis by simp
    qed
  qed
qed

lemma owned_apply_alone:
  assumes "applyPendingTeardown E s = Some s'" and "owned (fst s) (snd (snd s))"
    and "\<not> isValidConnectionHandle (sd_replacement_handle (fst s))"
  shows "owned (fst s') (snd (snd s'))"
proof -
  obtain d c w where s: "s = (d, c, w)" by (cases s)
  from assms owned_torn_down [of d w c] show ?thesis
    by (auto simp: s applyPendingTeardown_eq split: if_splits prod.splits)
qed

lemma owned_promote:
  assumes "promoteAcceptedConnection E h (d, c, w) = Some s'"
    and "sound w" and "live w = {h}" and "isValidConnectionHandle h"
    and "\<not> isValidConnectionHandle (sd_replacement_handle d)"
  shows "owned (fst s') (snd (snd s'))"
  by (rule owned_promote_with [OF owned_apply_alone assms(1) [unfolded promoteAcceptedConnection_def] assms(2-5)])

lemma owned_apply:
  assumes "applyPendingTeardown E (d, c, w) = Some s'" and "owned d w"
  shows "owned (fst s') (snd (snd s'))"
proof (cases "isValidConnectionHandle (sd_replacement_handle d) \<and> sd_teardown_pending d \<and> sd_configured d")
  case False
  then show ?thesis
    using assms owned_apply_alone [OF assms(1)] by (auto simp: applyPendingTeardown_eq)
next
  case True
  obtain d1 c1 w1 where t: "torn_down E (d, c, w) = (d1, c1, w1)" by (cases "torn_down E (d, c, w)")
  with owned_torn_down [OF assms(2), of c] have o1: "owned d1 w1"
    "\<not> isValidConnectionHandle (sd_active_handle d1)" "sd_replacement_handle d1 = sd_replacement_handle d"
    by simp_all
  have "promoteAcceptedConnection E (sd_replacement_handle d)
      (d1\<lparr>sd_replacement_handle := kInvalidConnection\<rparr>, c1, w1) = Some s'"
    using assms(1) True by (simp add: applyPendingTeardown_eq t)
  moreover have "sound w1" "live w1 = {sd_replacement_handle d}"
    using o1 True by (auto simp: owns_def held_def)
  ultimately show ?thesis using True by (auto intro: owned_promote)
qed

lemma owned_accept_valid:
  assumes "accept_valid E w = (h, w')" and "sound w"
  shows "sound w' \<and> (case h of None \<Rightarrow> live w' = live w
     | Some a \<Rightarrow> isValidConnectionHandle a \<and> a \<notin> live w \<and> live w' = insert a (live w))"
proof -
  obtain a w1 where ac: "accept E w = (a, w1)" by (cases "accept E w")
  note iss = accept_issues [OF ac assms(2)]
  show ?thesis
  proof (cases "isValidConnectionHandle a")
    case False
    with assms(1) ac iss show ?thesis by (auto simp: accept_valid_def)
  next
    case True
    obtain p w2 where tr: "transport E a w1 = (p, w2)" by (cases "transport E a w1")
    have "p \<noteq> None" using live_transport [of w1 a] iss True tr by simp
    moreover have "sound w2 \<and> live w2 = live w1"
      using quiet_keeps [OF quiet_transport [OF tr quiet_refl]] iss by simp
    ultimately show ?thesis using assms(1) ac tr True iss by (auto simp: accept_valid_def)
  qed
qed

lemma owned_poll:
  assumes "poll E (d, c, w0) = Some s'" and "driver_ok d" and "owned d w0"
  shows "owned (fst s') (snd (snd s'))"
proof -
  have conf: "sd_configured d" using assms(2) by (simp add: driver_ok_def driver_base_def)
  define w where "w = progress E w0"
  have w: "owned d w" by (rule owned_handles [OF assms(3)]) (auto simp: w_def intro: quiet_progress quiet_refl)
  consider (starting) "sd_state d = NETWORK_STARTING" | (listening) "sd_state d = LISTENING"
    | (active) "sd_state d = SESSION_ACTIVE" | (other) "s' = (d, c, w)"
    using assms(1,2) conf by (auto simp: poll_def w_def Let_def driver_ok_def split: if_splits)
  then show ?thesis
  proof cases
    case starting
    then have "s' = pumpNetworkStarting E (d, c, w)" using assms(1) conf by (simp add: poll_def w_def Let_def)
    with owned_quiet [OF _ pumpNetworkStarting_quiet [of E d c w]] w show ?thesis by simp
  next
    case listening
    have no: "held d = {}" "\<not> isValidConnectionHandle (sd_replacement_handle d)"
      using assms(2) listening by (auto simp: driver_ok_def driver_base_def held_def in_session_def)
    have run: "pumpListening E (d, c, w) = Some s'"
      using assms(1) conf listening by (simp add: poll_def w_def Let_def)
    obtain a w1 where av: "availability E w = (a, w1)" by (cases "availability E w")
    obtain l w2 where li: "(if a = Ready then isListening E w1 else (True, w1)) = (l, w2)" by (metis surj_pair)
    define w3 where "w3 = (if a = Ready \<and> \<not> l then snd (net_begin E (sd_listen_port d) w2) else w2)"
    obtain p w4 where hp: "hasPendingConnection E w3 = (p, w4)" by (cases "hasPendingConnection E w3")
    have "quiet E w w2" using quiet_availability [OF av quiet_refl] li
      by (auto intro: quiet_isListening split: if_splits)
    then have "quiet E w w3"
      by (auto simp: w3_def intro: quiet_begin [of E _ _ "fst (net_begin E (sd_listen_port d) w2)"])
    then have q4: "quiet E w w4" by (rule quiet_hasPending [OF hp])
    have o4: "owned d w4" by (rule owned_handles [OF w q4 refl])
    obtain h w5 where ac: "accept_valid E w4 = (h, w5)" by (cases "accept_valid E w4")
    have s5: "sound w4" "live w4 = {}" using o4 no by (simp_all add: owns_def)
    note ac5 = owned_accept_valid [OF ac s5(1)]
    note run' = run [unfolded pumpListening_def prod.case av li Let_def, folded w3_def, unfolded hp prod.case ac]
    show ?thesis
    proof (cases p)
      case False
      with run' o4 show ?thesis by auto
    next
      case True
      show ?thesis
      proof (cases h)
        case None
        with run' True ac5 s5 no show ?thesis by (auto simp: owns_def)
      next
        case (Some b)
        with run' True have "promoteAcceptedConnection E b (d, increment sessions_accepted_update c, w5) = Some s'"
          by simp
        from owned_promote [OF this] ac5 Some s5 no show ?thesis by simp
      qed
    qed
  next
    case active
    have rep: "\<not> isValidConnectionHandle (sd_replacement_handle d)" "\<not> sd_teardown_pending d"
      "isValidConnectionHandle (sd_active_handle d)"
      using assms(2) active by (auto simp: driver_ok_def driver_base_def in_session_def)
    obtain p w1 where hp: "hasPendingConnection E w = (p, w1)" by (cases "hasPendingConnection E w")
    have o1: "owned d w1" by (rule owned_handles [OF w quiet_hasPending [OF hp quiet_refl] refl])
    show ?thesis
    proof (cases p)
      case True
      then have s': "s' = acceptReplacement E (d, c, w1)"
        using assms(1) conf active hp by (simp add: poll_def w_def Let_def)
      obtain h w2 where ac: "accept_valid E w1 = (h, w2)" by (cases "accept_valid E w1")
      have "sound w1" "live w1 = {sd_active_handle d}" using o1 rep by (auto simp: owns_def held_def)
      with owned_accept_valid [OF ac] rep show ?thesis
        by (cases h) (auto simp: s' acceptReplacement_def ac owns_def held_def frame_simps)
    next
      case False
      obtain d1 c1 w2 where l: "detectActiveLoss E (d, c, w1) = (d1, c1, w2)"
        by (cases "detectActiveLoss E (d, c, w1)")
      have "quiet_session E (d, c, w1) (d1, c1, w2)" using detectActiveLoss_quiet [of E d c w1] l by simp
      moreover have "quiet_session E (d1, c1, w2) s'"
        using assms(1) conf active hp False l readAvailable_quiet [of E d1 c1 w2 s']
        by (auto simp: poll_def w_def Let_def quiet_session_refl split: if_splits)
      ultimately show ?thesis using owned_quiet [of "(d, c, w1)" s'] o1 quiet_session_trans by fastforce
    qed
  next
    case other
    with w show ?thesis by simp
  qed
qed

end

section \<open>A turn of the loop\<close>

definition quiet_shared :: "'w env \<Rightarrow> (('x, 'w) shared \<Rightarrow> ('x, 'w) shared) \<Rightarrow> bool" where
  "quiet_shared E f \<longleftrightarrow> (\<forall>sh. quiet E (sh_world sh) (sh_world (f sh)))"

locale quiet_routes =
  fixes E :: "'w env" and rt :: "('x, 'w) routes"
  assumes command_quiet: "rt_command rt = Some f1 \<Longrightarrow> quiet_shared E (\<lambda>sh. snd (f1 command args sh))"
    and error_quiet: "rt_recoverable_command_error rt = Some f2 \<Longrightarrow> quiet_shared E (f2 e)"
    and estop_quiet: "rt_estop rt = Some f3 \<Longrightarrow> quiet_shared E (f3 pe)"
    and heartbeat_quiet: "rt_heartbeat rt = Some f4 \<Longrightarrow> quiet_shared E (f4 ph)"
    and due_quiet: "rt_telemetry_due rt = Some f5 \<Longrightarrow> quiet_shared E f5"
    and timed_quiet:
      "rt_command_with_timing rt = Some f6 \<Longrightarrow> quiet_shared E (\<lambda>sh. snd (f6 command args us sh))"
    and estop_result_quiet: "rt_estop_with_result rt = Some f7 \<Longrightarrow> quiet_shared E (\<lambda>sh. snd (f7 pe sh))"
    and heartbeat_result_quiet:
      "rt_heartbeat_with_result rt = Some f8 \<Longrightarrow> quiet_shared E (\<lambda>sh. snd (f8 ph sh))"
    and safety_quiet: "rt_safety_due rt = Some f9 \<Longrightarrow> quiet_shared E (\<lambda>sh. snd (f9 sh))"
    and outcome_quiet: "rt_outbound_outcome rt = Some f10 \<Longrightarrow> quiet_shared E (f10 oc)"
    and inactive_quiet: "rt_telemetry_inactive rt = Some f11 \<Longrightarrow> quiet_shared E f11"
begin

text \<open>A step of the loop that is not a call of the driver.\<close>

definition quiet_loop :: "('x, 'w) loop_state \<Rightarrow> ('x, 'w) loop_state \<Rightarrow> bool" where
  "quiet_loop st st' \<longleftrightarrow>
     quiet E (sh_world (ls_shared st)) (sh_world (ls_shared st')) \<and>
     handles (ls_driver st') = handles (ls_driver st)"

lemma quiet_loop_refl: "quiet_loop st st"
  by (simp add: quiet_loop_def quiet_refl)

lemma quiet_loop_trans: "quiet_loop st1 st2 \<Longrightarrow> quiet_loop st2 st3 \<Longrightarrow> quiet_loop st1 st3"
  by (auto simp: quiet_loop_def intro: quiet_trans)

lemma quiet_loop_on_shared: "quiet_shared E f \<Longrightarrow> quiet_loop st (on_shared f st)"
  by (simp add: quiet_loop_def quiet_shared_def)

lemma quiet_loop_release: "quiet_loop st (on_driver driver_releaseLine st)"
  by (simp add: quiet_loop_def quiet_refl)

lemma quiet_loop_teardown_if: "quiet_loop st (teardown_if b st)"
  by (simp add: quiet_loop_def quiet_refl teardown_if_def)

lemma quiet_loop_call: "quiet_shared E (\<lambda>sh. snd (f sh)) \<Longrightarrow> quiet_loop st (call_with_result f st)"
  by (auto simp: call_with_result_def quiet_shared_def quiet_loop_def teardown_if_def split: prod.split)
    (metis snd_conv)+

lemma quiet_shared_count: "quiet_shared E (count f)"
  by (simp add: quiet_shared_def quiet_refl)

lemma routeOutcome_quiet: "quiet_shared E (routeOutcome rt oc)"
  using outcome_quiet
  by (auto simp: routeOutcome_def quiet_shared_def quiet_refl Let_def split: option.split)
    (metis on_simps(9))+

lemma routeOutcomes_quiet: "quiet E (sh_world sh) (sh_world (fold (routeOutcome rt) batch sh))"
proof (induction batch arbitrary: sh)
  case (Cons oc batch)
  have "quiet E (sh_world sh) (sh_world (routeOutcome rt oc sh))"
    using routeOutcome_quiet by (simp add: quiet_shared_def)
  from quiet_trans [OF this Cons.IH] show ?case by simp
qed (simp add: quiet_refl)

lemma routeInactive_quiet: "quiet_shared E (routeTelemetryInactive rt)"
  using inactive_quiet
  by (auto simp: routeTelemetryInactive_def quiet_shared_def quiet_refl split: option.split)

lemma routeValid_quiet:
  assumes "sl_routes L = rt"
  shows "quiet_loop st (routeValid L outcome gate us st)"
proof -
  have invalid: "quiet_loop st (on_shared (count f) st)" for f
    by (rule quiet_loop_on_shared [OF quiet_shared_count])
  show ?thesis
  proof (cases "po_message_kind outcome")
    case Command_Message
    then show ?thesis
      by (simp add: routeValid_def Let_def assms invalid quiet_loop_call [OF command_quiet]
          quiet_loop_call [OF timed_quiet] quiet_loop_teardown_if split: option.split)
  next
    case Estop_Message
    then show ?thesis
      by (simp add: routeValid_def Let_def assms invalid quiet_loop_call [OF estop_result_quiet]
          quiet_loop_on_shared [OF estop_quiet] split: option.split)
  next
    case Heartbeat_Message
    then show ?thesis
      by (simp add: routeValid_def Let_def assms invalid quiet_loop_call [OF heartbeat_result_quiet]
          quiet_loop_on_shared [OF heartbeat_quiet] quiet_loop_refl split: option.split)
  next
    case No_Message
    then show ?thesis by (simp add: routeValid_def Let_def quiet_loop_refl)
  qed
qed

lemma processLine_quiet:
  assumes "sl_routes L = rt"
  shows "quiet_loop st (processLine E lib L line st)"
proof -
  obtain outcome c p where parse: "parse (deserialize_in_place lib) line
      (sh_counters (ls_shared st), ls_parser st) = (outcome, (c, p))" by (metis surj_pair)
  obtain us w where clk: "clock_us E (sl_clock L) (sh_world (ls_shared st)) = (us, w)"
    by (cases "clock_us E (sl_clock L) (sh_world (ls_shared st))")
  define st1 where "st1 = st\<lparr>ls_parser := p, ls_shared := (ls_shared st)\<lparr>sh_counters := c, sh_world := w\<rparr>\<rparr>"
  have "quiet_loop st st1" using clock_quiet(1) [OF clk quiet_refl] by (simp add: quiet_loop_def st1_def)
  moreover have "quiet_shared E (routeRecoverableCommandError rt e)" for e
    using error_quiet
    by (auto simp: routeRecoverableCommandError_def quiet_shared_def quiet_refl split: option.split)
  then have "quiet_loop st1 (processLine E lib L line st)"
    unfolding processLine_def Let_def parse prod.case clk st1_def [symmetric] assms
    by (auto simp: quiet_loop_refl routeValid_quiet [OF assms]
        intro: quiet_loop_on_shared quiet_shared_count)
  ultimately show ?thesis by (rule quiet_loop_trans)
qed

lemma runTelemetryDueCheck_quiet: "sl_routes L = rt \<Longrightarrow> quiet_loop st (runTelemetryDueCheck L st)"
  using due_quiet quiet_loop_on_shared [OF routeInactive_quiet]
  by (auto simp: runTelemetryDueCheck_def quiet_loop_refl intro: quiet_loop_on_shared split: option.split)

lemma runSafetyDueCheck_quiet:
  assumes "sl_routes L = rt"
  shows "quiet_loop st (snd (runSafetyDueCheck L st))"
proof -
  have "quiet_loop st (call_with_result f st)" if "rt_safety_due rt = Some f" for f
    by (rule quiet_loop_call [OF safety_quiet [OF that]])
  then show ?thesis
    by (auto simp: runSafetyDueCheck_def assms quiet_loop_refl call_with_result_def split: option.split prod.splits)
qed

end

locale owner_loop = connection_owner E sound live + quiet_routes E rt
  for E :: "'w env" and sound live and rt :: "('x, 'w) routes"
begin

abbreviation loop_owned :: "('x, 'w) loop_state \<Rightarrow> bool" where
  "loop_owned st \<equiv> owned (ls_driver st) (sh_world (ls_shared st))"

lemma loop_owned_quiet: "loop_owned st \<Longrightarrow> quiet_loop st st' \<Longrightarrow> loop_owned st'"
  using owned_handles by (auto simp: quiet_loop_def)

lemma loop_owned_put: "owned (fst s) (snd (snd s)) \<Longrightarrow> loop_owned (put_session st s)"
  by (cases s) (simp add: put_session_def)

lemma cancel_owned:
  assumes "cancelRouteAndApply E L st = Some st'" and "sl_routes L = rt" and "loop_owned st"
  shows "loop_owned st'"
proof -
  obtain batch s where cl: "clearForSessionEnd (sh_scheduler (ls_shared st)) = (batch, s)"
    by (cases "clearForSessionEnd (sh_scheduler (ls_shared st))")
  define st1 where "st1 = on_shared (\<lambda>sh. routeTelemetryInactive rt
      (fold (routeOutcome rt) batch (sh\<lparr>sh_scheduler := s\<rparr>))) st"
  have "quiet E (sh_world (ls_shared st)) (sh_world (ls_shared st1))"
    using routeOutcomes_quiet [of "(ls_shared st)\<lparr>sh_scheduler := s\<rparr>" batch] routeInactive_quiet
    by (auto simp: st1_def quiet_shared_def intro: quiet_trans)
  then have o1: "loop_owned st1"
    using assms(3) owned_handles by (auto simp: st1_def)
  obtain s' where ap: "applyPendingTeardown E (session_of st1) = Some s'" and st': "st' = put_session st1 s'"
    using assms(1,2) cl by (auto simp: cancelRouteAndApply_def Let_def st1_def [symmetric])
  have "owned (fst s') (snd (snd s'))"
    by (rule owned_apply [OF ap [unfolded session_of_def] o1])
  then show ?thesis by (simp add: st' loop_owned_put)
qed

lemma drain_owned:
  assumes "drainRouteAndMaybeTeardown E L acquired st = Some (ended, st')" and "sl_routes L = rt"
    and "loop_owned st"
  shows "loop_owned st'"
proof -
  obtain oc s ss where dr: "drainOne (sendActiveLine E) (sh_scheduler (ls_shared st)) (session_of st) =
      Some (oc, s, ss)"
    using assms(1) by (auto simp: drainRouteAndMaybeTeardown_def split: option.splits)
  have q: "quiet_session E (session_of st) ss"
  proof (cases oc)
    case None
    with drainOne_silent [OF dr [unfolded None]] show ?thesis by (simp add: quiet_session_refl)
  next
    case (Some x)
    with drainOne_session [of "sendActiveLine E"] dr obtain line mc result
      where "sendActiveLine E line mc (session_of st) = Some (result, ss)" by blast
    from sendActiveLine_quiet [OF this [unfolded session_of_def]] show ?thesis by (simp add: session_of_def)
  qed
  have "owned (fst (session_of st)) (snd (snd (session_of st)))"
    using assms(3) by (simp add: session_of_def)
  from owned_quiet [OF this q] have o1: "loop_owned (on_shared (\<lambda>sh. sh\<lparr>sh_scheduler := s\<rparr>) (put_session st ss))"
    using loop_owned_put [of ss st] by simp
  show ?thesis
  proof (cases oc)
    case None
    with assms(1) dr o1 show ?thesis by (simp add: drainRouteAndMaybeTeardown_def)
  next
    case (Some x)
    define st1 where "st1 = on_shared (routeOutcome rt x)
        (on_shared (\<lambda>sh. sh\<lparr>sh_scheduler := s\<rparr>) (put_session st ss))"
    have o2: "loop_owned st1"
      unfolding st1_def by (rule loop_owned_quiet [OF o1 quiet_loop_on_shared [OF routeOutcome_quiet]])
    define st3 where "st3 = (if acquired then on_driver driver_releaseLine (teardown_if (\<not> teardownPending st1) st1)
        else teardown_if (\<not> teardownPending st1) st1)"
    have "quiet_loop st1 st3"
      by (auto simp: st3_def intro: quiet_loop_trans quiet_loop_release quiet_loop_teardown_if)
    then have o3: "loop_owned st3" by (rule loop_owned_quiet [OF o2])
    have "cancelRouteAndApply E L st3 = Some st' \<or> st' = st1"
      using assms(1) [unfolded drainRouteAndMaybeTeardown_def dr Some option.case prod.case Let_def assms(2),
          folded st1_def, folded st3_def]
      by (cases "teardownPending st1 \<or> oo_completion x = SendFailed \<and> oo_kind x \<noteq> Telemetry_Line") auto
    then show ?thesis using cancel_owned [OF _ assms(2) o3] o2 by blast
  qed
qed

lemma service_owned:
  assumes "service E lib L st = Some st'" and "sl_routes L = rt" and "loop_owned st"
    and "driver_ok (ls_driver st)"
  shows "loop_owned st'"
proof -
  obtain s1 where p: "poll E (session_of st) = Some s1"
    using assms(1) by (auto simp: service_def split: option.splits)
  obtain line s2 where n: "nextLine E s1 = Some (line, s2)"
    using assms(1) p by (auto simp: service_def split: option.splits)
  have "owned (fst s1) (snd (snd s1))"
    by (rule owned_poll [OF p [unfolded session_of_def] assms(4,3)])
  moreover have "quiet_session E s1 s2" using nextLine_quiet [of E "fst s1" "fst (snd s1)" "snd (snd s1)"] n by simp
  ultimately have "owned (fst s2) (snd (snd s2))" by (rule owned_quiet)
  then have o1: "loop_owned (put_session st s2)" by (rule loop_owned_put)
  define st1 where "st1 = put_session st s2"
  note o1 = o1 [folded st1_def]
  have o1': "loop_owned (on_driver driver_releaseLine st1)"
    by (rule loop_owned_quiet [OF o1 quiet_loop_release])
  note run = assms(1) [unfolded service_def p option.case n prod.case Let_def, folded st1_def]
  show ?thesis
  proof (cases "teardownPending st1")
    case True
    with run cancel_owned [OF _ assms(2) o1] cancel_owned [OF _ assms(2) o1'] show ?thesis
      by (auto split: if_splits)
  next
    case False
    then have due: "service_due E lib L line st1 = Some st'" using run by simp
    obtain b st2 where sd: "runSafetyDueCheck L (runTelemetryDueCheck L st1) = (b, st2)"
      by (cases "runSafetyDueCheck L (runTelemetryDueCheck L st1)")
    have "quiet_loop st1 st2"
      using quiet_loop_trans [OF runTelemetryDueCheck_quiet [OF assms(2)] runSafetyDueCheck_quiet [OF assms(2)]]
        sd by (metis snd_conv)
    then have o2: "loop_owned st2" by (rule loop_owned_quiet [OF o1])
    show ?thesis
    proof (cases b)
      case True
      with due sd have "cancelRouteAndApply E L st2 = Some st'" by (simp add: service_due_def)
      from cancel_owned [OF this assms(2) o2] show ?thesis .
    next
      case False
      define pending where "pending = hasPending (sh_scheduler (ls_shared st2))"
      obtain ended st3 where d: "(if pending then drainRouteAndMaybeTeardown E L (line \<noteq> None) st2
          else Some (False, st2)) = Some (ended, st3)"
        using due sd False by (auto simp: service_due_def Let_def pending_def split: option.splits)
      have o3: "loop_owned st3"
        using d drain_owned [OF _ assms(2) o2] o2 by (auto split: if_splits)
      note due' = due [unfolded service_due_def sd prod.case Let_def, folded pending_def, unfolded d]
      show ?thesis
      proof (cases "ended \<or> line = None")
        case True
        with due' False o3 show ?thesis by (auto split: bool.splits option.splits)
      next
        case go: False
        then obtain l where l: "line = Some l" by auto
        define st4 where "st4 = on_driver driver_releaseLine (processLine E lib L (Some l) st3)"
        have "quiet_loop st3 st4"
          unfolding st4_def by (rule quiet_loop_trans [OF processLine_quiet [OF assms(2)] quiet_loop_release])
        then have o4: "loop_owned st4" by (rule loop_owned_quiet [OF o3])
        have "service_line E lib L l pending st3 = Some st'"
          using due' False go l by (auto split: bool.splits)
        then show ?thesis
          using cancel_owned [OF _ assms(2) o4] drain_owned [OF _ assms(2) o4] o4
          by (auto simp: service_line_def Let_def st4_def [symmetric] split: if_splits)
      qed
    qed
  qed
qed

end

section \<open>The server\<close>

lemma facade_routes_quiet:
  "quiet_shared E (\<lambda>sh. snd (routeCommand E command args us sh))"
  "quiet_shared E (\<lambda>sh. snd (routeEstop E pe sh))"
  "quiet_shared E (\<lambda>sh. snd (routeHeartbeat ph sh))"
  "quiet_shared E (\<lambda>sh. snd (routeSafetyDue sh))"
  "quiet_shared E (routeOutboundOutcome oc)"
  "quiet_shared E (routeTelemetryDue E)"
  "quiet_shared E routeTelemetryInactive_server"
proof -
  show "quiet_shared E (\<lambda>sh. snd (routeCommand E command args us sh))"
    using dispatch_quiet
    by (fastforce simp: quiet_shared_def routeCommand_def Let_def quiet_refl split: prod.split)
  show "quiet_shared E (\<lambda>sh. snd (routeEstop E pe sh))"
    using handleEstop_quiet
    by (fastforce simp: quiet_shared_def routeEstop_def Let_def split: prod.split)
  show "quiet_shared E (routeTelemetryDue E)"
    using service_telemetry_quiet
    by (fastforce simp: quiet_shared_def routeTelemetryDue_def Let_def quiet_refl split: prod.split option.split)
qed (simp_all add: quiet_shared_def routeHeartbeat_def routeSafetyDue_def routeOutboundOutcome_def
    routeTelemetryInactive_server_def Let_def quiet_refl split: prod.split option.split)

interpretation qr: quiet_routes E "facadeRoutes E"
  by unfold_locales (auto simp: facadeRoutes_def no_routes_def facade_routes_quiet)

text \<open>
  The calls of a program on one server, from a world \<open>w0\<close> on; between two calls the world may move
  as \<open>moves\<close> allows.
\<close>

inductive server_runs ::
    "'w env \<Rightarrow> json_library \<Rightarrow> ('w \<Rightarrow> 'w \<Rightarrow> bool) \<Rightarrow> 'w \<Rightarrow> 'w teensy_command_server \<Rightarrow> bool"
  for E lib moves w0 where
  ru_new: "server_runs E lib moves w0 (new_server attached w0)"
| ru_configure: "server_runs E lib moves w0 sv \<Longrightarrow>
     server_runs E lib moves w0 (on_members (\<lambda>m. snd (configure call m)) sv)"
| ru_request: "server_runs E lib moves w0 sv \<Longrightarrow>
     server_runs E lib moves w0 (snd (requestEstopTriggered_server E reason sv))"
| ru_start: "server_runs E lib moves w0 sv \<Longrightarrow> server_runs E lib moves w0 (snd (start E sv))"
| ru_service: "server_runs E lib moves w0 sv \<Longrightarrow> service_server E lib sv = Some sv' \<Longrightarrow> server_runs E lib moves w0 sv'"
| ru_world: "server_runs E lib moves w0 sv \<Longrightarrow> moves (sh_world (tc_shared sv)) w \<Longrightarrow>
     server_runs E lib moves w0 (sv\<lparr>tc_shared := (tc_shared sv)\<lparr>sh_world := w\<rparr>\<rparr>)"

lemma server_runs_reaches: "server_runs E lib moves w0 sv \<Longrightarrow> server_reaches E lib sv"
  by (induction rule: server_runs.induct) (auto intro: server_reaches.intros)

text \<open>The world's live connections are those the server's driver holds, none without a driver.\<close>

definition server_owns ::
    "('w \<Rightarrow> bool) \<Rightarrow> ('w \<Rightarrow> connection_handle set) \<Rightarrow> 'w teensy_command_server \<Rightarrow> bool" where
  "server_owns sound live sv \<longleftrightarrow>
     (case tc_session_driver sv of
        None \<Rightarrow> sound (sh_world (tc_shared sv)) \<and> live (sh_world (tc_shared sv)) = {}
      | Some d \<Rightarrow> owns sound live d (sh_world (tc_shared sv)))"

lemma service_server_cases:
  assumes "service_server E lib sv = Some sv'"
  obtains "sv' = sv"
  | d st where "tc_session_driver sv = Some d"
      "service E lib (service_loop_of E (sh_context (tc_shared sv)))
         \<lparr>ls_driver = d, ls_parser = tc_parser sv, ls_shared = tc_shared sv\<rparr> = Some st"
      "tc_session_driver sv' = Some (ls_driver st)" "tc_shared sv' = ls_shared st"
  using assms by (auto simp: service_server_def Let_def split: option.splits if_splits)

lemma start_session_quiet:
  "quiet E (sh_world (tc_shared sv)) (sh_world (tc_shared (start_session E sv))) \<and>
   (\<exists>d. tc_session_driver (start_session E sv) = Some d \<and> held d = {} \<and>
      \<not> isValidConnectionHandle (sd_replacement_handle d))"
proof -
  define m where "m = sh_context (tc_shared sv)"
  define r where "r = fm_registry m"
  define d where "d = new_session_driver r (identity_of m) (cr_controller_loss_hook r)
      (nc_listen_port (fm_network_config m))"
  obtain d1 c w where b: "driver_begin E (d, sh_counters (tc_shared sv), sh_world (tc_shared sv)) = (d1, c, w)"
    by (metis surj_pair)
  have "quiet E (sh_world (tc_shared sv)) w \<and> handles d1 = handles d"
    using driver_begin_quiet [of E d "sh_counters (tc_shared sv)" "sh_world (tc_shared sv)"] b
    by (simp add: quiet_session_def)
  moreover have "handles d = (kInvalidConnection, kInvalidConnection)"
    by (simp add: handles_def d_def new_session_driver_def)
  ultimately show ?thesis
    by (auto simp: start_session_eq Let_def m_def [symmetric] r_def [symmetric] d_def [symmetric] b
        handles_def held_def)
qed

sublocale connection_owner \<subseteq> ol: owner_loop E sound live "facadeRoutes E" ..

context connection_owner
begin

lemma server_owns_same:
  assumes "server_owns sound live sv"
    and "sound (sh_world (tc_shared sv)) \<Longrightarrow> sound (sh_world (tc_shared sv')) \<and>
      live (sh_world (tc_shared sv')) = live (sh_world (tc_shared sv))"
    and "tc_session_driver sv' = tc_session_driver sv"
  shows "server_owns sound live sv'"
  using assms by (auto simp: server_owns_def owns_def split: option.splits)

lemma start_owned:
  assumes "server_ok sv" and "server_owns sound live sv"
  shows "server_owns sound live (snd (start E sv))"
proof -
  define m1 where "m1 = (sh_context (tc_shared sv))\<lparr>fm_registry := (fm_registry (sh_context (tc_shared sv)))
      \<lparr>cr_lifecycle := Sealed\<rparr>, fm_identity_bound := True, fm_started := True\<rparr>"
  define sv1 where "sv1 = sv\<lparr>tc_shared := (tc_shared sv)\<lparr>sh_context := m1\<rparr>\<rparr>"
  consider (same) "snd (start E sv) = sv" | (begun) "\<not> fm_started (sh_context (tc_shared sv))"
      "snd (start E sv) = (if fm_network (sh_context (tc_shared sv)) \<and> fm_clock (sh_context (tc_shared sv))
        then start_session E sv1 else sv1)"
    using start_cases [OF assms(1), of E]
    by (auto simp: Let_def m1_def [symmetric] sv1_def [symmetric]) (metis snd_conv)+
  then show ?thesis
  proof cases
    case same
    with assms(2) show ?thesis by simp
  next
    case begun
    have none: "tc_session_driver sv = None"
      using assms(1) begun(1) by (auto simp: server_ok_def Let_def split: option.splits)
    have s1: "sound (sh_world (tc_shared sv1))" "live (sh_world (tc_shared sv1)) = {}" "tc_session_driver sv1 = None"
      using assms(2) none by (simp_all add: server_owns_def sv1_def)
    from start_session_quiet [of E sv1] obtain d where
      q: "quiet E (sh_world (tc_shared sv1)) (sh_world (tc_shared (start_session E sv1)))"
      and d: "tc_session_driver (start_session E sv1) = Some d" "held d = {}"
        "\<not> isValidConnectionHandle (sd_replacement_handle d)" by blast
    from quiet_keeps [OF q s1(1)] s1 d show ?thesis
      by (simp add: begun(2) server_owns_def owns_def)
  qed
qed

lemma service_server_owned:
  assumes "service_server E lib sv = Some sv'" and "server_ok sv" and "server_owns sound live sv"
  shows "server_owns sound live sv'"
  using assms(1)
proof (rule service_server_cases)
  assume "sv' = sv"
  with assms(3) show ?thesis by simp
next
  fix d st
  assume d: "tc_session_driver sv = Some d"
    and run: "service E lib (service_loop_of E (sh_context (tc_shared sv)))
         \<lparr>ls_driver = d, ls_parser = tc_parser sv, ls_shared = tc_shared sv\<rparr> = Some st"
    and sv': "tc_session_driver sv' = Some (ls_driver st)" "tc_shared sv' = ls_shared st"
  have "driver_ok d"
    using assms(2) d by (simp add: server_ok_def Let_def loop_settled_def loop_running_def loop_state_of_def)
  with ol.service_owned [OF run] assms(3) d show ?thesis by (simp add: server_owns_def sv')
qed

lemma server_runs_owned:
  assumes "server_runs E lib moves w0 sv" and "sound w0" and "live w0 = {}"
    and moves: "\<And>w w'. moves w w' \<Longrightarrow> sound w \<Longrightarrow> sound w' \<and> live w' = live w"
  shows "server_owns sound live sv"
  using assms(1-3)
proof (induction rule: server_runs.induct)
  case (ru_new attached)
  then show ?case by (simp add: server_owns_def new_server_def)
next
  case (ru_configure sv call)
  show ?case
    by (rule server_owns_same [of sv]) (use ru_configure in \<open>simp_all add: on_members_def\<close>)
next
  case (ru_request sv reason)
  define sh where "sh = tc_shared sv"
  obtain result h s w where r: "requestEstopTriggered E (fm_clock (sh_context sh)) reason
      (fm_estop_handler (sh_context sh), sh_scheduler sh, sh_world sh) = (result, (h, s, w))"
    by (metis surj_pair)
  show ?case
    by (rule server_owns_same [of sv])
      (use ru_request quiet_keeps [OF requestEstopTriggered_quiet [OF r]] r in
        \<open>simp_all add: requestEstopTriggered_server_def Let_def sh_def [symmetric]\<close>)
next
  case (ru_start sv)
  from server_reaches_ok [OF server_runs_reaches [OF ru_start.hyps]] show ?case
    by (rule start_owned) (rule ru_start.IH [OF ru_start.prems])
next
  case (ru_service sv sv')
  from ru_service.hyps(2) server_reaches_ok [OF server_runs_reaches [OF ru_service.hyps(1)]] show ?case
    by (rule service_server_owned) (rule ru_service.IH [OF ru_service.prems])
next
  case (ru_world sv w)
  show ?case by (rule server_owns_same [of sv]) (use ru_world moves in simp_all)
qed

end

section \<open>Board code beside the platform\<close>

text \<open>
  A program keeps state of its own, which its callbacks read and change. \<open>beside E B\<close> is the
  environment of such a program: the clock and the network of the platform \<open>E\<close>, and the callbacks of \<open>B\<close>,
  which see the platform's world and the program's state.
\<close>

definition on_platform :: "('w \<Rightarrow> 'a \<times> 'w) \<Rightarrow> 'w \<times> 'f \<Rightarrow> 'a \<times> 'w \<times> 'f" where
  "on_platform f s = (case f (fst s) of (a, w) \<Rightarrow> (a, (w, snd s)))"

definition beside :: "'w env \<Rightarrow> ('w \<times> 'f) env \<Rightarrow> ('w \<times> 'f) env" where
  "beside E B =
     B\<lparr>monotonicMilliseconds := on_platform (monotonicMilliseconds E),
       monotonicMicroseconds := on_platform (monotonicMicroseconds E),
       progress := (\<lambda>(w, x). (progress E w, x)), availability := on_platform (availability E),
       net_begin := (\<lambda>port. on_platform (net_begin E port)),
       isListening := on_platform (isListening E),
       hasPendingConnection := on_platform (hasPendingConnection E),
       accept := on_platform (accept E), transport := (\<lambda>h. on_platform (transport E h)),
       abort := (\<lambda>h (w, x). (abort E h w, x)),
       readSome := (\<lambda>t n. on_platform (readSome E t n)),
       writeSome := (\<lambda>t d. on_platform (writeSome E t d)),
       flush := (\<lambda>t. on_platform (flush E t)),
       connectionState := (\<lambda>t. on_platform (connectionState E t))\<rparr>"

lemma on_platform_eq: "on_platform f s = (a, s') \<longleftrightarrow> f (fst s) = (a, fst s') \<and> snd s' = snd s"
  by (cases s') (auto simp: on_platform_def split: prod.split)

lemma beside_simps [simp]:
  "monotonicMilliseconds (beside E B) = on_platform (monotonicMilliseconds E)"
  "monotonicMicroseconds (beside E B) = on_platform (monotonicMicroseconds E)"
  "progress (beside E B) s = (progress E (fst s), snd s)"
  "availability (beside E B) = on_platform (availability E)"
  "net_begin (beside E B) port = on_platform (net_begin E port)"
  "isListening (beside E B) = on_platform (isListening E)"
  "hasPendingConnection (beside E B) = on_platform (hasPendingConnection E)"
  "accept (beside E B) = on_platform (accept E)"
  "transport (beside E B) h = on_platform (transport E h)"
  "abort (beside E B) h s = (abort E h (fst s), snd s)"
  "readSome (beside E B) t n = on_platform (readSome E t n)"
  "writeSome (beside E B) t data = on_platform (writeSome E t data)"
  "flush (beside E B) t = on_platform (flush E t)"
  "connectionState (beside E B) t = on_platform (connectionState E t)"
  "safetyHook (beside E B) = safetyHook B"
  "telemetryProvider (beside E B) = telemetryProvider B"
  "commandHandler (beside E B) = commandHandler B"
  by (simp_all add: beside_def split_beta)

text \<open>Callbacks that touch no connection, and keep a condition on the program's own state.\<close>

definition board_keeps ::
    "('w \<Rightarrow> bool) \<Rightarrow> ('w \<Rightarrow> connection_handle set) \<Rightarrow> ('f \<Rightarrow> bool) \<Rightarrow> ('w \<times> 'f) env \<Rightarrow> bool" where
  "board_keeps sound live good B \<longleftrightarrow>
     (\<forall>s. sound (fst s) \<and> good (snd s) \<longrightarrow>
        (let keeps = (\<lambda>s'. sound (fst s') \<and> live (fst s') = live (fst s) \<and> good (snd s')) in
         (\<forall>n. keeps (snd (safetyHook B n s))) \<and>
         (\<forall>n o'. keeps (snd (snd (telemetryProvider B n o' s)))) \<and>
         (\<forall>n seq args o'. keeps (snd (snd (commandHandler B n seq args o' s))))))"

lemma board_keeps_calls:
  assumes "board_keeps sound live good B"
  shows "safetyHook B n s = (a, s') \<Longrightarrow> sound (fst s) \<Longrightarrow> good (snd s) \<Longrightarrow>
       sound (fst s') \<and> live (fst s') = live (fst s) \<and> good (snd s')"
    "telemetryProvider B n o' s = (b, o'', s') \<Longrightarrow> sound (fst s) \<Longrightarrow> good (snd s) \<Longrightarrow>
       sound (fst s') \<and> live (fst s') = live (fst s) \<and> good (snd s')"
    "commandHandler B n seq args o' s = (r, o'', s') \<Longrightarrow> sound (fst s) \<Longrightarrow> good (snd s) \<Longrightarrow>
       sound (fst s') \<and> live (fst s') = live (fst s) \<and> good (snd s')"
  using assms unfolding board_keeps_def Let_def by (metis snd_conv)+

lemma quiet_on_platform:
  "monotonicMilliseconds (beside E B) s = (x, s') \<Longrightarrow> quiet E (fst s) (fst s') \<and> snd s' = snd s"
  "monotonicMicroseconds (beside E B) s = (x, s') \<Longrightarrow> quiet E (fst s) (fst s') \<and> snd s' = snd s"
  "availability (beside E B) s = (a, s') \<Longrightarrow> quiet E (fst s) (fst s') \<and> snd s' = snd s"
  "net_begin (beside E B) port s = (b, s') \<Longrightarrow> quiet E (fst s) (fst s') \<and> snd s' = snd s"
  "isListening (beside E B) s = (b, s') \<Longrightarrow> quiet E (fst s) (fst s') \<and> snd s' = snd s"
  "hasPendingConnection (beside E B) s = (b, s') \<Longrightarrow> quiet E (fst s) (fst s') \<and> snd s' = snd s"
  "transport (beside E B) h s = (p, s') \<Longrightarrow> quiet E (fst s) (fst s') \<and> snd s' = snd s"
  "readSome (beside E B) t k s = (bs, s') \<Longrightarrow> quiet E (fst s) (fst s') \<and> snd s' = snd s"
  "writeSome (beside E B) t data s = (n, s') \<Longrightarrow> quiet E (fst s) (fst s') \<and> snd s' = snd s"
  "flush (beside E B) t s = (b, s') \<Longrightarrow> quiet E (fst s) (fst s') \<and> snd s' = snd s"
  "connectionState (beside E B) t s = (st, s') \<Longrightarrow> quiet E (fst s) (fst s') \<and> snd s' = snd s"
  by (auto simp: on_platform_eq intro: quiet_ms [OF _ quiet_refl] quiet_us [OF _ quiet_refl]
      quiet_availability [OF _ quiet_refl] quiet_begin [OF _ quiet_refl] quiet_isListening [OF _ quiet_refl]
      quiet_hasPending [OF _ quiet_refl] quiet_transport [OF _ quiet_refl] quiet_read [OF _ quiet_refl]
      quiet_write [OF _ quiet_refl] quiet_flush [OF _ quiet_refl] quiet_state [OF _ quiet_refl])

context connection_owner
begin

lemma quiet_beside:
  assumes "board_keeps sound live (good :: 'f \<Rightarrow> bool) B" and "quiet (beside E B) x y" and "sound (fst x) \<and> good (snd x)"
  shows "sound (fst y) \<and> live (fst y) = live (fst x) \<and> good (snd y)"
proof -
  have step: "sound (fst w2) \<and> live (fst w2) = live (fst x) \<and> good (snd w2)"
    if "quiet E (fst w1) (fst w2) \<and> snd w2 = snd w1"
      "sound (fst w1) \<and> live (fst w1) = live (fst x) \<and> good (snd w1)" for w1 w2 :: "'w \<times> 'f"
    using quiet_keeps [OF that(1) [THEN conjunct1]] that by simp
  from assms(2,3) show ?thesis
  proof induction
    case quiet_refl
    then show ?case by simp
  next
    case (quiet_hook n w1 safe w2)
    with board_keeps_calls(1) [OF assms(1) quiet_hook(1) [unfolded beside_simps]] show ?case by simp
  next
    case (quiet_provider n ow w1 ok ow' w2)
    with board_keeps_calls(2) [OF assms(1) quiet_provider(1) [unfolded beside_simps]] show ?case by simp
  next
    case (quiet_handler n seq args ow w1 res ow' w2)
    with board_keeps_calls(3) [OF assms(1) quiet_handler(1) [unfolded beside_simps]] show ?case by simp
  next
    case (quiet_progress w1)
    with step [of w1 "(progress E (fst w1), snd w1)"] quiet.quiet_progress [OF quiet.quiet_refl, of E "fst w1"]
    show ?case by simp
  qed (rule step, erule quiet_on_platform, simp)+
qed

lemma owner_beside:
  assumes "board_keeps sound live good B"
  shows "connection_owner (beside E B) (\<lambda>s. sound (fst s) \<and> good (snd s)) (\<lambda>s. live (fst s))"
proof
  show "(sound (fst w') \<and> good (snd w')) \<and> live (fst w') = live (fst w)"
    if "quiet (beside E B) w w'" "sound (fst w) \<and> good (snd w)" for w w'
    using quiet_beside [OF assms that] by simp
  show "(sound (fst w') \<and> good (snd w')) \<and>
      live (fst w') = (if isValidConnectionHandle h then insert h (live (fst w)) else live (fst w)) \<and>
      (isValidConnectionHandle h \<longrightarrow> h \<notin> live (fst w))"
    if "accept (beside E B) w = (h, w')" "sound (fst w) \<and> good (snd w)" for w h w'
    using that accept_issues [of "fst w" h "fst w'"]
    by (auto simp: on_platform_eq)
  show "fst (transport (beside E B) h w) \<noteq> None"
    if "sound (fst w) \<and> good (snd w)" "h \<in> live (fst w)" for w h
    using live_transport [OF that(1) [THEN conjunct1] that(2)]
    by (cases "transport E h (fst w)") (simp add: on_platform_def)
  show "(sound (fst (abort (beside E B) h w)) \<and> good (snd (abort (beside E B) h w))) \<and>
      live (fst (abort (beside E B) h w)) = live (fst w) - {h}"
    if "sound (fst w) \<and> good (snd w)" for w h
    using abort_ends [of "fst w" h] that by simp
qed

end

end
