(* ===== verification/Firmware.thy ===== *)
theory Firmware
  imports QNEthernet Connections
begin

text \<open>
  The program that runs: a server on the QNEthernet platform, with the board's code beside it. The
  platform's live handles are a \<open>connection_owner\<close>: only \<open>accept\<close> and \<open>abort\<close> change them. So the
  slots the platform has active are those the session driver holds, whatever the program, the board
  code, the network and the peer do.
\<close>

section \<open>The platform's connections\<close>

definition platform_connections :: "('c, 'n) platform \<Rightarrow> connection_handle set" where
  "platform_connections sn = {h. platform_live h sn}"

text \<open>The platform without a board; \<open>beside\<close> brings the callbacks.\<close>

definition no_board :: "'w env" where
  "no_board =
     \<lparr>monotonicMilliseconds = (\<lambda>w. (0, w)), monotonicMicroseconds = (\<lambda>w. (0, w)), progress = (\<lambda>w. w),
      availability = (\<lambda>w. (Uninitialized, w)), net_begin = (\<lambda>port w. (False, w)),
      isListening = (\<lambda>w. (False, w)), hasPendingConnection = (\<lambda>w. (False, w)),
      accept = (\<lambda>w. (kInvalidConnection, w)), transport = (\<lambda>h w. (None, w)), abort = (\<lambda>h w. w),
      readSome = (\<lambda>t n w. ([], w)), writeSome = (\<lambda>t d w. (0, w)), flush = (\<lambda>t w. (False, w)),
      connectionState = (\<lambda>t w. (Closed, w)), safetyHook = (\<lambda>n w. (False, w)),
      telemetryProvider = (\<lambda>n o' w. (False, o', w)),
      commandHandler = (\<lambda>n seq args o' w. (internalError (Some ''no board''), o', w))\<rparr>"

definition qn_platform :: "('c, 'n) qnethernet \<Rightarrow> ('c, 'n) platform env" where
  "qn_platform Q = qn_env Q no_board"

lemma quiet_platform_tags:
  assumes "quiet (qn_platform Q) sn sn'"
  shows "slot_tags sn' = slot_tags sn"
proof -
  have lib: "slot_tags (snd (on_library f sn)) = slot_tags sn" for f and sn :: "('a, 'b) platform"
    by (simp add: on_library_def slot_tags_def split: prod.split)
  from assms show ?thesis
  proof induction
    case (quiet_availability sn1 a sn2)
    then show ?case using quiet_tags(3) [of Q sn1] by (simp add: qn_platform_def qn_env_def)
  next
    case (quiet_begin p sn1 b sn2)
    then show ?case using quiet_tags(4) [of Q p sn1] by (simp add: qn_platform_def qn_env_def)
  next
    case (quiet_isListening sn1 b sn2)
    then show ?case using quiet_tags(5) [of Q sn1] by (simp add: qn_platform_def qn_env_def)
  next
    case (quiet_hasPending sn1 b sn2)
    then show ?case using quiet_tags(6) [of Q sn1] by (simp add: qn_platform_def qn_env_def)
  next
    case (quiet_ms sn1 x sn2)
    then show ?case using lib [of "monotonicMilliseconds_qn Q" sn1] by (simp add: qn_platform_def qn_env_def)
  next
    case (quiet_us sn1 x sn2)
    then show ?case using lib [of "monotonicMicroseconds_qn Q" sn1] by (simp add: qn_platform_def qn_env_def)
  next
    case (quiet_read t k sn1 bs sn2)
    then show ?case using on_client_tags [of "readSome_qn Q k" t sn1] by (simp add: qn_platform_def qn_env_def)
  next
    case (quiet_write t data sn1 k sn2)
    then show ?case using on_client_tags [of "writeSome_qn Q data" t sn1] by (simp add: qn_platform_def qn_env_def)
  next
    case (quiet_flush t sn1 b sn2)
    then show ?case using on_client_tags [of "flush_qn Q" t sn1] by (simp add: qn_platform_def qn_env_def)
  next
    case (quiet_state t sn1 st sn2)
    then show ?case using on_client_tags [of "connectionState_qn Q" t sn1] by (simp add: qn_platform_def qn_env_def)
  qed (auto simp: qn_platform_def qn_env_def no_board_def quiet_tags transport_qn_def)
qed

lemma platform_connection_iff:
  "h \<in> platform_connections sn \<longleftrightarrow>
     isValidConnectionHandle h \<and> unat (ch_slot h) < length (qs_slots (fst sn)) \<and>
     sl_active (qs_slots (fst sn) ! unat (ch_slot h)) \<and> \<not> sl_retired (qs_slots (fst sn) ! unat (ch_slot h)) \<and>
     sl_generation (qs_slots (fst sn) ! unat (ch_slot h)) = ch_generation h"
  using lookup_Some [of h "fst sn" "unat (ch_slot h)"]
  by (auto simp: platform_connections_def platform_live_def lookup_Some)

lemma handle_eqI:
  "unat (ch_slot h) = unat (ch_slot h') \<Longrightarrow> ch_generation h = ch_generation h' \<Longrightarrow> h = h'"
  for h h' :: connection_handle
  by (cases h; cases h') (simp add: word_unat_eq_iff)

lemma accept_connections:
  assumes "accept_qn Q sn = (h, sn')" and "platform_ok sn"
  shows "platform_connections sn' =
      (if isValidConnectionHandle h then insert h (platform_connections sn) else platform_connections sn) \<and>
    (isValidConnectionHandle h \<longrightarrow> h \<notin> platform_connections sn)"
proof -
  have st: "platform_step Q Op_Accept sn = (if isValidConnectionHandle h then Some h else None, sn')"
    by (simp add: assms(1))
  from assms(2) st show ?thesis
  proof (cases rule: accept_cases)
    case none
    then have "\<not> isValidConnectionHandle h" by (simp split: if_splits)
    with same_tags [OF none(2)] show ?thesis by (simp add: platform_connections_def)
  next
    case (some h' i c)
    then have h: "h' = h" "isValidConnectionHandle h" by (simp_all split: if_splits)
    note some = some [unfolded h(1)]
    have i: "i < length (qs_slots (fst sn))" using some(2) assms(2) by (simp add: platform_ok_def)
    have "h2 \<in> platform_connections sn' \<longleftrightarrow> h2 = h \<or> h2 \<in> platform_connections sn" for h2
    proof (cases "unat (ch_slot h2) = i")
      case True
      have "h2 \<in> platform_connections sn' \<longleftrightarrow> isValidConnectionHandle h2 \<and> ch_generation h2 = ch_generation h"
        using True some(6,8) i by (auto simp: platform_connection_iff)
      also have "\<dots> \<longleftrightarrow> h2 = h" using handle_eqI [of h2 h] True some(3) h(2) by auto
      finally show ?thesis using True some(5) by (auto simp: platform_connection_iff)
    next
      case False
      with some i show ?thesis by (auto simp: platform_connection_iff)
    qed
    moreover have "h \<notin> platform_connections sn" using some by (simp add: platform_connection_iff)
    ultimately show ?thesis using h(2) by auto
  qed
qed

lemma abort_connections:
  assumes "platform_ok sn"
  shows "platform_connections (abort_qn Q h sn) = platform_connections sn - {h}"
proof -
  have "abort_qn Q h sn = abort_qn Q h sn \<or> abort_qn Q h sn = close_qn Q h sn" by simp
  then show ?thesis
  proof (cases rule: drop_cases)
    case none
    with same_tags [OF none(2)] show ?thesis by (auto simp: platform_connections_def platform_live_def)
  next
    case (some i c)
    note l = some(1) [unfolded lookup_Some]
    have "h2 \<in> platform_connections (abort_qn Q h sn) \<longleftrightarrow> h2 \<in> platform_connections sn \<and> h2 \<noteq> h" for h2
    proof (cases "unat (ch_slot h2) = i")
      case True
      with some(2) l invalidate_slot_simps(1) handle_eqI [of h2 h] show ?thesis
        by (auto simp: platform_connection_iff)
    next
      case False
      with some(2) l show ?thesis by (auto simp: platform_connection_iff)
    qed
    then show ?thesis by auto
  qed
qed

interpretation qc: connection_owner "qn_platform Q" platform_ok platform_connections
  for Q :: "('c, 'n) qnethernet"
proof unfold_locales
  fix sn sn' :: "('c, 'n) platform" and h
  show "platform_ok sn' \<and> platform_connections sn' = platform_connections sn"
    if "quiet (qn_platform Q) sn sn'" "platform_ok sn"
    using same_tags [OF quiet_platform_tags [OF that(1)]] that(2) by (simp add: platform_connections_def)
  show "platform_ok sn' \<and> platform_connections sn' =
      (if isValidConnectionHandle h then insert h (platform_connections sn) else platform_connections sn) \<and>
      (isValidConnectionHandle h \<longrightarrow> h \<notin> platform_connections sn)"
    if "accept (qn_platform Q) sn = (h, sn')" "platform_ok sn"
    using that accept_connections [of Q sn h sn'] ct.ok_step [OF that(2), of Q Op_Accept]
    by (simp add: qn_platform_def qn_env_def)
  show "fst (transport (qn_platform Q) h sn) \<noteq> None" if "h \<in> platform_connections sn"
    using that by (simp add: qn_platform_def qn_env_def transport_qn_def platform_connections_def platform_live_def)
  show "platform_ok (abort (qn_platform Q) h sn) \<and>
      platform_connections (abort (qn_platform Q) h sn) = platform_connections sn - {h}" if "platform_ok sn"
    using abort_connections [OF that] ct.ok_step [OF that, of Q "Op_Abort h"]
    by (simp add: qn_platform_def qn_env_def)
qed

section \<open>No connection is lost\<close>

lemma settled_held:
  assumes "server_reaches E lib sv" and "tc_session_driver sv = Some d"
  shows "held d = (if sd_state d = SESSION_ACTIVE then {sd_active_handle d} else {})"
proof -
  have d: "driver_ok d" "\<not> sd_teardown_pending d"
    using server_reaches_ok [OF assms(1)] assms(2)
    by (simp_all add: server_ok_def Let_def loop_settled_def loop_running_def loop_state_of_def teardownPending_def)
  then have "sd_state d \<noteq> SESSION_CLOSING" "sd_state d \<noteq> SESSION_CONNECTED"
    by (auto simp: driver_ok_def driver_base_def)
  with d show ?thesis by (auto simp: held_def driver_ok_def driver_base_def in_session_def)
qed

lemma new_platform_empty:
  assumes "qs_slots s = qs_slots (new_network_server Q)"
  shows "platform_ok (s, n) \<and> platform_connections (s, n) = {}"
  using assms
  by (auto simp: platform_ok_def platform_connection_iff new_network_server_def kConnectionSlotCount_def)

text \<open>
  Between two calls anything may change but the network server's own state, which only its
  operations change: the library and its interrupts, the network, the program's variables.
\<close>

definition same_network :: "('c, 'n) platform \<times> 'f \<Rightarrow> ('c, 'n) platform \<times> 'f \<Rightarrow> bool" where
  "same_network w w' \<longleftrightarrow> fst (fst w') = fst (fst w)"

lemma same_network_keeps:
  "same_network w w' \<Longrightarrow> platform_ok (fst w) \<Longrightarrow>
     platform_ok (fst w') \<and> platform_connections (fst w') = platform_connections (fst w)"
  using same_tags [of "fst w'" "fst w"]
  by (simp add: same_network_def slot_tags_def platform_connections_def)



section \<open>Every turn ends\<close>

text \<open>
  What the loops need of the library: \<open>time\<close> is the time in milliseconds, of which \<open>millis()\<close>
  shows the low 32 bits; no call turns it back or takes \<open>2^28\<close> milliseconds (three days), and pumping
  the stack takes some time. \<open>backlog\<close> counts the bytes received but not read: asking about a
  connection adds none, and a read that returns bytes takes some.
\<close>

definition brief :: "('n \<Rightarrow> nat) \<Rightarrow> 'n \<Rightarrow> 'n \<Rightarrow> bool" where
  "brief time n n' \<longleftrightarrow> time n \<le> time n' \<and> time n' < time n + 2 ^ 28"

definition library_clock :: "('c, 'n) qnethernet \<Rightarrow> ('n \<Rightarrow> nat) \<Rightarrow> bool" where
  "library_clock Q time \<longleftrightarrow>
     (\<forall>n. fst (qn_millis Q n) = word_of_nat (time (snd (qn_millis Q n))) \<and>
        brief time n (snd (qn_millis Q n)) \<and> brief time n (snd (qn_linkOff Q n)) \<and>
        brief time n (snd (qn_begin_dhcp Q n)) \<and> brief time n (qn_loop Q n) \<and>
        brief time n (qn_yield Q n) \<and> time n < time (qn_yield Q (qn_loop Q n))) \<and>
     (\<forall>ip subnet gateway n. brief time n (snd (qn_begin_static Q ip subnet gateway n))) \<and>
     (\<forall>c n. brief time n (snd (snd (qn_connected Q c n)))) \<and>
     (\<forall>d c n. brief time n (snd (snd (qn_write Q d c n))))"

definition library_backlog :: "('c, 'n) qnethernet \<Rightarrow> ('n \<Rightarrow> nat) \<Rightarrow> bool" where
  "library_backlog Q backlog \<longleftrightarrow>
     (\<forall>n. backlog (snd (qn_linkOff Q n)) \<le> backlog n) \<and>
     (\<forall>c n. backlog (snd (snd (qn_available Q c n))) \<le> backlog n \<and>
        backlog (snd (snd (qn_connected Q c n))) \<le> backlog n) \<and>
     (\<forall>k c n. 0 < fst (fst (qn_read Q k c n)) \<and> snd (fst (qn_read Q k c n)) \<noteq> [] \<longrightarrow>
        backlog (snd (snd (qn_read Q k c n))) < backlog n)"

lemma brief_trans3:
  assumes "brief time a b" and "brief time b c" and "brief time c d"
  shows "takes_time time a b" and "takes_time time a c" and "takes_time time a d"
  using assms by (simp_all add: brief_def takes_time_def)

lemma brief_refl: "brief time n n"
  by (simp add: brief_def)

lemma library_clock_calls:
  assumes "library_clock Q time"
  shows "qn_millis Q n = (t, n') \<Longrightarrow> t = word_of_nat (time n') \<and> brief time n n'"
    "qn_linkOff Q n = (b, n') \<Longrightarrow> brief time n n'"
    "qn_begin_dhcp Q n = (b, n') \<Longrightarrow> brief time n n'"
    "qn_begin_static Q ip subnet gateway n = (b, n') \<Longrightarrow> brief time n n'"
    "qn_connected Q c n = (b, c', n') \<Longrightarrow> brief time n n'"
    "qn_write Q d c n = (k, c', n') \<Longrightarrow> brief time n n'"
    "brief time n (qn_loop Q n)" "brief time n (qn_yield Q n)"
    "time n < time (qn_yield Q (qn_loop Q n))"
  using assms unfolding library_clock_def by (metis fst_conv snd_conv)+

lemma library_backlog_calls:
  assumes "library_backlog Q backlog"
  shows "qn_linkOff Q n = (b, n') \<Longrightarrow> backlog n' \<le> backlog n"
    "qn_available Q c n = (k, c', n') \<Longrightarrow> backlog n' \<le> backlog n"
    "qn_connected Q c n = (b, c', n') \<Longrightarrow> backlog n' \<le> backlog n"
    "qn_read Q m c n = ((got, bs), c', n') \<Longrightarrow> 0 < got \<Longrightarrow> bs \<noteq> [] \<Longrightarrow> backlog n' < backlog n"
  using assms unfolding library_backlog_def by (metis fst_conv snd_conv)+

lemma on_client_parts:
  "fst (on_client f t sn) = fst (f (sl_client (qs_slots (fst sn) ! t)) (snd sn))"
  "snd (snd (on_client f t sn)) = snd (snd (f (sl_client (qs_slots (fst sn) ! t)) (snd sn)))"
  by (simp_all add: on_client_def split_beta)

lemma writeSome_brief:
  assumes "library_clock Q time"
  shows "takes_time time n (snd (snd (writeSome_qn Q d c n)))"
proof -
  obtain off n1 where l: "qn_linkOff Q n = (off, n1)" by (cases "qn_linkOff Q n")
  obtain up c1 n2 where u: "qn_connected Q c n1 = (up, c1, n2)" by (cases "qn_connected Q c n1") auto
  obtain k c2 n3 where w: "qn_write Q d c1 n2 = (k, c2, n3)" by (cases "qn_write Q d c1 n2") auto
  note c = library_clock_calls [OF assms]
  note t = brief_trans3 [OF c(2) [OF l] c(5) [OF u] c(6) [OF w]]
    brief_trans3(1) [OF brief_refl brief_refl brief_refl]
  show ?thesis by (auto simp: writeSome_qn_def l u w t split: bool.split)
qed

lemma progress_brief:
  assumes "library_clock Q time"
  shows "takes_time time (snd sn) (snd (progress_qn Q sn)) \<and> time (snd sn) < time (snd (progress_qn Q sn))"
proof -
  note c = library_clock_calls [OF assms]
  obtain s1 n1 where b: "beginInterfaceIfNeeded Q sn = (s1, n1)" by (cases "beginInterfaceIfNeeded Q sn")
  have "brief time (snd sn) n1"
    using b c(3,4)
    by (cases sn) (auto simp: beginInterfaceIfNeeded_def Let_def brief_refl split: if_splits prod.splits)
  from brief_trans3(3) [OF this c(7,8)] c(9) [of n1] this show ?thesis
    by (simp add: progress_qn_def b brief_def)
qed

lemma platform_clock:
  assumes "library_clock Q time"
  shows "running_clock (qn_env Q B) (\<lambda>sn. time (snd sn))"
proof -
  note c = library_clock_calls [OF assms]
  have ms: "fst (monotonicMilliseconds (qn_env Q B) sn) =
      clock_reading False (time (snd (snd (monotonicMilliseconds (qn_env Q B) sn)))) \<and>
      takes_time time (snd sn) (snd (snd (monotonicMilliseconds (qn_env Q B) sn)))" for sn
  proof -
    obtain t n1 where m: "qn_millis Q (snd sn) = (t, n1)" by (cases "qn_millis Q (snd sn)")
    from c(1) [OF this] brief_trans3(1) [OF _ brief_refl brief_refl, of time "snd sn" n1] m show ?thesis
      by (simp add: qn_env_def on_library_def monotonicMilliseconds_qn_def clock_reading_def)
  qed
  have "takes_time time (snd sn) (snd (snd (writeSome (qn_env Q B) t d sn)))" for t d sn
    using writeSome_brief [OF assms] by (simp add: qn_env_def on_client_parts)
  moreover have "progress (qn_env Q B) sn = progress_qn Q sn" for sn by (simp add: qn_env_def)
  ultimately show ?thesis
    using ms progress_brief [OF assms] unfolding running_clock_def takes_time_def by metis
qed

lemma platform_backlog:
  assumes "library_backlog Q backlog"
  shows "finite_backlog (qn_env Q B) (\<lambda>sn. backlog (snd sn))"
proof -
  note b = library_backlog_calls [OF assms]
  have state: "backlog (snd (snd (connectionState_qn Q c n))) \<le> backlog n" for c n
  proof -
    obtain off n1 where l: "qn_linkOff Q n = (off, n1)" by (cases "qn_linkOff Q n")
    obtain k c1 n2 where a: "qn_available Q c n1 = (k, c1, n2)" by (cases "qn_available Q c n1") auto
    obtain up c2 n3 where u: "qn_connected Q c1 n2 = (up, c2, n3)" by (cases "qn_connected Q c1 n2") auto
    from b(1) [OF l] b(2) [OF a] b(3) [OF u] show ?thesis
      by (simp add: connectionState_qn_def l a u split: bool.split)
  qed
  have read: "backlog (snd (snd (readSome_qn Q k c n))) < backlog n" if "fst (readSome_qn Q k c n) \<noteq> []" for k c n
  proof -
    obtain off n1 where l: "qn_linkOff Q n = (off, n1)" by (cases "qn_linkOff Q n")
    obtain avail c1 n2 where a: "qn_available Q c n1 = (avail, c1, n2)" by (cases "qn_available Q c n1") auto
    obtain got bs c2 n3 where r: "qn_read Q (min k (nat avail)) c1 n2 = ((got, bs), c2, n3)"
      by (cases "qn_read Q (min k (nat avail)) c1 n2") auto
    have run: "readSome_qn Q k c n = (take (nat got) bs, c2, n3)" "0 < got" "bs \<noteq> []"
      using that by (auto simp: readSome_qn_def l a r split: if_splits bool.splits)
    from b(1) [OF l] b(2) [OF a] b(4) [OF r run(2,3)] run(1) show ?thesis by simp
  qed
  from state read show ?thesis
    by (simp add: finite_backlog_def qn_env_def on_client_parts)
qed

lemma beside_runs:
  "running_clock E time \<Longrightarrow> running_clock (beside E B) (\<lambda>s. time (fst s))"
  "finite_backlog E backlog \<Longrightarrow> finite_backlog (beside E B) (\<lambda>s. backlog (fst s))"
  by (auto simp: running_clock_def takes_time_def finite_backlog_def on_platform_def split_beta)



section \<open>The interface is started once\<close>

text \<open>The constructor that is given a configuration.\<close>

definition configured_network_server :: "('c, 'n) qnethernet \<Rightarrow> network_config \<Rightarrow> 'c network_server" where
  "configured_network_server Q config = configure_qn config (new_network_server Q)"

definition interface_failed :: "'c network_server \<Rightarrow> bool" where
  "interface_failed s \<longleftrightarrow>
     qs_interface_begin_attempted s \<and> \<not> qs_interface_started s \<and> \<not> qs_listening s"

lemma failed_calls:
  assumes "interface_failed (fst sn)"
  shows "beginInterfaceIfNeeded Q sn = sn" and "availability_qn Q sn = (Uninitialized, sn)"
    and "begin_qn Q port sn = (False, sn)" and "isListening_qn Q sn = (False, sn)"
    and "hasPendingConnection_qn Q sn = (False, sn)" and "accept_qn Q sn = (kInvalidConnection, sn)"
  using assms
  by (cases sn; simp add: interface_failed_def beginInterfaceIfNeeded_def availability_qn_def begin_qn_def
      isListening_qn_def hasPendingConnection_qn_def accept_qn_def)+

lemma failed_on_client: "interface_failed (fst (snd (on_client f t sn))) = interface_failed (fst sn)"
  by (simp add: on_client_def interface_failed_def split_beta)

lemma failed_step:
  assumes "interface_failed (fst sn)" and "\<And>config. op \<noteq> Op_Configure config"
  shows "fst (platform_step Q op sn) = None \<and> interface_failed (fst (snd (platform_step Q op sn)))"
proof -
  note f = failed_calls [OF assms(1), of Q] assms(1)
  have "interface_failed (fst (abort_qn Q h sn))" "interface_failed (fst (close_qn Q h sn))" for h
    using assms(1)
    by (cases sn; simp add: abort_qn_def close_qn_def interface_failed_def split: option.split prod.split)+
  note drop = this
  show ?thesis
  proof (cases op)
    case (Op_Configure config)
    with assms(2) show ?thesis by blast
  qed (use f drop in \<open>cases sn; simp add: progress_qn_def failed_on_client\<close>)+
qed

lemma failed_run:
  "interface_failed (fst sn) \<Longrightarrow> \<forall>op \<in> set ops. \<forall>config. op \<noteq> Op_Configure config \<Longrightarrow>
     fst (run_steps (platform_step Q) ops sn) = [] \<and>
     interface_failed (fst (snd (run_steps (platform_step Q) ops sn)))"
proof (induction ops arbitrary: sn)
  case (Cons op ops)
  obtain issued sn1 where st: "platform_step Q op sn = (issued, sn1)" by (cases "platform_step Q op sn")
  from failed_step [OF Cons.prems(1), of op Q] Cons.prems(2) st
  have s1: "issued = None" "interface_failed (fst sn1)" by auto
  from Cons.IH [OF s1(2)] Cons.prems(2) s1(1) show ?case by (simp add: st split_beta)
qed simp

text \<open>
  C27: the network interface is started at most once. When the first attempt after \<open>configure\<close>
  fails, then whatever operations follow, short of another \<open>configure\<close>, the network stays
  \<open>Uninitialized\<close>, no call of \<open>begin\<close> succeeds, no connection is ever accepted, and a session
  driver that waits for the network waits for ever: its retries never reach the interface.
\<close>

theorem failed_interface_begin_is_final:
  assumes "beginInterfaceIfNeeded Q (configure_qn config s0, n0) = (s, n)" and "\<not> qs_interface_started s"
    and "run_steps (platform_step Q) ops (s, n) = (hs, sn)"
    and "\<forall>op \<in> set ops. \<forall>config'. op \<noteq> Op_Configure config'"
  shows "hs = [] \<and> fst (availability_qn Q sn) = Uninitialized \<and> \<not> fst (begin_qn Q port sn) \<and>
     (sd_configured d \<and> sd_state d = NETWORK_STARTING \<longrightarrow>
        (\<exists>sn'. poll (qn_env Q B) (d, c, sn) = Some (d, c, sn')))"
proof -
  have "interface_failed s"
    using assms(1,2)
    by (auto simp: beginInterfaceIfNeeded_def configure_qn_def interface_failed_def Let_def split: prod.splits)
  with failed_run [of "(s, n)" ops Q] assms(3,4) have f: "hs = []" "interface_failed (fst sn)" by simp_all
  obtain sn1 where p: "progress_qn Q sn = sn1" "interface_failed (fst sn1)"
    using f(2) failed_calls(1) [OF f(2), of Q] by (cases sn) (simp add: progress_qn_def)
  from failed_calls(2) [OF p(2), of Q] p(1)
  have "poll (qn_env Q B) (d, c, sn) = Some (d, c, sn1)"
    if "sd_configured d" "sd_state d = NETWORK_STARTING"
    using that by (simp add: poll_def pumpNetworkStarting_def qn_env_def Let_def)
  with f(1) failed_calls [OF f(2)] show ?thesis by simp
qed

lemma failed_interface_begin_is_final_witness:
  "let Q = sample_qn\<lparr>qn_begin_dhcp := (\<lambda>n. (False, n))\<rparr>;
       config = \<lparr>nc_mode = Dhcp, nc_listen_port = 80, nc_ip = (0, 0, 0, 0), nc_gateway = (0, 0, 0, 0),
         nc_subnet = (0, 0, 0, 0)\<rparr>;
       sn = progress_qn Q (configured_network_server Q config, 5)
   in fst (availability_qn Q sn) = Uninitialized \<and> \<not> fst (begin_qn Q 80 sn)"
proof -
  define Q where "Q = sample_qn\<lparr>qn_begin_dhcp := (\<lambda>n. (False, n))\<rparr>"
  define config where "config = \<lparr>nc_mode = Dhcp, nc_listen_port = 80, nc_ip = (0, 0, 0, 0),
      nc_gateway = (0, 0, 0, 0), nc_subnet = (0, 0, 0, 0)\<rparr>"
  obtain s n where b: "beginInterfaceIfNeeded Q (configure_qn config (new_network_server Q), 5) = (s, n)"
    by (cases "beginInterfaceIfNeeded Q (configure_qn config (new_network_server Q), 5)")
  have down: "\<not> qs_interface_started s"
    using b by (auto simp: beginInterfaceIfNeeded_def configure_qn_def config_def Q_def Let_def)
  obtain hs sn where r: "run_steps (platform_step Q) [Op_Progress] (s, n) = (hs, sn)"
    by (cases "run_steps (platform_step Q) [Op_Progress] (s, n)")
  note final = failed_interface_begin_is_final [OF b down r, of 80]
  have "progress_qn Q (configured_network_server Q config, 5) = (s, qn_yield Q (qn_loop Q n))"
    by (simp add: progress_qn_def configured_network_server_def b)
  moreover have "beginInterfaceIfNeeded Q (s, n) = (s, n)"
    using b by (auto simp: beginInterfaceIfNeeded_def configure_qn_def config_def Q_def Let_def)
  ultimately have "sn = progress_qn Q (configured_network_server Q config, 5)"
    using r by (simp add: progress_qn_def)
  with final show ?thesis by (simp add: Q_def [symmetric] config_def [symmetric] Let_def)
qed

end
