(* ===== verification/Conformance.thy ===== *)
theory Conformance
  imports Firmware DiagnosticsCommand
begin

text \<open>
  A board program, \<open>sketches/command_server_conformance/command_server_conformance.ino\<close>: the fixture
  the host's conformance tests talk to. It is the whole program above the library: its state, the
  eight test commands, the telemetry provider, the two safety hooks, \<open>setup\<close> and \<open>loop\<close>.

  The callbacks run beside the QNEthernet platform. A function pointer is the number under which
  the environment knows the function; its context pointer is always the fixture.
\<close>

section \<open>The fixture\<close>

definition kListenPort :: u16 where "kListenPort = 5051"
definition kLargePayloadBytes :: nat where "kLargePayloadBytes = 8100"
definition kOverBudgetDelayMs :: u32 where "kOverBudgetDelayMs = 150"

datatype telemetry_mode = Normal_Mode | Oversized_Mode | ProviderFailure_Mode

fun mode_number :: "telemetry_mode \<Rightarrow> i32" where
  "mode_number Normal_Mode = 0"
| "mode_number Oversized_Mode = 1"
| "mode_number ProviderFailure_Mode = 2"

text \<open>The cast of a number that was checked to be one of the three.\<close>

definition mode_of :: "i32 \<Rightarrow> telemetry_mode" where
  "mode_of n = (if n = 0 then Normal_Mode else if n = 1 then Oversized_Mode else ProviderFailure_Mode)"

record fixture_state =
  fx_echo_value :: i32
  fx_telemetry_mode :: telemetry_mode
  fx_next_estop_safe :: bool
  fx_next_estop_over_budget :: bool
  fx_controller_loss_over_budget :: bool
  fx_estop_trigger_pending :: bool
  fx_estop_reason :: c_string
  fx_large_payload :: bytes

definition initial_fixture :: fixture_state where
  "initial_fixture =
     \<lparr>fx_echo_value = 0, fx_telemetry_mode = Normal_Mode, fx_next_estop_safe = True,
      fx_next_estop_over_budget = False, fx_controller_loss_over_budget = False,
      fx_estop_trigger_pending = False, fx_estop_reason = Some ''fixture_requested'',
      fx_large_payload = replicate (kLargePayloadBytes + 1) NUL\<rparr>"

definition network_config_conformance :: network_config where
  "network_config_conformance =
     \<lparr>nc_mode = Dhcp, nc_listen_port = kListenPort, nc_ip = (0, 0, 0, 0), nc_gateway = (0, 0, 0, 0),
      nc_subnet = (0, 0, 0, 0)\<rparr>"

section \<open>The command handlers\<close>

type_synonym fixture_handler =
  "command_args \<Rightarrow> object_writer \<Rightarrow> fixture_state \<Rightarrow> command_result \<times> object_writer \<times> fixture_state"

definition testEcho :: fixture_handler where
  "testEcho args result state =
     (case args_getInt args (Some ''value'') of
        None \<Rightarrow> (invalidType (Some ''value must be an int''), result, state)
      | Some value \<Rightarrow>
          let state1 = state\<lparr>fx_echo_value := value\<rparr> in
          case addInt_ow (Some ''value'') value result of
            (False, result1) \<Rightarrow> (internalError (Some ''echo result overflow''), result1, state1)
          | (True, result1) \<Rightarrow> (ok_result, result1, state1))"

definition testOversizedResult :: fixture_handler where
  "testOversizedResult args result state =
     (case addString_ow (Some ''payload'') (Some (fx_large_payload state)) result of
        (_, result1) \<Rightarrow> (ok_result, result1, state))"

text \<open>The last step of six handlers: a member, or an error when it did not fit.\<close>

definition testEstopSuccess :: fixture_handler where
  "testEstopSuccess args result state =
     (let state1 = state\<lparr>fx_next_estop_safe := True, fx_next_estop_over_budget := False\<rparr> in
      case addBool_ow (Some ''next_estop_safe'') True result of
        (ok, result1) \<Rightarrow>
          (if ok then ok_result else internalError (Some ''estop mode result overflow''), result1, state1))"

definition testEstopFail :: fixture_handler where
  "testEstopFail args result state =
     (let state1 = state\<lparr>fx_next_estop_safe := False, fx_next_estop_over_budget := False\<rparr> in
      case addBool_ow (Some ''next_estop_safe'') False result of
        (ok, result1) \<Rightarrow>
          (if ok then ok_result else internalError (Some ''estop mode result overflow''), result1, state1))"

definition testEstopOverBudget :: fixture_handler where
  "testEstopOverBudget args result state =
     (let state1 = state\<lparr>fx_next_estop_safe := True, fx_next_estop_over_budget := True\<rparr> in
      case addBool_ow (Some ''next_estop_over_budget'') True result of
        (ok, result1) \<Rightarrow>
          (if ok then ok_result else internalError (Some ''estop mode result overflow''), result1, state1))"

definition testLossOverBudget :: fixture_handler where
  "testLossOverBudget args result state =
     (case args_getBool args (Some ''enabled'') of
        None \<Rightarrow> (invalidType (Some ''enabled must be a bool''), result, state)
      | Some enabled \<Rightarrow>
          let state1 = state\<lparr>fx_controller_loss_over_budget := enabled\<rparr> in
          case addBool_ow (Some ''enabled'') enabled result of
            (ok, result1) \<Rightarrow>
              (if ok then ok_result else internalError (Some ''loss mode result overflow''), result1, state1))"

definition testTelemetryMode :: fixture_handler where
  "testTelemetryMode args result state =
     (case args_getInt args (Some ''mode'') of
        None \<Rightarrow> (invalidType (Some ''mode must be an int''), result, state)
      | Some mode \<Rightarrow>
          if sint mode < 0 \<or> 2 < sint mode
          then (invalidArgument (Some ''mode must be 0, 1, or 2''), result, state)
          else
            let state1 = state\<lparr>fx_telemetry_mode := mode_of mode\<rparr> in
            case addInt_ow (Some ''mode'') mode result of
              (ok, result1) \<Rightarrow>
                (if ok then ok_result else internalError (Some ''telemetry mode result overflow''),
                 result1, state1))"

definition testTriggerEstop :: fixture_handler where
  "testTriggerEstop args result state =
     (let state1 = state\<lparr>fx_estop_trigger_pending := True\<rparr> in
      case addBool_ow (Some ''queued'') True result of
        (ok, result1) \<Rightarrow>
          (if ok then ok_result else internalError (Some ''trigger result overflow''), result1, state1))"

definition test_handlers :: "fixture_handler list" where
  "test_handlers =
     [testEcho, testOversizedResult, testEstopSuccess, testEstopFail, testEstopOverBudget,
      testLossOverBudget, testTelemetryMode, testTriggerEstop]"

section \<open>Telemetry and safety\<close>

definition writeTelemetry :: "object_writer \<Rightarrow> fixture_state \<Rightarrow> bool \<times> object_writer \<times> fixture_state" where
  "writeTelemetry telemetry state =
     (if fx_telemetry_mode state = ProviderFailure_Mode then (False, telemetry, state)
      else case run_all [addInt_ow (Some ''echo_value'') (fx_echo_value state),
                   addInt_ow (Some ''telemetry_mode'') (mode_number (fx_telemetry_mode state))] telemetry of
        (False, telemetry1) \<Rightarrow> (False, telemetry1, state)
      | (True, telemetry1) \<Rightarrow>
          if fx_telemetry_mode state = Oversized_Mode
          then case addString_ow (Some ''overflow_payload'') (Some (fx_large_payload state)) telemetry1 of
            (ok, telemetry2) \<Rightarrow> (ok, telemetry2, state)
          else (True, telemetry1, state))"

text \<open>
  The Arduino core: the serial port, \<open>delay\<close>, the octets of an address, and the library call that
  registers a callback for address changes.
\<close>

record 'n arduino =
  ar_serialBegin :: "nat \<Rightarrow> 'n \<Rightarrow> 'n"
  ar_serialPrint :: "bytes \<Rightarrow> 'n \<Rightarrow> 'n"
  ar_delay :: "u32 \<Rightarrow> 'n \<Rightarrow> 'n"
  ar_octet :: "u32 \<Rightarrow> nat \<Rightarrow> u8"
  ar_onAddressChanged :: "('n \<Rightarrow> 'n) \<Rightarrow> 'n \<Rightarrow> 'n"

definition on_arduino :: "('n \<Rightarrow> 'n) \<Rightarrow> ('c, 'n) platform \<times> 'f \<Rightarrow> ('c, 'n) platform \<times> 'f" where
  "on_arduino f w = (case w of ((s, n), x) \<Rightarrow> ((s, f n), x))"

definition handleEstop_fixture ::
    "'n arduino \<Rightarrow> ('c, 'n) platform \<times> fixture_state \<Rightarrow> bool \<times> ('c, 'n) platform \<times> fixture_state" where
  "handleEstop_fixture ar w0 =
     (let w = (if fx_next_estop_over_budget (snd w0) then on_arduino (ar_delay ar kOverBudgetDelayMs) w0
               else w0);
          safe = fx_next_estop_safe (snd w)
      in (safe, (fst w, (snd w)\<lparr>fx_next_estop_safe := True, fx_next_estop_over_budget := False\<rparr>)))"

definition handleControllerLoss ::
    "'n arduino \<Rightarrow> ('c, 'n) platform \<times> fixture_state \<Rightarrow> bool \<times> ('c, 'n) platform \<times> fixture_state" where
  "handleControllerLoss ar w =
     (True, if fx_controller_loss_over_budget (snd w) then on_arduino (ar_delay ar kOverBudgetDelayMs) w
            else w)"

text \<open>
  The program's callbacks as the library sees them. The safety hooks are numbers 0 and 1, the
  handlers their positions in \<open>test_handlers\<close>; no other number is ever registered.
\<close>

definition conformance_board :: "'n arduino \<Rightarrow> (('c, 'n) platform \<times> fixture_state) env" where
  "conformance_board ar =
     no_board
       \<lparr>safetyHook := (\<lambda>k. if k = 0 then handleEstop_fixture ar else handleControllerLoss ar),
        telemetryProvider := (\<lambda>k telemetry w.
          case writeTelemetry telemetry (snd w) of (ok, o', x) \<Rightarrow> (ok, o', (fst w, x))),
        commandHandler := (\<lambda>k seq args result w.
          if k < length test_handlers
          then case (test_handlers ! k) args result (snd w) of (res, o', x) \<Rightarrow> (res, o', (fst w, x))
          else (internalError (Some ''unknown handler''), result, w))\<rparr>"

definition conformance_env ::
    "('c, 'n) qnethernet \<Rightarrow> 'n arduino \<Rightarrow> (('c, 'n) platform \<times> fixture_state) env" where
  "conformance_env Q ar = beside (qn_platform Q) (conformance_board ar)"

section \<open>setup and loop\<close>

type_synonym ('c, 'n) firmware = "(('c, 'n) platform \<times> fixture_state) teensy_command_server"

definition on_world :: "('w \<Rightarrow> 'w) \<Rightarrow> 'w teensy_command_server \<Rightarrow> 'w teensy_command_server" where
  "on_world f sv = sv\<lparr>tc_shared := (tc_shared sv)\<lparr>sh_world := f (sh_world (tc_shared sv))\<rparr>\<rparr>"

text \<open>A configuration call whose status is thrown away, as all of them are.\<close>

definition do_configure :: "facade_call \<Rightarrow> 'w teensy_command_server \<Rightarrow> 'w teensy_command_server" where
  "do_configure call = on_members (\<lambda>m. snd (configure call m))"

definition fillLargePayload :: "fixture_state \<Rightarrow> fixture_state" where
  "fillLargePayload state =
     state\<lparr>fx_large_payload := (replicate kLargePayloadBytes (CHR ''x'') @
              drop kLargePayloadBytes (fx_large_payload state))[kLargePayloadBytes := NUL]\<rparr>"

definition test_command :: "bytes \<Rightarrow> (bytes \<times> value_type) list \<Rightarrow> nat \<Rightarrow> facade_call" where
  "test_command name args k =
     Call_registerCommand
       \<lparr>cs_name = Some name, cs_args = (if args = [] then None else Some (map (\<lambda>(a, t). (Some a, t)) args)),
        cs_arg_count = length args, cs_blocked_by_estop = False\<rparr> (Some (App_Handler k))"

definition registerCommands :: "'w teensy_command_server \<Rightarrow> 'w teensy_command_server" where
  "registerCommands = fold do_configure
     [test_command ''test_echo'' [(''value'', Int_Type)] 0,
      test_command ''test_oversized_result'' [] 1,
      test_command ''test_estop_success'' [] 2,
      test_command ''test_estop_fail'' [] 3,
      test_command ''test_estop_over_budget'' [] 4,
      test_command ''test_loss_over_budget'' [(''enabled'', Bool_Type)] 5,
      test_command ''test_telemetry_mode'' [(''mode'', Int_Type)] 6,
      test_command ''test_trigger_estop'' [] 7]"

definition addressChanged :: "('c, 'n) qnethernet \<Rightarrow> 'n arduino \<Rightarrow> 'n \<Rightarrow> 'n" where
  "addressChanged Q ar n =
     (case qn_localIP Q n of
        (ip, n1) \<Rightarrow>
          if ip = qn_INADDR_NONE Q then n1
          else ar_serialPrint ar (''IP address: '' @
                 concat (map (\<lambda>i. (if i = 0 then [] else ''.'') @ dec_nat (unat (ar_octet ar ip i))) [0..<4]) @
                 [CHR 0x0D, LF]) n1)"

definition setup_conformance :: "('c, 'n) qnethernet \<Rightarrow> 'n arduino \<Rightarrow> ('c, 'n) firmware \<Rightarrow> ('c, 'n) firmware" where
  "setup_conformance Q ar sv0 =
     (let sv1 = on_world (on_arduino (ar_serialBegin ar 9600)) sv0;
          sv2 = on_world (\<lambda>w. (fst w, fillLargePayload (snd w))) sv1;
          sv3 = on_world (on_arduino (ar_serialPrint ar (''beginning'' @ [CHR 0x0D, LF]))) sv2;
          sv4 = on_world (on_arduino (ar_onAddressChanged ar (addressChanged Q ar))) sv3;
          sv5 = do_configure (Call_setIdentity \<lparr>board_id = Some ''command_server_conformance'',
                  protocol_version = Some ''1'', firmware_version = Some ''0.1.0''\<rparr>) sv4;
          sv6 = do_configure (Call_setNetworkConfig network_config_conformance) sv5;
          sv7 = registerCommands sv6;
          sv8 = do_configure (Call_registerTelemetrySchema
                  (Some [(Some ''echo_value'', Int_Type), (Some ''telemetry_mode'', Int_Type),
                         (Some ''overflow_payload'', String_Type)]) 3) sv7;
          sv9 = do_configure (Call_setTelemetryProvider (Some 0)) sv8;
          sv10 = do_configure (Call_setEstopHook (Some 0)) sv9;
          sv11 = do_configure (Call_setControllerLossHook (Some 1)) sv10;
          sv12 = do_configure Call_enableCountersDiagnosticCommand sv11
      in snd (start (conformance_env Q ar) sv12))"

definition loop_conformance ::
    "('c, 'n) qnethernet \<Rightarrow> 'n arduino \<Rightarrow> json_library \<Rightarrow> ('c, 'n) firmware \<Rightarrow> ('c, 'n) firmware option" where
  "loop_conformance Q ar lib sv =
     (let state = snd (sh_world (tc_shared sv));
          sv1 = (if fx_estop_trigger_pending state
                 then snd (requestEstopTriggered_server (conformance_env Q ar) (fx_estop_reason state)
                        (on_world (\<lambda>w. (fst w, (snd w)\<lparr>fx_estop_trigger_pending := False\<rparr>)) sv))
                 else sv)
      in service_server (conformance_env Q ar) lib sv1)"

text \<open>The global objects before \<open>setup\<close>.\<close>

definition power_on_conformance :: "('c, 'n) qnethernet \<Rightarrow> 'n \<Rightarrow> ('c, 'n) firmware" where
  "power_on_conformance Q n =
     new_server True ((configured_network_server Q network_config_conformance, n), initial_fixture)"

section \<open>The configuration\<close>

lemma on_world_simps [simp]:
  "sh_context (tc_shared (on_world f sv)) = sh_context (tc_shared sv)"
  "sh_world (tc_shared (on_world f sv)) = f (sh_world (tc_shared sv))"
  "tc_session_driver (on_world f sv) = tc_session_driver sv"
  by (simp_all add: on_world_def)

lemma do_configure_simps [simp]:
  "sh_context (tc_shared (do_configure call sv)) = snd (configure call (sh_context (tc_shared sv)))"
  "sh_world (tc_shared (do_configure call sv)) = sh_world (tc_shared sv)"
  "tc_session_driver (do_configure call sv) = tc_session_driver sv"
  by (simp_all add: do_configure_def on_members_def)

definition stored_test :: "bytes \<Rightarrow> (bytes \<times> value_type) list \<Rightarrow> command_handler \<Rightarrow> stored_command" where
  "stored_test name args h =
     \<lparr>sc_name = name, sc_args = map (\<lambda>(a, t). \<lparr>sa_name = a, sa_type = t\<rparr>) args,
      sc_blocked_by_estop = False, sc_handler = h\<rparr>"

definition conformance_registry :: command_registry where
  "conformance_registry =
     \<lparr>cr_lifecycle = Sealed, cr_identity_set = True,
      cr_identity = \<lparr>si_board_id = ''command_server_conformance'', si_protocol_version = ''1'',
        si_firmware_version = ''0.1.0''\<rparr>,
      cr_commands =
        [stored_test ''test_echo'' [(''value'', Int_Type)] (App_Handler 0),
         stored_test ''test_oversized_result'' [] (App_Handler 1),
         stored_test ''test_estop_success'' [] (App_Handler 2),
         stored_test ''test_estop_fail'' [] (App_Handler 3),
         stored_test ''test_estop_over_budget'' [] (App_Handler 4),
         stored_test ''test_loss_over_budget'' [(''enabled'', Bool_Type)] (App_Handler 5),
         stored_test ''test_telemetry_mode'' [(''mode'', Int_Type)] (App_Handler 6),
         stored_test ''test_trigger_estop'' [] (App_Handler 7),
         stored_test ''get_counters'' [] Counters_Handler],
      cr_telemetry_fields = [\<lparr>sf_name = ''echo_value'', sf_type = Int_Type\<rparr>,
        \<lparr>sf_name = ''telemetry_mode'', sf_type = Int_Type\<rparr>,
        \<lparr>sf_name = ''overflow_payload'', sf_type = String_Type\<rparr>],
      cr_state_fields = [], cr_telemetry_provider = Some 0, cr_estop_hook = Some 0,
      cr_controller_loss_hook = Some 1\<rparr>"

lemma configure_test_command:
  assumes "cr_lifecycle (fm_registry m) = Mutable" and "length (cr_commands (fm_registry m)) < kMaxRegisteredCommands"
    and "name_ok kMaxCommandNameBytes name" and "list_all (\<lambda>c. sc_name c \<noteq> name) (cr_commands (fm_registry m))"
    and "list_all (\<lambda>c. nul_free (sc_name c)) (cr_commands (fm_registry m))"
    and "args = [] \<or> (\<exists>a t. args = [(a, t)] \<and> name_ok kMaxArgNameBytes a \<and> validValueType t)"
  shows "snd (configure (test_command name args k) m) = m\<lparr>fm_registry := (fm_registry m)
     \<lparr>cr_commands := cr_commands (fm_registry m) @ [stored_test name args (App_Handler k)]\<rparr>\<rparr>"
proof -
  have n: "cstr name = name" "name \<noteq> []" "length name \<le> kMaxCommandNameBytes" "nul_free name"
    using assms(3) by (simp_all add: name_ok_def)
  have free: "findCommand (fm_registry m) (Some name) = None"
    using assms(4,5) n by (auto simp: findCommand_def find_None_iff strcmp_eq_def list_all_iff)
  have copied: "copyRequired (Some name) kMaxCommandNameBytes = (Copy_Ok, name)"
    using n by (simp add: copyRequired_valid)
  then have valid: "validRequiredString (Some name) kMaxCommandNameBytes" by (simp add: validRequiredString_iff)
  have args: "\<not> kMaxArgsPerCommand < length args"
    "copy_args [] (map (\<lambda>(a, t). (Some a, t)) args) = Inr (map (\<lambda>(a, t). \<lparr>sa_name = a, sa_type = t\<rparr>) args)"
    using assms(6) by (auto simp: limits name_ok_def copyRequired_valid)
  from assms(6) show ?thesis
    by (elim disjE exE conjE)
       (use assms(1,2) free copied valid args in \<open>simp_all add: test_command_def registerCommand_server_def
          on_registry_def registerCommand_def stored_test_def not_le split: prod.split\<close>)
qed

lemma registerCommands_conformance:
  assumes "fm_registry (sh_context (tc_shared sv)) = new_registry\<lparr>cr_identity_set := b, cr_identity := i\<rparr>"
  shows "sh_context (tc_shared (registerCommands sv)) = (sh_context (tc_shared sv))\<lparr>fm_registry :=
      new_registry\<lparr>cr_identity_set := b, cr_identity := i,
        cr_commands := butlast (cr_commands conformance_registry)\<rparr>\<rparr>"
  using assms
  by (simp add: registerCommands_def configure_test_command name_ok_def limits new_registry_def stored_test_def
     conformance_registry_def del: configure.simps)

lemma registerCommands_frame [simp]:
  "sh_world (tc_shared (registerCommands sv)) = sh_world (tc_shared sv)"
  by (simp add: registerCommands_def)

lemma registry_fits:
  "registry_ok conformance_registry"
  "length (line_of (schema_members conformance_registry (cr_identity conformance_registry) (- 1)))
     \<le> kBoardTxMaxLineBytes"
proof -
  show "registry_ok conformance_registry"
    by (simp add: registry_ok_def conformance_registry_def identity_bounded_def commands_ok_inv_def
        fields_ok_def args_ok_def name_ok_def stored_test_def limits)
  show "length (line_of (schema_members conformance_registry (cr_identity conformance_registry) (- 1)))
     \<le> kBoardTxMaxLineBytes"
    using length_dec_u64 [of "- 1"] length_dec_u64 [of kSchemaSeq]
    by (simp add: schema_members_def line_of_def conformance_registry_def stored_test_def command_member_def
      type_member_def quoted_plain plain_char_def limits dec_u64_def)
qed

definition conformance_before_start :: "('c, 'n) qnethernet \<Rightarrow> 'n arduino \<Rightarrow> ('c, 'n) firmware \<Rightarrow> ('c, 'n) firmware" where
  "conformance_before_start Q ar sv0 =
     (let sv4 = on_world (\<lambda>w. on_arduino (ar_onAddressChanged ar (addressChanged Q ar))
            (on_arduino (ar_serialPrint ar (''beginning'' @ [CHR 0x0D, LF]))
            (on_arduino (ar_serialBegin ar 9600) (fst w, fillLargePayload (snd w))))) sv0 in
      fold do_configure
        [Call_registerTelemetrySchema
           (Some [(Some ''echo_value'', Int_Type), (Some ''telemetry_mode'', Int_Type),
                  (Some ''overflow_payload'', String_Type)]) 3,
         Call_setTelemetryProvider (Some 0), Call_setEstopHook (Some 0), Call_setControllerLossHook (Some 1),
         Call_enableCountersDiagnosticCommand]
        (registerCommands (fold do_configure
           [Call_setIdentity \<lparr>board_id = Some ''command_server_conformance'',
              protocol_version = Some ''1'', firmware_version = Some ''0.1.0''\<rparr>,
            Call_setNetworkConfig network_config_conformance] sv4)))"

lemma setup_conformance_eq:
  "setup_conformance Q ar sv0 = snd (start (conformance_env Q ar) (conformance_before_start Q ar sv0))"
  by (simp add: setup_conformance_def conformance_before_start_def Let_def on_world_def on_arduino_def split_beta)

lemma identity_configured:
  "sh_context (tc_shared (fold do_configure
       [Call_setIdentity \<lparr>board_id = Some ''command_server_conformance'',
          protocol_version = Some ''1'', firmware_version = Some ''0.1.0''\<rparr>,
        Call_setNetworkConfig network_config_conformance] (on_world f (power_on_conformance Q n)))) =
   (sh_context (tc_shared (power_on_conformance Q n)))
     \<lparr>fm_registry := new_registry\<lparr>cr_identity_set := True, cr_identity := cr_identity conformance_registry\<rparr>,
      fm_identity_bound := True, fm_network_config := network_config_conformance,
      fm_network_config_set := True\<rparr>"
  by (simp add: power_on_conformance_def new_server_def setIdentity_server_def setIdentity_def
      copyRequired_valid limits new_registry_def conformance_registry_def setNetworkConfig_def status_ok_def
      ok_status_def network_config_conformance_def kListenPort_def Let_def)

lemma before_start_context:
  "sh_context (tc_shared (conformance_before_start Q ar (power_on_conformance Q n))) =
   (sh_context (tc_shared (power_on_conformance Q n)))
     \<lparr>fm_registry := conformance_registry\<lparr>cr_lifecycle := Mutable\<rparr>,
      fm_identity_bound := True, fm_network_config := network_config_conformance,
      fm_network_config_set := True\<rparr>"
proof -
  define f :: "('a, 'b) platform \<times> fixture_state \<Rightarrow> ('a, 'b) platform \<times> fixture_state" where
    "f = (\<lambda>w. on_arduino (ar_onAddressChanged ar (addressChanged Q ar))
            (on_arduino (ar_serialPrint ar (''beginning'' @ [CHR 0x0D, LF]))
            (on_arduino (ar_serialBegin ar 9600) (fst w, fillLargePayload (snd w)))))"
  define sv where "sv = registerCommands (fold do_configure
       [Call_setIdentity \<lparr>board_id = Some ''command_server_conformance'',
          protocol_version = Some ''1'', firmware_version = Some ''0.1.0''\<rparr>,
        Call_setNetworkConfig network_config_conformance] (on_world f (power_on_conformance Q n)))"
  define m where "m = (sh_context (tc_shared (power_on_conformance Q n)))
     \<lparr>fm_identity_bound := True, fm_network_config := network_config_conformance, fm_network_config_set := True\<rparr>"
  define r where "r = conformance_registry\<lparr>cr_lifecycle := Mutable\<rparr>"
  have mutable: "cr_lifecycle r = Mutable" by (simp add: r_def)
  have ctx: "sh_context (tc_shared sv) = m\<lparr>fm_registry := r\<lparr>cr_commands := butlast (cr_commands r),
      cr_telemetry_fields := [], cr_telemetry_provider := None, cr_estop_hook := None,
      cr_controller_loss_hook := None\<rparr>\<rparr>"
    unfolding sv_def by (subst registerCommands_conformance, simp only: identity_configured, simp)
      (simp only: identity_configured, simp add: m_def r_def conformance_registry_def new_registry_def)
  have fields: "snd (configure (Call_registerTelemetrySchema (Some [(Some ''echo_value'', Int_Type),
        (Some ''telemetry_mode'', Int_Type), (Some ''overflow_payload'', String_Type)]) 3)
        (sh_context (tc_shared sv))) = m\<lparr>fm_registry := r\<lparr>cr_commands := butlast (cr_commands r),
      cr_telemetry_provider := None, cr_estop_hook := None, cr_controller_loss_hook := None\<rparr>\<rparr>"
    by (simp add: ctx registerTelemetrySchema_def on_registry_def registerTelemetryField_def registerField_def
          copyRequired_valid limits status_ok_def ok_status_def strcmp_eq_def)
       (simp add: r_def conformance_registry_def)
  have hooks: "snd (configure (Call_setControllerLossHook (Some 1)) (snd (configure (Call_setEstopHook (Some 0))
      (snd (configure (Call_setTelemetryProvider (Some 0)) (m\<lparr>fm_registry := r\<lparr>cr_commands := cs,
         cr_telemetry_provider := None, cr_estop_hook := None, cr_controller_loss_hook := None\<rparr>\<rparr>)))))) =
      m\<lparr>fm_registry := r\<lparr>cr_commands := cs, cr_telemetry_provider := Some 0, cr_estop_hook := Some 0,
        cr_controller_loss_hook := Some 1\<rparr>\<rparr>" if "cr_lifecycle r = Mutable" for r cs
    using that
    by (simp add: on_registry_def setTelemetryProvider_server_def setTelemetryProvider_def setEstopHook_server_def
        setEstopHook_def setControllerLossHook_server_def setControllerLossHook_def)
  have diagnostics: "snd (configure Call_enableCountersDiagnosticCommand
      (m\<lparr>fm_registry := r\<lparr>cr_commands := butlast (cr_commands r), cr_telemetry_provider := Some 0,
        cr_estop_hook := Some 0, cr_controller_loss_hook := Some 1\<rparr>\<rparr>)) = m\<lparr>fm_registry := r\<rparr>"
    by (simp add: enableCountersDiagnosticCommand_def on_registry_def registerDiagnostics_def registerCommand_def
        validRequiredString_iff findCommand_def strcmp_eq_def copyRequired_valid limits r_def
        conformance_registry_def stored_test_def)
  have "sh_context (tc_shared (conformance_before_start Q ar (power_on_conformance Q n))) =
      snd (configure Call_enableCountersDiagnosticCommand
        (snd (configure (Call_setControllerLossHook (Some 1)) (snd (configure (Call_setEstopHook (Some 0))
        (snd (configure (Call_setTelemetryProvider (Some 0)) (snd (configure (Call_registerTelemetrySchema
          (Some [(Some ''echo_value'', Int_Type), (Some ''telemetry_mode'', Int_Type),
             (Some ''overflow_payload'', String_Type)]) 3) (sh_context (tc_shared sv)))))))))))"
    unfolding conformance_before_start_def Let_def f_def [symmetric] sv_def [symmetric]
    by (simp only: fold_simps do_configure_simps)
  also have "\<dots> = m\<lparr>fm_registry := r\<rparr>"
    by (simp only: fields hooks [OF mutable] diagnostics)
  finally show ?thesis by (simp add: m_def r_def)
qed

section \<open>Bringing the server up\<close>

lemma conformance_clock:
  "monotonicMilliseconds (conformance_env Q ar) w = (t, w') \<Longrightarrow> fst (fst w') = fst (fst w) \<and> snd w' = snd w"
  "monotonicMicroseconds (conformance_env Q ar) w = (t, w') \<Longrightarrow> fst (fst w') = fst (fst w) \<and> snd w' = snd w"
  by (cases w'; auto simp: conformance_env_def on_platform_eq qn_platform_def qn_env_def on_library_def
        split: prod.splits)+

lemma before_start_frame:
  "sh_world (tc_shared (conformance_before_start Q ar sv0)) =
     on_arduino (ar_onAddressChanged ar (addressChanged Q ar))
       (on_arduino (ar_serialPrint ar (''beginning'' @ [CHR 0x0D, LF]))
       (on_arduino (ar_serialBegin ar 9600)
         (fst (sh_world (tc_shared sv0)), fillLargePayload (snd (sh_world (tc_shared sv0))))))"
  by (simp add: conformance_before_start_def Let_def)

lemma filled: "fx_large_payload (fillLargePayload initial_fixture) = replicate kLargePayloadBytes (CHR ''x'') @ [NUL]"
proof -
  have "(replicate kLargePayloadBytes x @ drop kLargePayloadBytes (replicate (kLargePayloadBytes + 1) y))
      [kLargePayloadBytes := z] = replicate kLargePayloadBytes x @ [z]" for x y z :: char
    by (simp add: list_update_append del: replicate.simps) simp
  then show ?thesis by (simp only: fillLargePayload_def initial_fixture_def fixture_state.simps)
qed

lemma cstr_filled: "x \<noteq> NUL \<Longrightarrow> cstr (replicate k x @ [NUL]) = replicate k x"
  by (induction k) (simp_all add: cstr_def)

text \<open>A complete registry whose largest schema line fits is all that \<open>start\<close> asks for.\<close>

lemma start_brings_up:
  fixes sv :: "'w teensy_command_server"
  defines "m \<equiv> sh_context (tc_shared sv)"
  defines "r \<equiv> (fm_registry m)\<lparr>cr_lifecycle := Sealed\<rparr>"
  assumes "fm_network_config_set m" "fm_network m" "fm_clock m" "cr_lifecycle (fm_registry m) = Mutable"
    and "cr_identity_set r" "cr_telemetry_provider r \<noteq> None" "cr_estop_hook r \<noteq> None"
      "cr_controller_loss_hook r \<noteq> None"
    and ok: "registry_ok r"
    and fits: "length (line_of (schema_members r (cr_identity r) (- 1))) \<le> kBoardTxMaxLineBytes"
  shows "let sv' = snd (start E sv); m' = sh_context (tc_shared sv')
     in fm_started m' \<and> fm_identity_bound m' \<and> fm_clock m' \<and> fm_registry m' = r \<and>
        map_option (\<lambda>t. (ts_identity t, ts_provider t)) (fm_telemetry_scheduler m') =
          Some (registry_identity r, cr_telemetry_provider r) \<and>
        (\<exists>d. tc_session_driver sv' = Some d \<and> sd_state d = NETWORK_STARTING \<and>
           sd_listen_port d = nc_listen_port (fm_network_config m)) \<and>
        sh_world (tc_shared sv') = snd (monotonicMilliseconds E (sh_world (tc_shared sv)))"
proof -
  have r0: "registry_ok (fm_registry m)" using ok by (simp add: r_def registry_ok_def)
  have "status_ok (validateMaximumSchemaSize (fm_registry m) (registry_identity (fm_registry m)))"
    unfolding schema_size_iff [OF r0] using fits by (simp add: r_def schema_members_def)
  moreover have "status_ok (validateMetadataForSeal (fm_registry m))"
    using assms(7-10) by (simp add: r_def validateMetadataForSeal_def status_ok_def ok_status_def)
  moreover have "commitSeal (fm_registry m) = (ok_status, r)"
    using assms(6) by (simp add: commitSeal_def r_def)
  moreover define m1 where "m1 = m\<lparr>fm_registry := r, fm_identity_bound := True, fm_started := True\<rparr>"
  ultimately have st: "snd (start E sv) =
      start_session E (sv\<lparr>tc_shared := (tc_shared sv)\<lparr>sh_context := m1\<rparr>\<rparr>)"
    using assms(3-5) by (simp add: start_def Let_def m_def [symmetric] status_ok_def ok_status_def)
  have m1: "fm_registry m1 = r" "fm_started m1" "fm_identity_bound m1" "fm_clock m1 = fm_clock m"
    "identity_of m1 = registry_identity r" "fm_network_config m1 = fm_network_config m"
    by (simp_all add: m1_def identity_of_def)
  show ?thesis
    using assms(5)
    by (simp add: st Let_def start_session_eq m1 driver_begin_def new_session_driver_def transitionTo_def
        new_telemetry_scheduler_def split: prod.split)
qed

lemma setup_brings_up:
  "let sv = setup_conformance Q ar (power_on_conformance Q n); m = sh_context (tc_shared sv);
       w = sh_world (tc_shared sv)
   in fm_started m \<and> fm_identity_bound m \<and> fm_clock m \<and> fm_registry m = conformance_registry \<and>
      map_option (\<lambda>t. (ts_identity t, ts_provider t)) (fm_telemetry_scheduler m) =
        Some (registry_identity conformance_registry, Some 0) \<and>
      (\<exists>d. tc_session_driver sv = Some d \<and> sd_state d = NETWORK_STARTING \<and> sd_listen_port d = kListenPort) \<and>
      fst (fst w) = configured_network_server Q network_config_conformance \<and>
      snd w = initial_fixture\<lparr>fx_large_payload := replicate kLargePayloadBytes (CHR ''x'') @ [NUL]\<rparr>"
proof -
  define sv where "sv = conformance_before_start Q ar (power_on_conformance Q n)"
  define m where "m = sh_context (tc_shared sv)"
  have m: "fm_network_config_set m" "fm_network m" "fm_clock m" "fm_registry m = conformance_registry\<lparr>cr_lifecycle := Mutable\<rparr>"
    "fm_network_config m = network_config_conformance"
    unfolding m_def sv_def before_start_context by (simp_all add: power_on_conformance_def new_server_def)
  have r: "(fm_registry m)\<lparr>cr_lifecycle := Sealed\<rparr> = conformance_registry"
    by (simp add: m(4)) (simp add: conformance_registry_def)
  have full: "cr_identity_set conformance_registry" "cr_telemetry_provider conformance_registry = Some 0"
    "cr_estop_hook conformance_registry \<noteq> None" "cr_controller_loss_hook conformance_registry \<noteq> None"
    by (simp_all add: conformance_registry_def)
  have up: "let sv' = snd (start (conformance_env Q ar) sv); m' = sh_context (tc_shared sv')
     in fm_started m' \<and> fm_identity_bound m' \<and> fm_clock m' \<and> fm_registry m' = conformance_registry \<and>
        map_option (\<lambda>t. (ts_identity t, ts_provider t)) (fm_telemetry_scheduler m') =
          Some (registry_identity conformance_registry, Some 0) \<and>
        (\<exists>d. tc_session_driver sv' = Some d \<and> sd_state d = NETWORK_STARTING \<and> sd_listen_port d = kListenPort) \<and>
        sh_world (tc_shared sv') = snd (monotonicMilliseconds (conformance_env Q ar) (sh_world (tc_shared sv)))"
    using start_brings_up [of sv "conformance_env Q ar", folded m_def, unfolded r full(2)] m(1-3) full
      registry_fits m(4)
    by (simp add: m(5) network_config_conformance_def)
  have world: "fst (fst (sh_world (tc_shared sv))) = configured_network_server Q network_config_conformance"
    "snd (sh_world (tc_shared sv)) =
       initial_fixture\<lparr>fx_large_payload := replicate kLargePayloadBytes (CHR ''x'') @ [NUL]\<rparr>"
    using filled unfolding sv_def before_start_frame
    by (simp_all add: power_on_conformance_def new_server_def on_arduino_def fillLargePayload_def)
  obtain t w' where ms: "monotonicMilliseconds (conformance_env Q ar) (sh_world (tc_shared sv)) = (t, w')"
    by (cases "monotonicMilliseconds (conformance_env Q ar) (sh_world (tc_shared sv))")
  show ?thesis
    using up conformance_clock(1) [OF ms] world by (simp add: setup_conformance_eq sv_def [symmetric] Let_def ms)
qed

text \<open>
  C25: the conformance program comes up. Whatever the library and the core do during \<open>setup\<close>, none
  of its eleven configuration calls, whose results are thrown away, is refused: the registry is
  sealed with the eight test commands and \<open>get_counters\<close>, the largest schema line fits, the session
  driver waits for the network on the sketch's port, and the payload is in place.
\<close>

theorem conformance_starts:
  "let sv = setup_conformance Q ar (power_on_conformance Q n); m = sh_context (tc_shared sv)
   in fm_started m \<and> cr_lifecycle (fm_registry m) = Sealed \<and>
      identity_of m = \<lparr>board_id = Some ''command_server_conformance'', protocol_version = Some ''1'',
        firmware_version = Some ''0.1.0''\<rparr> \<and>
      map (\<lambda>c. (sc_name c, sc_handler c)) (cr_commands (fm_registry m)) =
        [(''test_echo'', App_Handler 0), (''test_oversized_result'', App_Handler 1),
         (''test_estop_success'', App_Handler 2), (''test_estop_fail'', App_Handler 3),
         (''test_estop_over_budget'', App_Handler 4), (''test_loss_over_budget'', App_Handler 5),
         (''test_telemetry_mode'', App_Handler 6), (''test_trigger_estop'', App_Handler 7),
         (''get_counters'', Counters_Handler)] \<and>
      length (cr_telemetry_fields (fm_registry m)) = 3 \<and>
      (\<exists>d. tc_session_driver sv = Some d \<and> sd_state d = NETWORK_STARTING \<and> sd_listen_port d = 5051) \<and>
      cstr (fx_large_payload (snd (sh_world (tc_shared sv)))) = replicate 8100 (CHR ''x'')"
  using setup_brings_up [of Q ar n]
  by (simp add: Let_def kListenPort_def kLargePayloadBytes_def cstr_filled)
     (simp add: conformance_registry_def stored_test_def identity_of_def registry_identity_def)

end
