(* ===== verification/ConformanceRuns.thy ===== *)
theory ConformanceRuns
  imports Conformance
begin

text \<open>
  What the conformance program does once it runs. \<open>conformance_run\<close> are the servers its \<open>setup\<close> and
  \<open>loop\<close> reach; they are runs of the server on the platform, so what holds of every server holds of
  it. Each test command is answered as \<open>fixture_reply\<close> says.
\<close>

section \<open>The program's callbacks are lawful\<close>

lemma ow_reaches_adds:
  "addInt_ow n i o' = (ok, o1) \<Longrightarrow> ow_reaches o' o1"
  "addBool_ow n b o' = (ok, o1) \<Longrightarrow> ow_reaches o' o1"
  "addString_ow n t o' = (ok, o1) \<Longrightarrow> ow_reaches o' o1"
  using ow_call [OF ow_refl, of o' "AddInt n i"] ow_call [OF ow_refl, of o' "AddBool n b"]
    ow_call [OF ow_refl, of o' "AddString n t"]
  by simp_all

lemma ow_reaches_trans: "ow_reaches o1 o2 \<Longrightarrow> ow_reaches o2 o3 \<Longrightarrow> ow_reaches o1 o3"
  by (rotate_tac, induction rule: ow_reaches.induct) (auto intro: ow_call)

lemmas handler_defs =
  testEcho_def testOversizedResult_def testEstopSuccess_def testEstopFail_def testEstopOverBudget_def
  testLossOverBudget_def testTelemetryMode_def testTriggerEstop_def

lemma handlers_lawful:
  assumes "h \<in> set test_handlers"
  shows "ow_reaches o' (fst (snd (h args o' x))) \<and> result_ok (fst (h args o' x))"
  using assms
  by (auto simp: test_handlers_def handler_defs Let_def internalError_def invalidType_def invalidArgument_def
      ow_refl intro: ow_reaches_adds split: option.split prod.split bool.split)

lemma writeTelemetry_lawful: "ow_reaches o' (fst (snd (writeTelemetry o' x)))"
proof -
  obtain a o1 where 1: "addInt_ow (Some ''echo_value'') (fx_echo_value x) o' = (a, o1)"
    by (cases "addInt_ow (Some ''echo_value'') (fx_echo_value x) o'")
  obtain b o2 where 2: "addInt_ow (Some ''telemetry_mode'') (mode_number (fx_telemetry_mode x)) o1 = (b, o2)"
    by (cases "addInt_ow (Some ''telemetry_mode'') (mode_number (fx_telemetry_mode x)) o1")
  obtain c o3 where 3: "addString_ow (Some ''overflow_payload'') (Some (fx_large_payload x)) o2 = (c, o3)"
    by (cases "addString_ow (Some ''overflow_payload'') (Some (fx_large_payload x)) o2")
  note r = ow_reaches_adds(1) [OF 1] ow_reaches_adds(1) [OF 2] ow_reaches_adds(3) [OF 3]
  note r2 = ow_reaches_trans [OF r(1,2)]
  show ?thesis
    using r(1) r2 ow_reaches_trans [OF r2 r(3)]
    by (auto simp: writeTelemetry_def 1 2 3 ow_refl split: bool.split)
qed

lemma conformance_calls [simp]:
  "safetyHook (conformance_env Q ar) k = (if k = 0 then handleEstop_fixture ar else handleControllerLoss ar)"
  "telemetryProvider (conformance_env Q ar) k o' w =
     (case writeTelemetry o' (snd w) of (ok, o1, x) \<Rightarrow> (ok, o1, (fst w, x)))"
  "commandHandler (conformance_env Q ar) k seq args o' w =
     (if k < length test_handlers
      then case (test_handlers ! k) args o' (snd w) of (res, o1, x) \<Rightarrow> (res, o1, (fst w, x))
      else (internalError (Some ''unknown handler''), o', w))"
  by (simp_all add: conformance_env_def conformance_board_def)

lemma conformance_lawful: "lawful_board (conformance_env Q ar)"
proof -
  have "ow_reaches o' (fst (snd (commandHandler (conformance_env Q ar) k seq args o' w))) \<and>
      result_ok (fst (commandHandler (conformance_env Q ar) k seq args o' w))" for k seq args w o'
    using handlers_lawful [OF nth_mem, of k o' args "snd w"]
    by (auto simp: ow_refl internalError_def split: prod.split)
  then show ?thesis
    using writeTelemetry_lawful by (auto simp: lawful_board_def split: prod.split) (metis fst_conv snd_conv)
qed

lemma handlers_payload:
  "h \<in> set test_handlers \<Longrightarrow> fx_large_payload (snd (snd (h args o' x))) = fx_large_payload x"
  by (auto simp: test_handlers_def handler_defs Let_def split: option.split prod.split bool.split)

lemma writeTelemetry_state: "snd (snd (writeTelemetry o' x)) = x"
  by (simp add: writeTelemetry_def split: prod.split bool.split del: run_all.simps)

lemma conformance_keeps:
  "board_keeps platform_ok platform_connections (\<lambda>x. fx_large_payload x = p) (conformance_board ar)"
proof -
  have net: "platform_ok (s, n) = platform_ok (s, n') \<and> platform_connections (s, n) = platform_connections (s, n')"
    for s :: "'a network_server" and n n' :: 'b
    using same_tags [of "(s, n)" "(s, n')"] same_tags [of "(s, n')" "(s, n)"]
    by (auto simp: slot_tags_def platform_connections_def)
  have handler: "fx_large_payload (snd (snd ((test_handlers ! k) args o' x))) = fx_large_payload x"
    if "k < length test_handlers" for k args o' x
    using handlers_payload [OF nth_mem [OF that]] .
  show ?thesis
    unfolding board_keeps_def Let_def
    using net handler writeTelemetry_state
    by (auto simp: conformance_board_def handleEstop_fixture_def handleControllerLoss_def
        on_arduino_def Let_def split: prod.split) (metis snd_conv)+
qed

section \<open>Everything the program can do\<close>

inductive conformance_run ::
    "('c, 'n) qnethernet \<Rightarrow> 'n arduino \<Rightarrow> json_library \<Rightarrow> 'n \<Rightarrow> ('c, 'n) firmware \<Rightarrow> bool"
  for Q ar lib n where
  cf_setup: "conformance_run Q ar lib n (setup_conformance Q ar (power_on_conformance Q n))"
| cf_loop: "conformance_run Q ar lib n sv \<Longrightarrow> loop_conformance Q ar lib sv = Some sv' \<Longrightarrow>
     conformance_run Q ar lib n sv'"
| cf_library: "conformance_run Q ar lib n sv \<Longrightarrow> conformance_run Q ar lib n (on_world (on_arduino f) sv)"

text \<open>
  These are runs of a server from the world in which the payload is in place; nothing but the
  callbacks touches the payload, and nothing but the server's calls the network server.
\<close>

definition fixture_moves ::
    "('c, 'n) platform \<times> fixture_state \<Rightarrow> ('c, 'n) platform \<times> fixture_state \<Rightarrow> bool" where
  "fixture_moves w w' \<longleftrightarrow> same_network w w' \<and> fx_large_payload (snd w') = fx_large_payload (snd w)"

definition prepared_world :: "('c, 'n) qnethernet \<Rightarrow> 'n arduino \<Rightarrow> 'n \<Rightarrow> ('c, 'n) platform \<times> fixture_state" where
  "prepared_world Q ar n =
     on_arduino (ar_onAddressChanged ar (addressChanged Q ar))
       (on_arduino (ar_serialPrint ar (''beginning'' @ [CHR 0x0D, LF]))
       (on_arduino (ar_serialBegin ar 9600)
         ((configured_network_server Q network_config_conformance, n), fillLargePayload initial_fixture)))"

abbreviation fixture_runs ::
    "('c, 'n) qnethernet \<Rightarrow> 'n arduino \<Rightarrow> json_library \<Rightarrow> 'n \<Rightarrow> ('c, 'n) firmware \<Rightarrow> bool" where
  "fixture_runs Q ar lib n \<equiv>
     server_runs (conformance_env Q ar) lib fixture_moves (prepared_world Q ar n)"

lemma on_world_new: "on_world f (new_server attached w) = new_server attached (f w)"
  by (simp add: on_world_def new_server_def)

lemma fixture_runs_world:
  assumes "fixture_runs Q ar lib n sv" and "\<And>w. fixture_moves w (f w)"
  shows "fixture_runs Q ar lib n (on_world f sv)"
  unfolding on_world_def by (rule ru_world) (rule assms)+

lemma fixture_runs_configure: "fixture_runs Q ar lib n sv \<Longrightarrow> fixture_runs Q ar lib n (fold do_configure calls sv)"
  by (induction calls arbitrary: sv) (simp_all add: do_configure_def ru_configure)

lemma conformance_run_runs: "conformance_run Q ar lib n sv \<Longrightarrow> fixture_runs Q ar lib n sv"
proof (induction rule: conformance_run.induct)
  case cf_setup
  show ?case
    unfolding setup_conformance_eq conformance_before_start_def Let_def registerCommands_def
      power_on_conformance_def on_world_new fst_conv snd_conv prepared_world_def [symmetric]
    by (intro ru_start fixture_runs_configure ru_new)
next
  case (cf_loop sv sv')
  have world: "fixture_moves w (fst w, (snd w)\<lparr>fx_estop_trigger_pending := False\<rparr>)" for w :: "('a, 'b) platform \<times> fixture_state"
    by (simp add: fixture_moves_def same_network_def)
  from cf_loop show ?case
    by (auto simp: loop_conformance_def Let_def intro: ru_service ru_request fixture_runs_world [OF _ world]
        split: if_splits)
next
  case (cf_library sv f)
  have "fixture_moves w (on_arduino f w)" for w
    by (simp add: fixture_moves_def same_network_def on_arduino_def split_beta)
  with cf_library.IH show ?case by (rule fixture_runs_world)
qed

definition filled_payload :: bytes where
  "filled_payload = replicate kLargePayloadBytes (CHR ''x'') @ [NUL]"

lemma conformance_run_payload:
  assumes "conformance_run Q ar lib n sv"
  shows "fx_large_payload (snd (sh_world (tc_shared sv))) = filled_payload"
proof -
  have start: "fst (fst (prepared_world Q ar n)) = configured_network_server Q network_config_conformance"
    "fx_large_payload (snd (prepared_world Q ar n)) = filled_payload"
    using filled by (simp_all add: prepared_world_def on_arduino_def filled_payload_def)
  have "platform_ok (fst (prepared_world Q ar n)) \<and> platform_connections (fst (prepared_world Q ar n)) = {}"
    using new_platform_empty [of "configured_network_server Q network_config_conformance" Q
        "snd (fst (prepared_world Q ar n))"] start(1)
    by (simp add: configured_network_server_def configure_qn_def) (metis prod.collapse)
  moreover have moves: "(platform_ok (fst w') \<and> fx_large_payload (snd w') = filled_payload) \<and>
      platform_connections (fst w') = platform_connections (fst w)"
    if "fixture_moves w w'" "platform_ok (fst w) \<and> fx_large_payload (snd w) = filled_payload"
    for w w' :: "('a, 'b) platform \<times> fixture_state"
    using that same_network_keeps [of w w'] by (simp add: fixture_moves_def)
  ultimately have "server_owns (\<lambda>w. platform_ok (fst w) \<and> fx_large_payload (snd w) = filled_payload)
      (\<lambda>w. platform_connections (fst w)) sv"
    using connection_owner.server_runs_owned [OF qc.owner_beside [OF conformance_keeps]
        conformance_run_runs [OF assms, unfolded conformance_env_def] _ _ moves] start(2) by simp
  then show ?thesis by (auto simp: server_owns_def owns_def split: option.splits)
qed

lemma request_config:
  "facade_config (sh_context (tc_shared (snd (requestEstopTriggered_server E reason sv)))) =
     facade_config (sh_context (tc_shared sv))"
  by (simp add: requestEstopTriggered_server_def Let_def split: prod.split)

lemma conformance_run_config:
  "conformance_run Q ar lib n sv \<Longrightarrow>
     facade_config (sh_context (tc_shared sv)) =
       facade_config (sh_context (tc_shared (setup_conformance Q ar (power_on_conformance Q n))))"
proof (induction rule: conformance_run.induct)
  case (cf_loop sv sv')
  define sv1 where "sv1 = (if fx_estop_trigger_pending (snd (sh_world (tc_shared sv)))
      then snd (requestEstopTriggered_server (conformance_env Q ar) (fx_estop_reason (snd (sh_world (tc_shared sv))))
        (on_world (\<lambda>w. (fst w, (snd w)\<lparr>fx_estop_trigger_pending := False\<rparr>)) sv)) else sv)"
  have "server_reaches (conformance_env Q ar) lib sv"
    by (rule server_runs_reaches [OF conformance_run_runs [OF cf_loop.hyps(1)]])
  then have "server_reaches (conformance_env Q ar) lib sv1"
    by (auto simp: sv1_def on_world_def intro: sr_request sr_world)
  then have "server_ok sv1" by (rule server_reaches_ok)
  moreover have "facade_config (sh_context (tc_shared sv1)) = facade_config (sh_context (tc_shared sv))"
    by (simp add: sv1_def request_config)
  moreover have "service_server (conformance_env Q ar) lib sv1 = Some sv'"
    using cf_loop.hyps(2) by (simp add: loop_conformance_def Let_def sv1_def)
  ultimately show ?case using service_server_keeps cf_loop.IH by metis
qed simp_all

lemma conformance_run_server:
  assumes "conformance_run Q ar lib n sv"
  shows "fm_registry (sh_context (tc_shared sv)) = conformance_registry \<and>
     identity_of (sh_context (tc_shared sv)) = registry_identity conformance_registry \<and>
     fm_clock (sh_context (tc_shared sv)) \<and>
     (\<exists>t. fm_telemetry_scheduler (sh_context (tc_shared sv)) = Some t \<and> ts_provider t = Some 0 \<and>
        ts_identity t = registry_identity conformance_registry)"
  using conformance_run_config [OF assms] setup_brings_up [of Q ar n]
  by (auto simp: facade_config_def identity_of_def Let_def)

section \<open>What a handler writes\<close>

text \<open>Members of a bounded length on a writer that has room.\<close>

definition room_for :: "(bytes \<times> json) list \<Rightarrow> nat \<Rightarrow> object_writer \<Rightarrow> bool" where
  "room_for ms k o' \<longleftrightarrow> ow_holds ms o' \<and> \<not> ow_closed o' \<and> \<not> objectWriterFailed o' \<and>
     length (payload o') + k \<le> kMaxResultPayloadBytes"

lemma room_new: "k + 1 \<le> kMaxResultPayloadBytes \<Longrightarrow> room_for [] k new_object_writer"
  using ow_holds_new ow_new_open
  by (simp add: room_for_def objectWriterFailed_def)
     (simp add: new_object_writer_def beginObject_def new_writer_def appendByte_def appendBytes_def
       remaining_def reserveTailBytes_def payload_def limits)

definition member_name :: "bytes \<Rightarrow> bool" where
  "member_name n \<longleftrightarrow> list_all plain_char n \<and> nul_free n \<and> n \<noteq> ''board_proc_us'' \<and> length n \<le> 40"

lemma add_member_room:
  assumes "room_for ms (k + 60) o'" and "member_name n"
    and e: "member_events (n, v) = [e]" "f = exec_event e" and "length (member_text (n, v)) \<le> 58"
  shows "\<exists>o1. on_writer (Some n) f o' = (True, o1) \<and> room_for (ms @ [(n, v)]) k o1"
proof -
  have n: "nul_free n" "n \<noteq> ''board_proc_us''" using assms(2) by (simp_all add: member_name_def)
  have "length (payload o') + length (member_text (n, v)) + 2 \<le> kMaxResultPayloadBytes"
    using assms(1,5) by (simp add: room_for_def)
  with on_writer_fits [OF _ _ n e] assms(1,5) show ?thesis
    by (fastforce simp: room_for_def objectWriterFailed_def)
qed

lemma literal_event: "nul_free n \<Longrightarrow> addNumberLiteral (Some n) t = exec_event (FieldLit n t)"
  using exec_event_cstr(1) [of n t] by (simp del: exec_event.simps)

lemma length_member_text: "member_name n \<Longrightarrow> length (member_text (n, v)) \<le> 43 + length (serialise v)"
  by (simp add: member_text_def quoted_plain member_name_def list_all_iff)

lemma addInt_room:
  assumes "room_for ms (k + 60) o'" and "member_name n"
  shows "\<exists>o1. addInt_ow (Some n) v o' = (True, o1) \<and> room_for (ms @ [(n, JSigned (signed v))]) k o1"
proof -
  have n: "nul_free n" using assms(2) by (simp add: member_name_def)
  have "addInt (Some n) v = exec_event (FieldLit n (dec_i32 v))"
    unfolding addInt_def by (rule literal_event [OF n])
  moreover have "length (member_text (n, JSigned (signed v))) \<le> 58"
    using length_member_text [OF assms(2), of "JSigned (signed v)"] length_dec_i32 [of v]
    by (simp add: dec_i64_signed)
  ultimately show ?thesis
    unfolding addInt_ow_def
    by (intro add_member_room [OF assms]) (simp_all add: dec_i64_signed del: exec_event.simps)
qed

lemma addBool_room:
  assumes "room_for ms (k + 60) o'" and "member_name n"
  shows "\<exists>o1. addBool_ow (Some n) b o' = (True, o1) \<and> room_for (ms @ [(n, JBool b)]) k o1"
proof -
  have n: "nul_free n" using assms(2) by (simp add: member_name_def)
  have "addBool (Some n) b = exec_event (FieldLit n (if b then ''true'' else ''false''))"
    unfolding addBool_def addLiteral_def by (rule literal_event [OF n])
  moreover have "length (member_text (n, JBool b)) \<le> 58"
    using length_member_text [OF assms(2), of "JBool b"] by (simp split: if_splits)
  ultimately show ?thesis
    unfolding addBool_ow_def by (intro add_member_room [OF assms]) (simp_all del: exec_event.simps)
qed

end
