(* ===== verification/ConformanceReplies.thy ===== *)
theory ConformanceReplies
  imports ConformanceRuns
begin

text \<open>
  What the conformance fixture answers. \<open>fixture_reply\<close> is the specification of the eight test
  commands; the handlers meet it, and so does the whole program, from the line to the queue.
\<close>

section \<open>Every test command is answered as specified\<close>

text \<open>
  What a test command with acceptable arguments is answered, an error or the members of its result,
  and the fixture after it.
\<close>

definition fixture_reply ::
    "bytes \<Rightarrow> (bytes \<times> json) list \<Rightarrow> fixture_state \<Rightarrow>
     ((board_error_code \<times> bytes + (bytes \<times> json) list) \<times> fixture_state) option" where
  "fixture_reply name ms x =
     (if name = ''test_echo'' then
        map_option (\<lambda>i. (Inr [(''value'', JSigned (signed i))], x\<lparr>fx_echo_value := i\<rparr>))
          (getContractInt (member ''value'' ms))
      else if name = ''test_oversized_result'' then
        Some (Inl (InternalError, ''response exceeded fixed capacity''), x)
      else if name = ''test_estop_success'' then
        Some (Inr [(''next_estop_safe'', JBool True)],
          x\<lparr>fx_next_estop_safe := True, fx_next_estop_over_budget := False\<rparr>)
      else if name = ''test_estop_fail'' then
        Some (Inr [(''next_estop_safe'', JBool False)],
          x\<lparr>fx_next_estop_safe := False, fx_next_estop_over_budget := False\<rparr>)
      else if name = ''test_estop_over_budget'' then
        Some (Inr [(''next_estop_over_budget'', JBool True)],
          x\<lparr>fx_next_estop_safe := True, fx_next_estop_over_budget := True\<rparr>)
      else if name = ''test_loss_over_budget'' then
        map_option (\<lambda>b. (Inr [(''enabled'', JBool b)], x\<lparr>fx_controller_loss_over_budget := b\<rparr>))
          (getBoolean (member ''enabled'' ms))
      else if name = ''test_telemetry_mode'' then
        map_option (\<lambda>i. if sint i \<in> {0, 1, 2}
            then (Inr [(''mode'', JSigned (signed i))], x\<lparr>fx_telemetry_mode := mode_of i\<rparr>)
            else (Inl (InvalidArgument, ''mode must be 0, 1, or 2''), x))
          (getContractInt (member ''mode'' ms))
      else if name = ''test_trigger_estop'' then
        Some (Inr [(''queued'', JBool True)], x\<lparr>fx_estop_trigger_pending := True\<rparr>)
      else None)"

lemma length_quoted_ge: "length s \<le> length (quoted hx s)"
  by (induction s) (auto simp: quoted_def escape_with_def)

lemma open_payload:
  assumes "ow_holds ms o'" and "\<not> ow_closed o'"
  shows "length (''{'' @ join_with '','' (map member_text ms)) < kMaxResultPayloadBytes"
proof -
  have "holds_members ms (ow_writer o')" "length (payload o') < kMaxResultPayloadBytes"
    using assms by (simp_all add: ow_holds_def)
  then show ?thesis by (simp add: holds_members_def payload_def)
qed

text \<open>A string longer than the writer is refused, and the writer remembers.\<close>

lemma addString_overflow:
  assumes "room_for ms k o'" and "member_name n" and "kMaxResultPayloadBytes < length (cstr t)"
  shows "\<exists>o1. addString_ow (Some n) (Some t) o' = (False, o1) \<and> objectWriterFailed o1"
proof -
  have h: "ow_holds ms o'" "\<not> ow_closed o'" using assms(1) by (simp_all add: room_for_def)
  then have hm: "holds_members ms (ow_writer o')" by (simp add: ow_holds_def)
  have n: "nul_free n" "cstr n = n" "n \<noteq> ''board_proc_us''" using assms(2) by (simp_all add: member_name_def)
  have ev: "addString (Some n) (Some t) = exec_event (FieldStr n (cstr t))"
    using exec_event_cstr(2) [of n "cstr t"] n(2) by (simp add: addString_def fun_eq_iff del: exec_event.simps)
  have mem: "member_events (n, JString (cstr t)) = [FieldStr n (cstr t)]" by simp
  have al: "allowed o' (Some n)" using h(2) n by (simp add: allowed_def isBoardProcUs_def strcmp_eq_def)
  have mc: "member_call (Some n) (JString (cstr t)) (addString (Some n) (Some t))"
    using mem ev n(2) by (simp add: member_call_def)
  have no: "\<not> fst (addString_ow (Some n) (Some t) o')"
  proof
    assume ok: "fst (addString_ow (Some n) (Some t) o')"
    then have "ow_holds (ms @ [(n, JString (cstr t))]) (snd (addString_ow (Some n) (Some t) o'))"
      using ow_holds_member [OF h(1) mc] n(2) by (simp add: addString_ow_def)
    moreover have "\<not> ow_closed (snd (addString_ow (Some n) (Some t) o'))"
      using al h(2) by (simp add: addString_ow_def on_writer_def split: prod.split)
    ultimately have "length (''{'' @ join_with '','' (map member_text (ms @ [(n, JString (cstr t))]))) < kMaxResultPayloadBytes"
      by (rule open_payload)
    moreover have "length (cstr t) \<le> length (quoted hex_upper (cstr t))" by (rule length_quoted_ge)
    ultimately show False using assms(3) by (simp add: join_with_snoc member_text_def split: if_splits)
  qed
  from holds_members_step [OF hm n(1) mem] no show ?thesis
    by (auto simp: addString_ow_def on_writer_def al ev objectWriterFailed_def simp del: exec_event.simps)
qed

lemma ok_line_short:
  assumes "length board \<le> kMaxBoardIdBytes" and "f64_finite cts" and "length (serialise (JObject ms)) \<le> 7000"
  shows "length (ok_line board seq cts ts ms us) < kResponseJsonBufferBytes"
  using assms(1,3) length_quoted_le [of hex_lower board] length_dec_u64 [of seq] length_dec_u64 [of ts]
    length_dec_u64 [of us] length_format_g17 [OF assms(2)] length_spliced [of ms us]
  by (simp add: ok_line_def response_text_def quoted_plain plain_char_def limits del: serialise.simps)

definition handler_does ::
    "command_result \<Rightarrow> object_writer \<Rightarrow> (board_error_code \<times> bytes + (bytes \<times> json) list) \<Rightarrow> bool" where
  "handler_does res ow reply \<longleftrightarrow>
     (case reply of
        Inl (code, message) \<Rightarrow>
          (\<not> cr_ok res \<and> toBoardErrorCode (cr_error_code res) = code \<and> cr_message res = message) \<or>
          (cr_ok res \<and> objectWriterFailed ow \<and> code = InternalError \<and>
             message = ''response exceeded fixed capacity'')
      | Inr out \<Rightarrow> cr_ok res \<and> room_for out 0 ow \<and> length (serialise (JObject out)) \<le> 7000)"

lemma room60: "room_for [] (0 + 60) new_object_writer"
  by (rule room_new) (simp add: limits)

lemma reports_member:
  assumes "room_for [(n, v)] 0 o1" and "length (member_text (n, v)) \<le> 58" and "cr_ok res"
  shows "handler_does res o1 (Inr [(n, v)])"
proof -
  have "length (serialise (JObject [(n, v)])) = length (member_text (n, v)) + 2"
    unfolding serialise_object by simp
  with assms show ?thesis by (simp add: handler_does_def del: serialise.simps)
qed

lemma reports_int:
  assumes "member_name n"
  shows "\<exists>o1. addInt_ow (Some n) v new_object_writer = (True, o1) \<and>
     handler_does ok_result o1 (Inr [(n, JSigned (signed v))])"
  using addInt_room [OF room60 assms, of v] length_member_text [OF assms, of "JSigned (signed v)"] length_dec_i32 [of v]
  by (auto simp: dec_i64_signed ok_result_def intro!: reports_member)

lemma reports_bool:
  assumes "member_name n"
  shows "\<exists>o1. addBool_ow (Some n) b new_object_writer = (True, o1) \<and> handler_does ok_result o1 (Inr [(n, JBool b)])"
  using addBool_room [OF room60 assms, of b] length_member_text [OF assms, of "JBool b"]
  by (auto simp: ok_result_def intro!: reports_member split: if_splits)

definition test_names :: "bytes list" where
  "test_names =
     [''test_echo'', ''test_oversized_result'', ''test_estop_success'', ''test_estop_fail'',
      ''test_estop_over_budget'', ''test_loss_over_budget'', ''test_telemetry_mode'', ''test_trigger_estop'']"

lemma fixture_handler_does:
  assumes "k < 8" and "fx_large_payload x = filled_payload"
    and "fixture_reply (test_names ! k) ms x = Some (reply, x')"
  shows "\<exists>res ow. (test_handlers ! k) (Some \<lparr>ab_args = Some ms, ab_active = True\<rparr>) new_object_writer x = (res, ow, x') \<and>
     handler_does res ow reply"
proof -
  have live: "args_getInt (Some \<lparr>ab_args = Some ms, ab_active = True\<rparr>) (Some n) = getContractInt (member n ms)"
    "args_getBool (Some \<lparr>ab_args = Some ms, ab_active = True\<rparr>) (Some n) = getBoolean (member n ms)" for n
    by (simp_all add: args_getInt_def args_getBool_def live_member_def backingLive_def)
  have names: "member_name ''value''" "member_name ''next_estop_safe''" "member_name ''next_estop_over_budget''"
    "member_name ''enabled''" "member_name ''mode''" "member_name ''queued''" "member_name ''payload''"
    by (simp_all add: member_name_def plain_char_def)
  have "kMaxResultPayloadBytes < length (cstr filled_payload)"
    by (simp add: filled_payload_def cstr_filled kLargePayloadBytes_def limits)
  from addString_overflow [OF room60 names(7) this] obtain o1 where
    over: "addString_ow (Some ''payload'') (Some filled_payload) new_object_writer = (False, o1)" "objectWriterFailed o1"
    by blast
  have three: "sint i \<in> {0, 1, 2} \<longleftrightarrow> \<not> (sint i < 0 \<or> 2 < sint i)" for i :: i32 by auto
  note run = test_names_def test_handlers_def fixture_reply_def handler_defs Let_def three assms(2) live
  from assms(1) consider "k = 0" | "k = 1" | "k = 2" | "k = 3" | "k = 4" | "k = 5" | "k = 6" | "k = 7" by linarith
  then show ?thesis
  proof cases
    case 1
    then obtain i where "getContractInt (member ''value'' ms) = Some i" using assms(3) by (auto simp: run)
    with 1 assms(3) reports_int [OF names(1), of i] show ?thesis by (auto simp: run)
  next
    case 2
    with assms(3) have "x' = x" "reply = Inl (InternalError, ''response exceeded fixed capacity'')"
      by (simp_all add: run)
    with 2 over show ?thesis by (simp add: run handler_does_def ok_result_def)
  next
    case 3
    with assms(3) reports_bool [OF names(2), of True] show ?thesis by (auto simp: run)
  next
    case 4
    with assms(3) reports_bool [OF names(2), of False] show ?thesis by (auto simp: run)
  next
    case 5
    with assms(3) reports_bool [OF names(3), of True] show ?thesis by (auto simp: run)
  next
    case 6
    then obtain b where "getBoolean (member ''enabled'' ms) = Some b" using assms(3) by (auto simp: run)
    with 6 assms(3) reports_bool [OF names(4), of b] show ?thesis by (auto simp: run)
  next
    case 7
    then obtain i where i: "getContractInt (member ''mode'' ms) = Some i" using assms(3) by (auto simp: run)
    with 7 assms(3) reports_int [OF names(5), of i] show ?thesis
      by (auto simp: run handler_does_def invalidArgument_def error_result_def copyMessage_def limits split: if_splits)
  next
    case 8
    with assms(3) reports_bool [OF names(6), of True] show ?thesis by (auto simp: run)
  qed
qed


lemma clock_reads_fixture: "clock_reads (conformance_env Q ar) w w' \<Longrightarrow> snd w' = snd w"
  by (induction rule: clock_reads.induct) (metis conformance_clock prod.collapse)+

lemma clock_us_fixture: "snd (snd (clock_us (conformance_env Q ar) clock w)) = snd w"
  using conformance_clock(2) [of Q ar w]
  by (cases clock) (auto simp: clock_us_def, metis prod.collapse)

lemma find_test:
  assumes "findCommand conformance_registry (Some name) = Some reg" and "fixture_reply (cstr name) ms x \<noteq> None"
  shows "\<exists>k < 8. cstr name = test_names ! k \<and> sc_handler reg = App_Handler k"
proof -
  have "cstr name \<in> set test_names"
    using assms(2) by (auto simp: fixture_reply_def test_names_def split: if_splits)
  then show ?thesis
    using assms(1)
    by (auto simp: findCommand_def conformance_registry_def stored_test_def test_names_def strcmp_eq_def)
qed


text \<open>The response line for a reply.\<close>

definition response_line ::
    "u64 \<Rightarrow> f64 \<Rightarrow> (board_error_code \<times> bytes + (bytes \<times> json) list) \<Rightarrow> bytes \<Rightarrow> bool" where
  "response_line seq cts reply line \<longleftrightarrow>
     (case reply of
        Inl (code, message) \<Rightarrow> (\<exists>ts. line = error_line ''command_server_conformance'' seq cts ts code message)
      | Inr out \<Rightarrow> (\<exists>ts us. line = ok_line ''command_server_conformance'' seq cts ts out us))"

lemma handler_reply_response:
  assumes "handler_does res ow reply" and "ow_holds ms ow" and "f64_finite (pc_controller_ts command)"
    and "\<And>out. reply = Inr out \<Longrightarrow> ms = out"
    and "handler_reply ''command_server_conformance'' command res ow ms line"
  shows "response_line (pc_seq command) (pc_controller_ts command) reply line"
proof (cases reply)
  case (Inl e)
  with assms(1,5) show ?thesis
    by (auto simp: handler_does_def handler_reply_def response_line_def split: if_splits)
next
  case (Inr out)
  with assms(1) have ok: "cr_ok res" "\<not> objectWriterFailed ow" "length (serialise (JObject out)) \<le> 7000"
    by (simp_all add: handler_does_def room_for_def del: serialise.simps)
  have "length (ok_line ''command_server_conformance'' (pc_seq command) (pc_controller_ts command) ts out us)
      < kResponseJsonBufferBytes" for ts us
    by (rule ok_line_short [OF _ assms(3) ok(3)]) (simp add: limits)
  then have "reply_line ''command_server_conformance'' command ts ts' out us =
      ok_line ''command_server_conformance'' (pc_seq command) (pc_controller_ts command) ts out us" for ts ts' us
    by (simp only: reply_line_def if_True)
  with assms(4,5) Inr ok(1,2) show ?thesis by (auto simp: handler_reply_def response_line_def)
qed

text \<open>The call of the handler of a test command, whatever the time and the rest of the world.\<close>

lemma test_call:
  fixes Q :: "('c, 'n) qnethernet"
  assumes "findCommand conformance_registry (Some name) = Some reg" and "fx_large_payload x = filled_payload"
    and "fixture_reply (cstr name) ms x = Some (reply, x')"
  shows "\<exists>res ow out. handler_does res ow reply \<and> ow_holds out ow \<and> (\<forall>o'. reply = Inr o' \<longrightarrow> out = o') \<and>
    (\<forall>seq c w. snd w = x \<longrightarrow> call_handler (conformance_env Q ar) (sc_handler reg) seq
       (Some \<lparr>ab_args = Some ms, ab_active = True\<rparr>) c w = (res, ow, (fst w, x')))"
proof -
  obtain k where k: "k < 8" "cstr name = test_names ! k" "sc_handler reg = App_Handler k"
    using find_test [OF assms(1)] assms(3) by blast
  from fixture_handler_does [OF k(1) assms(2,3) [unfolded k(2)]] obtain res ow where
    run: "(test_handlers ! k) (Some \<lparr>ab_args = Some ms, ab_active = True\<rparr>) new_object_writer x = (res, ow, x')"
    and does: "handler_does res ow reply" by blast
  have "k < length test_handlers" using k(1) by (simp add: test_handlers_def)
  then have call: "call_handler (conformance_env Q ar) (sc_handler reg) seq
      (Some \<lparr>ab_args = Some ms, ab_active = True\<rparr>) c w = (res, ow, (fst w, x'))" if "snd w = x" for seq c w
    using run that by (simp add: call_handler_def k(3))
  show ?thesis
  proof (cases reply)
    case (Inl e)
    have w: "snd (undefined :: ('c, 'n) platform, x) = x" by simp
    from call_handler_lawful [OF conformance_lawful call [OF w]] obtain out where "ow_holds out ow" by blast
    with does Inl call show ?thesis by auto
  next
    case (Inr o')
    with does have "ow_holds o' ow" by (simp add: handler_does_def room_for_def)
    with does Inr call show ?thesis by auto
  qed
qed

text \<open>
  C9: every test command is answered as specified, whatever happened before: in every state the
  conformance program can reach, a valid line with a test command and acceptable arguments gets
  the specified response, and the fixture changes as specified and in no other way. The
  8100-byte result is too large for a response and is answered by an internal error.
\<close>

theorem conformance_replies:
  assumes "conformance_run Q ar lib n sv" and "tc_session_driver sv = Some d"
    and "valid_line lib (identity_of (sh_context (tc_shared sv))) ''command'' data root"
    and "getString (member kCommand root) = Some name" and "getObject (member kArgs root) = Some ms"
    and "findCommand conformance_registry (Some name) = Some reg"
    and "validateArgs reg (Some \<lparr>ab_args = Some ms, ab_active = True\<rparr>) = None"
    and "fixture_reply (cstr name) ms (snd (sh_world (tc_shared sv))) = Some (reply, x')"
    and "has_room (sh_scheduler (tc_shared sv))"
    and "processLine (conformance_env Q ar) lib (service_loop_of (conformance_env Q ar) (sh_context (tc_shared sv)))
           (Some data) (loop_state_of sv d) = st"
  shows "snd (sh_world (ls_shared st)) = x' \<and> ls_driver st = d \<and>
     (\<exists>seq cts line. getSeq (member kSeq root) = Some seq \<and>
        getFiniteDouble (member kControllerTs root) = Some cts \<and>
        held_lines (sh_scheduler (ls_shared st)) =
          held_lines (sh_scheduler (tc_shared sv)) @ [(CommandResponse, line)] \<and>
        response_line seq cts reply line)"
proof -
  define m x where "m = sh_context (tc_shared sv)" and "x = snd (sh_world (tc_shared sv))"
  note sv = conformance_run_server [OF assms(1), folded m_def] conformance_run_payload [OF assms(1), folded x_def]
  obtain res ow out where does: "handler_does res ow reply"
    and out: "ow_holds out ow" "\<And>o'. reply = Inr o' \<Longrightarrow> out = o'"
    and call: "\<And>seq c w. snd w = x \<Longrightarrow> call_handler (conformance_env Q ar) (sc_handler reg) seq
       (Some \<lparr>ab_args = Some ms, ab_active = True\<rparr>) c w = (res, ow, (fst w, x'))"
    using test_call [OF assms(6) sv(2) assms(8) [folded x_def], of Q ar] by blast
  show ?thesis
  proof (rule command_line_dispatches [OF assms(3) [folded m_def], of "loop_state_of sv d" "conformance_env Q ar"])
    show "fm_clock m" "sh_context (ls_shared (loop_state_of sv d)) = m"
      using sv(1) by (simp_all add: loop_state_of_def m_def)
  next
    fix command ms' us p td d' c' s' w'
    define w where "w = snd (clock_us (conformance_env Q ar) (fm_clock m) (sh_world (ls_shared (loop_state_of sv d))))"
    assume seq: "getSeq (member kSeq root) = Some (pc_seq command)"
      and cts: "getFiniteDouble (member kControllerTs root) = Some (pc_controller_ts command)"
      and cmd: "getString (member kCommand root) = pc_command command" "getObject (member kArgs root) = Some ms'"
      and disp: "dispatch (conformance_env Q ar) (fm_registry m) command (Some \<lparr>ab_args = Some ms', ab_active = True\<rparr>) us
       (new_dispatcher (identity_of m), sh_counters (ls_shared (loop_state_of sv d)),
        sh_scheduler (ls_shared (loop_state_of sv d)),
        snd (clock_us (conformance_env Q ar) (fm_clock m) (sh_world (ls_shared (loop_state_of sv d))))) =
          (td, (d', c', s', w'))"
      and processed: "processLine (conformance_env Q ar) lib (service_loop_of (conformance_env Q ar) m) (Some data)
          (loop_state_of sv d) = teardown_if td (loop_state_of sv d\<lparr>ls_parser := p,
            ls_shared := (ls_shared (loop_state_of sv d))\<lparr>sh_counters := c', sh_scheduler := s', sh_world := w'\<rparr>\<rparr>)"
    have "snd w = x" by (simp add: w_def clock_us_fixture loop_state_of_def x_def)
    note call' = call [OF this, of "pc_seq command"]
    have args: "ms' = ms" "pc_command command = Some name" using cmd assms(4,5) by simp_all
    have named: "board_named (cd_identity (new_dispatcher (identity_of m))) ''command_server_conformance''"
      using sv(1) by (simp add: new_dispatcher_def board_named_def registry_identity_def conformance_registry_def limits)
    have found: "findCommand (fm_registry m) (pc_command command) = Some reg"
      using sv(1) assms(6) args(2) by simp
    note ans = dispatch_handled [OF conformance_lawful named getFiniteDouble_finite [OF cts] found
        assms(7) call' out(1) disp [unfolded args w_def [symmetric]]]
    have "has_room (sh_scheduler (ls_shared (loop_state_of sv d)))" using assms(9) by (simp add: loop_state_of_def)
    with ans obtain line where line: "\<not> td" "clock_reads (conformance_env Q ar) (fst w, x') w'"
      "held_lines s' = held_lines (sh_scheduler (tc_shared sv)) @ [(CommandResponse, line)]"
      "handler_reply ''command_server_conformance'' command res ow out line"
      by (auto simp: loop_state_of_def)
    from handler_reply_response [OF does out(1) getFiniteDouble_finite [OF cts] out(2) line(4)]
    have "response_line (pc_seq command) (pc_controller_ts command) reply line" .
    moreover have "st = loop_state_of sv d\<lparr>ls_parser := p,
        ls_shared := (ls_shared (loop_state_of sv d))\<lparr>sh_counters := c', sh_scheduler := s', sh_world := w'\<rparr>\<rparr>"
      using processed [folded m_def, unfolded assms(10) [folded m_def]] line(1) by (simp add: teardown_if_def)
    moreover have "snd w' = x'" using clock_reads_fixture [OF line(2)] by simp
    ultimately show ?thesis using line(3) seq cts by (simp add: loop_state_of_def)
  qed
qed

lemma setup_scheduler:
  fixes Q :: "('c, 'n) qnethernet"
  shows "sh_scheduler (tc_shared (setup_conformance Q ar (power_on_conformance Q n))) = new_scheduler"
proof -
  have keep: "sh_scheduler (tc_shared (on_world f sv)) = sh_scheduler (tc_shared sv)"
    "sh_scheduler (tc_shared (do_configure call sv)) = sh_scheduler (tc_shared sv)"
    "sh_scheduler (tc_shared (snd (start E sv))) = sh_scheduler (tc_shared sv)"
    for f call E and sv :: "('c, 'n) firmware"
    by (auto simp: on_world_def do_configure_def on_members_def start_def start_session_eq Let_def split: prod.split)
  show ?thesis
    by (simp add: setup_conformance_def Let_def registerCommands_def keep)
      (simp add: power_on_conformance_def new_server_def)
qed

text \<open>A controller that asks for an echo of 5.\<close>

definition sample_arduino :: "nat arduino" where
  "sample_arduino =
     \<lparr>ar_serialBegin = (\<lambda>baud n. n), ar_serialPrint = (\<lambda>s n. n), ar_delay = (\<lambda>ms n. n + unat ms),
      ar_octet = (\<lambda>ip i. ucast (drop_bit (8 * i) ip)), ar_onAddressChanged = (\<lambda>f. f)\<rparr>"

definition echo_root :: "(bytes \<times> json) list" where
  "echo_root =
     [(kType, JString ''command''), (kSeq, JUnsigned 7), (kControllerTs, JUnsigned 1),
      (kSource, JString ''controller''), (kTarget, JString ''command_server_conformance''),
      (kCommand, JString ''test_echo''), (kArgs, JObject [(''value'', JUnsigned 5)])]"

definition echo_library :: json_library where
  "echo_library =
     \<lparr>deserialize_in_place = (\<lambda>s. Some (JObject echo_root)), deserialize_copying = (\<lambda>s. Some (JObject echo_root))\<rparr>"

lemma echo_fields:
  "getString (member kType echo_root) = Some ''command''"
  "getString (member kSource echo_root) = Some ''controller''"
  "getString (member kTarget echo_root) = Some ''command_server_conformance''"
  "getString (member kCommand echo_root) = Some ''test_echo''"
  "getObject (member kArgs echo_root) = Some [(''value'', JUnsigned 5)]"
  "getSeq (member kSeq echo_root) = Some 7"
  "getFiniteDouble (member kControllerTs echo_root) = Some 0x3FF0000000000000"
proof -
  have "f64_of_nat 1 = 1023 * 2 ^ 52"
    by (simp add: f64_of_nat_def floor_log2.simps Let_def)
  then have "getFiniteDouble (JUnsigned 1) = Some 0x3FF0000000000000"
    by (simp add: getFiniteDouble_def f64_pack_def isFinite_def f64_finite_def f64_exponent_def)
  then show
    "getString (member kType echo_root) = Some ''command''"
    "getString (member kSource echo_root) = Some ''controller''"
    "getString (member kTarget echo_root) = Some ''command_server_conformance''"
    "getString (member kCommand echo_root) = Some ''test_echo''"
    "getObject (member kArgs echo_root) = Some [(''value'', JUnsigned 5)]"
    "getSeq (member kSeq echo_root) = Some 7"
    "getFiniteDouble (member kControllerTs echo_root) = Some 0x3FF0000000000000"
    by (simp_all add: echo_root_def member_def find_member_def strcmp_eq_def)
qed

lemma echo_line:
  "valid_line echo_library \<lparr>board_id = Some ''command_server_conformance'', protocol_version = p,
     firmware_version = f\<rparr> ''command'' ''x'' echo_root"
proof -
  have texts: "cstr ''command'' = ''command''" "cstr ''controller'' = ''controller''"
    "cstr ''command_server_conformance'' = ''command_server_conformance''"
    by (simp_all add: cstr_def)
  have "line_addresses echo_library ''x'' echo_root ''controller'' ''command_server_conformance''"
    using echo_fields texts by (simp add: line_addresses_def echo_library_def limits document_root_def)
  moreover have keys: "list_all (\<lambda>k. containsKey k echo_root)
      [kType, kSeq, kControllerTs, kSource, kTarget, kCommand, kArgs]"
    by (simp add: echo_root_def containsKey_def find_member_def strcmp_eq_def)
  moreover have "line_kind (deserialize_in_place echo_library) (Some ''x'') = Valid"
    using echo_fields texts keys by (simp add: echo_library_def line_kind_def document_root_def
        message_type_of_cases line_error_def strcmp_eq_def shape_defs
        expected_kind_def)
  moreover have "addressed \<lparr>board_id = Some ''command_server_conformance'', protocol_version = p,
     firmware_version = f\<rparr> ''controller'' ''command_server_conformance''"
    by (simp add: addressed_def strcmp_eq_def)
  ultimately show ?thesis using echo_fields(1) texts(1) unfolding valid_line_def by blast
qed


lemma conformance_replies_witness:
  "let sv = setup_conformance sample_qn sample_arduino (power_on_conformance sample_qn 0) in
   \<exists>d st line ts us. tc_session_driver sv = Some d \<and>
     processLine (conformance_env sample_qn sample_arduino) echo_library
       (service_loop_of (conformance_env sample_qn sample_arduino) (sh_context (tc_shared sv)))
       (Some ''x'') (loop_state_of sv d) = st \<and>
     fx_echo_value (snd (sh_world (ls_shared st))) = 5 \<and>
     held_lines (sh_scheduler (ls_shared st)) = [(CommandResponse, line)] \<and>
     line = ok_line ''command_server_conformance'' 7 0x3FF0000000000000 ts [(''value'', JSigned 5)] us"
proof -
  define sv where "sv = setup_conformance sample_qn sample_arduino (power_on_conformance sample_qn 0)"
  note up = setup_brings_up [of sample_qn sample_arduino 0, folded sv_def, unfolded Let_def]
  obtain d where d: "tc_session_driver sv = Some d" using up by blast
  define st where "st = processLine (conformance_env sample_qn sample_arduino) echo_library
       (service_loop_of (conformance_env sample_qn sample_arduino) (sh_context (tc_shared sv)))
       (Some ''x'') (loop_state_of sv d)"
  define x where "x = snd (sh_world (tc_shared sv))"
  have run: "conformance_run sample_qn sample_arduino echo_library 0 sv"
    unfolding sv_def by (rule cf_setup)
  have "identity_of (sh_context (tc_shared sv)) = \<lparr>board_id = Some ''command_server_conformance'',
      protocol_version = Some ''1'', firmware_version = Some ''0.1.0''\<rparr>"
    using up by (simp add: identity_of_def registry_identity_def conformance_registry_def)
  then have line: "valid_line echo_library (identity_of (sh_context (tc_shared sv))) ''command'' ''x'' echo_root"
    using echo_line by simp
  have found: "findCommand conformance_registry (Some ''test_echo'') =
      Some (stored_test ''test_echo'' [(''value'', Int_Type)] (App_Handler 0))"
    by (simp add: findCommand_def conformance_registry_def stored_test_def strcmp_eq_def)
  have args: "validateArgs (stored_test ''test_echo'' [(''value'', Int_Type)] (App_Handler 0))
      (Some \<lparr>ab_args = Some [(''value'', JUnsigned 5)], ab_active = True\<rparr>) = None"
    by (simp add: validateArgs_def stored_test_def hasExtraArgument_def argumentTypeMatches_def args_has_def
        args_getInt_def containsKey_def declaresArgument_def recoverArgsBacking_def live_member_def backingLive_def member_def find_member_def strcmp_eq_def)
  have reply: "fixture_reply (cstr ''test_echo'') [(''value'', JUnsigned 5)] x =
      Some (Inr [(''value'', JSigned 5)], x\<lparr>fx_echo_value := 5\<rparr>)"
    by (simp add: fixture_reply_def member_def find_member_def strcmp_eq_def)
  have room: "has_room (sh_scheduler (tc_shared sv))" "held_lines (sh_scheduler (tc_shared sv)) = []"
    by (simp_all add: sv_def setup_scheduler new_scheduler_def has_room_def held_lines_def limits)
  from conformance_replies [OF run d line echo_fields(4,5) found args reply [unfolded x_def] room(1) st_def [symmetric]]
  show ?thesis
    using d room(2) echo_fields(6,7) by (auto simp: sv_def [symmetric] st_def response_line_def)
qed

section \<open>Telemetry\<close>

lemma conformance_named:
  assumes "conformance_run Q ar lib n sv" and "fm_telemetry_scheduler (sh_context (tc_shared sv)) = Some t"
  shows "board_named (ts_identity t) ''command_server_conformance''" and "ts_provider t = Some 0"
  using conformance_run_server [OF assms(1)] assms(2)
  by (auto simp: board_named_def registry_identity_def conformance_registry_def limits)

definition fixture_members :: "fixture_state \<Rightarrow> (bytes \<times> json) list" where
  "fixture_members x =
     [(''echo_value'', JSigned (signed (fx_echo_value x))),
      (''telemetry_mode'', JSigned (signed (mode_number (fx_telemetry_mode x))))]"

lemma fixture_line_fits:
  "length (line_of (telemetry_members ''command_server_conformance'' seq now (fixture_members x)))
     < kTelemetryJsonBufferBytes"
proof -
  have len: "length (line_of (telemetry_members ''command_server_conformance'' seq now ms)) \<le>
      400 + length (serialise (JObject ms))" for ms
    using length_dec_u64 [of seq] length_dec_u64 [of now] 
    by (simp add: line_of_def telemetry_members_def quoted_plain plain_char_def del: serialise.simps(8))
       (simp add: quoted_plain plain_char_def)
  have "length (serialise (JObject (fixture_members x))) \<le> 400"
    using length_dec_i32 [of "fx_echo_value x"] length_dec_i32 [of "mode_number (fx_telemetry_mode x)"]
    by (simp add: fixture_members_def dec_i64_signed quoted_plain plain_char_def)
  with len [of "fixture_members x"] show ?thesis by (simp add: limits)
qed

lemma writeTelemetry_members:
  assumes "fx_large_payload x = filled_payload"
  shows "if fx_telemetry_mode x = Normal_Mode
     then \<exists>o1. writeTelemetry new_object_writer x = (True, o1, x) \<and> ow_holds (fixture_members x) o1
     else \<exists>o1. writeTelemetry new_object_writer x = (False, o1, x)"
proof -
  have names: "member_name ''echo_value''" "member_name ''telemetry_mode''" "member_name ''overflow_payload''"
    by (simp_all add: member_name_def plain_char_def)
  have "room_for [] (0 + 60 + 60) new_object_writer" by (rule room_new) (simp add: limits)
  from addInt_room [OF this names(1)] obtain o1 where
    1: "addInt_ow (Some ''echo_value'') (fx_echo_value x) new_object_writer = (True, o1)"
      "room_for [(''echo_value'', JSigned (signed (fx_echo_value x)))] (0 + 60) o1" by auto
  from addInt_room [OF 1(2) names(2)] obtain o2 where
    2: "addInt_ow (Some ''telemetry_mode'') (mode_number (fx_telemetry_mode x)) o1 = (True, o2)"
      "room_for (fixture_members x) 0 o2" unfolding fixture_members_def by fastforce
  have "kMaxResultPayloadBytes < length (cstr filled_payload)"
    by (simp add: filled_payload_def cstr_filled kLargePayloadBytes_def limits)
  from addString_overflow [OF 2(2) names(3) this] obtain o3 where
    3: "addString_ow (Some ''overflow_payload'') (Some filled_payload) o2 = (False, o3)" by blast
  show ?thesis
    using 2 by (cases "fx_telemetry_mode x") (auto simp: writeTelemetry_def 1(1) 3 assms room_for_def)
qed

text \<open>
  In every state the conformance program can reach, a due telemetry frame is the one its mode
  asks for: in the normal mode the frame with the echo value is queued, and as an oversized frame
  or as a failing provider the frame is dropped and counted. The fixture does not change.
\<close>

theorem conformance_telemetry:
  assumes "conformance_run Q ar lib n sv"
    and "fm_telemetry_scheduler (sh_context (tc_shared sv)) = Some t"
    and "buildAndQueue (conformance_env Q ar) (t, c, s, sh_world (tc_shared sv)) = (ok, (t', c', s', w'))"
  shows "let x = snd (sh_world (tc_shared sv)) in snd w' = x \<and>
     (if fx_telemetry_mode x = Normal_Mode
      then ok \<and> telemetry_dropped c' = telemetry_dropped c \<and> ts_next_seq t' = ts_next_seq t + 1 \<and>
        (\<exists>ts. s' = s\<lparr>os_telemetry := Some (line_of (telemetry_members ''command_server_conformance''
           (ts_next_seq t) ts
           [(''echo_value'', JSigned (signed (fx_echo_value x))), (''telemetry_mode'', JSigned 0)]))\<rparr>)
      else \<not> ok \<and> telemetry_dropped c' = telemetry_dropped c + 1 \<and> ts_next_seq t' = ts_next_seq t \<and> s' = s)"
proof -
  define w where "w = sh_world (tc_shared sv)"
  note t = conformance_named [OF assms(1,2)]
  have payload: "fx_large_payload (snd w) = filled_payload"
    unfolding w_def by (rule conformance_run_payload [OF assms(1)])
  obtain provided ow where pr: "writeTelemetry new_object_writer (snd w) = (provided, ow, snd w)"
    using writeTelemetry_members [OF payload] by (auto split: if_splits)
  obtain ms where ms: "ow_holds ms ow" "provided \<Longrightarrow> fx_telemetry_mode (snd w) = Normal_Mode \<and> ms = fixture_members (snd w)"
    "\<not> provided \<Longrightarrow> fx_telemetry_mode (snd w) \<noteq> Normal_Mode"
  proof (cases provided)
    case True
    with writeTelemetry_members [OF payload] pr that show ?thesis by (auto split: if_splits)
  next
    case False
    have "\<exists>ms. ow_holds ms ow"
      using ow_reaches_holds [OF writeTelemetry_lawful [of new_object_writer "snd w"] ow_holds_new] by (simp add: pr)
    with False writeTelemetry_members [OF payload] pr that show ?thesis by (auto split: if_splits)
  qed
  have call: "telemetryProvider (conformance_env Q ar) 0 new_object_writer w = (provided, ow, (fst w, snd w))"
    by (simp add: pr)
  obtain now w2 where now: "monotonicMilliseconds (conformance_env Q ar) (fst w, snd w) = (now, w2)"
    by (cases "monotonicMilliseconds (conformance_env Q ar) (fst w, snd w)")
  have w2: "snd w2 = snd w" using conformance_clock(1) [OF now] by simp
  have mode: "fx_telemetry_mode x = Normal_Mode \<Longrightarrow> fixture_members x =
      [(''echo_value'', JSigned (signed (fx_echo_value x))), (''telemetry_mode'', JSigned 0)]" for x
    by (simp add: fixture_members_def)
  have fits: "length (line_of (telemetry_members ''command_server_conformance'' (ts_next_seq t) now ms))
      < kTelemetryJsonBufferBytes" if provided using fixture_line_fits ms(2) [OF that] by simp
  from buildAndQueue_frame [OF t call ms(1) now, of c s ok t' c' s' w'] assms(3)
  show ?thesis
    using ms(2,3) fits w2 by (cases provided) (auto simp: Let_def w_def [symmetric] mode)
qed

lemma conformance_telemetry_witness:
  "let sv = setup_conformance sample_qn sample_arduino (power_on_conformance sample_qn 0) in
   \<exists>t ok t' c' s' w'. fm_telemetry_scheduler (sh_context (tc_shared sv)) = Some t \<and>
     buildAndQueue (conformance_env sample_qn sample_arduino) (t, zero_counters, new_scheduler, sh_world (tc_shared sv))
       = (ok, (t', c', s', w')) \<and> ok \<and> os_telemetry s' \<noteq> None"
proof -
  define sv where "sv = setup_conformance sample_qn sample_arduino (power_on_conformance sample_qn 0)"
  have run: "conformance_run sample_qn sample_arduino echo_library 0 sv"
    unfolding sv_def by (rule cf_setup)
  from conformance_run_server [OF this] obtain t where t: "fm_telemetry_scheduler (sh_context (tc_shared sv)) = Some t"
    by blast
  obtain ok t' c' s' w' where b: "buildAndQueue (conformance_env sample_qn sample_arduino)
      (t, zero_counters, new_scheduler, sh_world (tc_shared sv)) = (ok, (t', c', s', w'))" by (metis surj_pair)
  have "fx_telemetry_mode (snd (sh_world (tc_shared sv))) = Normal_Mode"
    using setup_brings_up [of sample_qn sample_arduino 0, folded sv_def] by (simp add: Let_def initial_fixture_def)
  with conformance_telemetry [OF run t b] have "ok \<and> os_telemetry s' \<noteq> None" by (auto simp: Let_def)
  with t b show ?thesis unfolding sv_def [symmetric] Let_def by blast
qed

section \<open>The emergency stop\<close>

lemma clock_ms_fixture: "snd (snd (clock_ms (conformance_env Q ar) clock w)) = snd w"
  using conformance_clock(1) [of Q ar w]
  by (cases clock) (auto simp: clock_ms_def, metis prod.collapse)

lemma conformance_estop_hook: "cr_estop_hook conformance_registry = Some 0"
  by (simp add: conformance_registry_def)

lemma handleEstop_fixture_world:
  assumes "handleEstop (conformance_env Q ar) identity clock (Some 0) (c, s, w) = (td, (c', s', w'))"
  shows "snd w' = (snd w)\<lparr>fx_next_estop_safe := True, fx_next_estop_over_budget := False\<rparr>"
proof -
  obtain t1 w1 where 1: "clock_us (conformance_env Q ar) clock w = (t1, w1)"
    by (cases "clock_us (conformance_env Q ar) clock w")
  obtain safe w2 where 2: "handleEstop_fixture ar w1 = (safe, w2)" by (cases "handleEstop_fixture ar w1")
  obtain t3 w3 where 3: "clock_us (conformance_env Q ar) clock w2 = (t3, w3)"
    by (cases "clock_us (conformance_env Q ar) clock w2")
  obtain t4 w4 where 4: "clock_ms (conformance_env Q ar) clock w3 = (t4, w4)"
    by (cases "clock_ms (conformance_env Q ar) clock w3")
  have "w' \<in> {w3, w4}"
    using assms by (auto simp: handleEstop_def Let_def 1 2 3 4 split: if_splits option.splits prod.splits)
  moreover have "snd w1 = snd w" "snd w3 = snd w2" "snd w4 = snd w3"
    using clock_us_fixture [of Q ar clock w] clock_us_fixture [of Q ar clock w2] clock_ms_fixture [of Q ar clock w3]
    by (simp_all add: 1 3 4)
  moreover have "snd w2 = (snd w1)\<lparr>fx_next_estop_safe := True, fx_next_estop_over_budget := False\<rparr>"
    using 2 by (auto simp: handleEstop_fixture_def Let_def on_arduino_def split: if_splits prod.splits)
  ultimately show ?thesis by auto
qed

text \<open>
  C10: the commands that make the next emergency stop fail hold for one stop. In every state the
  conformance program can reach, an e-stop line is acknowledged exactly when the fixture is not
  told to fail; afterwards, whatever it was told, the fixture stops safely and in time again.
\<close>

theorem conformance_estop_once:
  assumes "conformance_run Q ar lib n sv" and "tc_session_driver sv = Some d"
    and "valid_line lib (identity_of (sh_context (tc_shared sv))) ''estop'' data root"
    and "processLine (conformance_env Q ar) lib (service_loop_of (conformance_env Q ar) (sh_context (tc_shared sv)))
           (Some data) (loop_state_of sv d) = st"
  shows "let x = snd (sh_world (tc_shared sv)); s = sh_scheduler (tc_shared sv); s' = sh_scheduler (ls_shared st) in
     snd (sh_world (ls_shared st)) = x\<lparr>fx_next_estop_safe := True, fx_next_estop_over_budget := False\<rparr> \<and>
     (if fx_next_estop_safe x
      then (if has_room s
            then ls_driver st = d \<and>
              (\<exists>ts. held_lines s' = held_lines s @ [(EstopAck, ack_line ''command_server_conformance'' ts)])
            else s' = s \<and> ls_driver st = requestTeardown CriticalTransmitFailure d)
      else s' = s \<and> ls_driver st = d \<and>
        estop_apply_failed (sh_counters (ls_shared st)) = estop_apply_failed (sh_counters (tc_shared sv)) + 1)"
proof -
  let ?E = "conformance_env Q ar"
  define m where "m = sh_context (tc_shared sv)"
  note sv = conformance_run_server [OF assms(1), folded m_def]
  have named: "board_named (identity_of m) ''command_server_conformance''"
    using sv by (simp add: board_named_def registry_identity_def conformance_registry_def limits)
  define w where "w = snd (clock_us ?E (fm_clock m) (sh_world (tc_shared sv)))"
  have w: "snd w = snd (sh_world (tc_shared sv))" unfolding w_def by (rule clock_us_fixture)
  have ls: "ls_shared (loop_state_of sv d) = tc_shared sv" "ls_driver (loop_state_of sv d) = d"
    by (simp_all add: loop_state_of_def)
  show ?thesis
  proof (rule estop_line_handled [OF assms(3) [folded m_def], of "loop_state_of sv d" ?E])
    show "sh_context (ls_shared (loop_state_of sv d)) = m" by (simp add: ls m_def)
  next
    fix p td c' s' w'
    assume es: "handleEstop ?E (identity_of m) (fm_clock m) (cr_estop_hook (fm_registry m))
         (sh_counters (ls_shared (loop_state_of sv d)), sh_scheduler (ls_shared (loop_state_of sv d)),
          snd (clock_us ?E (fm_clock m) (sh_world (ls_shared (loop_state_of sv d))))) = (td, (c', s', w'))"
      and run: "processLine ?E lib (service_loop_of ?E m) (Some data) (loop_state_of sv d) = teardown_if td
         ((loop_state_of sv d)\<lparr>ls_parser := p, ls_shared := (ls_shared (loop_state_of sv d))
            \<lparr>sh_counters := c', sh_scheduler := s', sh_world := w'\<rparr>\<rparr>)"
    have hook: "cr_estop_hook (fm_registry m) = Some 0" using sv by (simp add: conformance_estop_hook)
    note es' = es [unfolded ls hook w_def [symmetric]]
    have safe: "fst (handleEstop_fixture ar (snd (clock_us ?E (fm_clock m) w))) = fx_next_estop_safe (snd w)"
      using clock_us_fixture [of Q ar "fm_clock m" w]
      by (auto simp: handleEstop_fixture_def Let_def on_arduino_def split: prod.split)
    note acks = handleEstop_acks [OF named, of ?E "fm_clock m" "Some 0" "sh_counters (tc_shared sv)"
        "sh_scheduler (tc_shared sv)" w, unfolded es' Let_def prod.case]
    have st: "st = teardown_if td ((loop_state_of sv d)\<lparr>ls_parser := p, ls_shared := (tc_shared sv)
            \<lparr>sh_counters := c', sh_scheduler := s', sh_world := w'\<rparr>\<rparr>)"
      using run assms(4) by (simp add: m_def ls)
    show ?thesis
      using acks handleEstop_fixture_world [OF es']
      by (auto simp: st Let_def teardown_if_def ls safe w split: if_splits)
  qed
qed

definition estop_root :: "(bytes \<times> json) list" where
  "estop_root =
     [(kType, JString ''estop''), (kSource, JString ''controller''),
      (kTarget, JString ''command_server_conformance'')]"

definition estop_library :: json_library where
  "estop_library =
     \<lparr>deserialize_in_place = (\<lambda>s. Some (JObject estop_root)), deserialize_copying = (\<lambda>s. Some (JObject estop_root))\<rparr>"

lemma estop_line:
  "valid_line estop_library \<lparr>board_id = Some ''command_server_conformance'', protocol_version = p,
     firmware_version = f\<rparr> ''estop'' ''x'' estop_root"
proof -
  have fields: "getString (member kType estop_root) = Some ''estop''"
    "getString (member kSource estop_root) = Some ''controller''"
    "getString (member kTarget estop_root) = Some ''command_server_conformance''"
    "list_all (\<lambda>k. containsKey k estop_root) [kType, kSource, kTarget]"
    by (simp_all add: estop_root_def member_def find_member_def containsKey_def strcmp_eq_def)
  have texts: "cstr ''estop'' = ''estop''" "cstr ''controller'' = ''controller''"
    "cstr ''command_server_conformance'' = ''command_server_conformance''"
    by (simp_all add: cstr_def)
  have "line_addresses estop_library ''x'' estop_root ''controller'' ''command_server_conformance''"
    using fields texts by (simp add: line_addresses_def estop_library_def limits document_root_def)
  moreover have "line_kind (deserialize_in_place estop_library) (Some ''x'') = Valid"
    using fields texts by (simp add: estop_library_def line_kind_def document_root_def
        message_type_of_cases line_error_def strcmp_eq_def shape_defs expected_kind_def)
  moreover have "addressed \<lparr>board_id = Some ''command_server_conformance'', protocol_version = p,
     firmware_version = f\<rparr> ''controller'' ''command_server_conformance''"
    by (simp add: addressed_def strcmp_eq_def)
  ultimately show ?thesis using fields(1) texts(1) unfolding valid_line_def by blast
qed

lemma conformance_estop_once_witness:
  "let sv = setup_conformance sample_qn sample_arduino (power_on_conformance sample_qn 0) in
   \<exists>d st ts. tc_session_driver sv = Some d \<and>
     processLine (conformance_env sample_qn sample_arduino) estop_library
       (service_loop_of (conformance_env sample_qn sample_arduino) (sh_context (tc_shared sv)))
       (Some ''x'') (loop_state_of sv d) = st \<and>
     held_lines (sh_scheduler (ls_shared st)) = [(EstopAck, ack_line ''command_server_conformance'' ts)]"
proof -
  define sv where "sv = setup_conformance sample_qn sample_arduino (power_on_conformance sample_qn 0)"
  note up = setup_brings_up [of sample_qn sample_arduino 0, folded sv_def, unfolded Let_def]
  obtain d where d: "tc_session_driver sv = Some d" using up by blast
  have run: "conformance_run sample_qn sample_arduino estop_library 0 sv"
    unfolding sv_def by (rule cf_setup)
  have line: "valid_line estop_library (identity_of (sh_context (tc_shared sv))) ''estop'' ''x'' estop_root"
    using up estop_line by (simp add: identity_of_def registry_identity_def conformance_registry_def)
  have room: "has_room (sh_scheduler (tc_shared sv))" "held_lines (sh_scheduler (tc_shared sv)) = []"
    by (simp_all add: sv_def setup_scheduler new_scheduler_def has_room_def held_lines_def limits)
  have "fx_next_estop_safe (snd (sh_world (tc_shared sv)))" using up by (simp add: initial_fixture_def)
  with conformance_estop_once [OF run d line refl] d room show ?thesis
    by (auto simp: sv_def [symmetric] Let_def)
qed

end
