(* ===== verification/Smoke.thy ===== *)
theory Smoke
  imports ConformanceRuns
begin

text \<open>
  The smallest board program, \<open>sketches/ethernet_smoke/ethernet_smoke.ino\<close>: one command, one
  telemetry field, and safety hooks that always succeed. It keeps no state of its own.
\<close>

section \<open>The program\<close>

definition kListenPort_smoke :: u16 where "kListenPort_smoke = 5050"

definition network_config_smoke :: network_config where
  "network_config_smoke =
     \<lparr>nc_mode = Dhcp, nc_listen_port = kListenPort_smoke, nc_ip = (0, 0, 0, 0), nc_gateway = (0, 0, 0, 0),
      nc_subnet = (0, 0, 0, 0)\<rparr>"

definition smokePing :: "object_writer \<Rightarrow> command_result \<times> object_writer" where
  "smokePing result =
     (case addBool_ow (Some ''pong'') True result of
        (ok, result1) \<Rightarrow> (if ok then ok_result else internalError (Some ''smoke result overflow''), result1))"

text \<open>\<open>millis()\<close> is the Arduino core's, the one the platform's clock reads too.\<close>

definition writeTelemetry_smoke ::
    "('c, 'n) qnethernet \<Rightarrow> object_writer \<Rightarrow> 'n \<Rightarrow> bool \<times> object_writer \<times> 'n" where
  "writeTelemetry_smoke Q telemetry n =
     (case qn_millis Q n of (t, n1) \<Rightarrow>
        case addInt_ow (Some ''uptime_ms'') (ucast t :: i32) telemetry of
          (ok, telemetry1) \<Rightarrow> (ok, telemetry1, n1))"

definition applySafeState :: "'w \<Rightarrow> bool \<times> 'w" where
  "applySafeState w = (True, w)"

definition smoke_board :: "('c, 'n) qnethernet \<Rightarrow> (('c, 'n) platform \<times> unit) env" where
  "smoke_board Q =
     no_board
       \<lparr>safetyHook := (\<lambda>k. applySafeState),
        telemetryProvider := (\<lambda>k telemetry w.
          case w of ((s, n), x) \<Rightarrow>
            case writeTelemetry_smoke Q telemetry n of (ok, o', n1) \<Rightarrow> (ok, o', ((s, n1), x))),
        commandHandler := (\<lambda>k seq args result w. case smokePing result of (res, o') \<Rightarrow> (res, o', w))\<rparr>"

definition smoke_env :: "('c, 'n) qnethernet \<Rightarrow> (('c, 'n) platform \<times> unit) env" where
  "smoke_env Q = beside (qn_platform Q) (smoke_board Q)"

type_synonym ('c, 'n) smoke_firmware = "(('c, 'n) platform \<times> unit) teensy_command_server"

definition setup_smoke :: "('c, 'n) qnethernet \<Rightarrow> ('c, 'n) smoke_firmware \<Rightarrow> ('c, 'n) smoke_firmware" where
  "setup_smoke Q sv0 =
     (let sv1 = do_configure (Call_setIdentity \<lparr>board_id = Some ''ethernet_smoke'', protocol_version = Some ''1'',
                  firmware_version = Some ''0.1.0''\<rparr>) sv0;
          sv2 = do_configure (Call_setNetworkConfig network_config_smoke) sv1;
          sv3 = do_configure (Call_registerCommand
                  \<lparr>cs_name = Some ''smoke_ping'', cs_args = None, cs_arg_count = 0, cs_blocked_by_estop = False\<rparr>
                  (Some (App_Handler 0))) sv2;
          sv4 = do_configure (Call_registerTelemetrySchema (Some [(Some ''uptime_ms'', Int_Type)]) 1) sv3;
          sv5 = do_configure (Call_setTelemetryProvider (Some 0)) sv4;
          sv6 = do_configure (Call_setEstopHook (Some 0)) sv5;
          sv7 = do_configure (Call_setControllerLossHook (Some 0)) sv6
      in snd (start (smoke_env Q) sv7))"

definition loop_smoke ::
    "('c, 'n) qnethernet \<Rightarrow> json_library \<Rightarrow> ('c, 'n) smoke_firmware \<Rightarrow> ('c, 'n) smoke_firmware option" where
  "loop_smoke Q lib sv = service_server (smoke_env Q) lib sv"

definition power_on_smoke :: "('c, 'n) qnethernet \<Rightarrow> 'n \<Rightarrow> ('c, 'n) smoke_firmware" where
  "power_on_smoke Q n = new_server True ((configured_network_server Q network_config_smoke, n), ())"

section \<open>Bringing it up\<close>

definition smoke_registry :: command_registry where
  "smoke_registry =
     \<lparr>cr_lifecycle = Sealed, cr_identity_set = True,
      cr_identity = \<lparr>si_board_id = ''ethernet_smoke'', si_protocol_version = ''1'',
        si_firmware_version = ''0.1.0''\<rparr>,
      cr_commands = [stored_test ''smoke_ping'' [] (App_Handler 0)],
      cr_telemetry_fields = [\<lparr>sf_name = ''uptime_ms'', sf_type = Int_Type\<rparr>],
      cr_state_fields = [], cr_telemetry_provider = Some 0, cr_estop_hook = Some 0,
      cr_controller_loss_hook = Some 0\<rparr>"

lemma smoke_fits:
  "registry_ok smoke_registry"
  "length (line_of (schema_members smoke_registry (cr_identity smoke_registry) (- 1))) \<le> kBoardTxMaxLineBytes"
proof -
  show "registry_ok smoke_registry"
    by (simp add: registry_ok_def smoke_registry_def identity_bounded_def commands_ok_inv_def
        fields_ok_def args_ok_def name_ok_def stored_test_def limits)
  show "length (line_of (schema_members smoke_registry (cr_identity smoke_registry) (- 1))) \<le> kBoardTxMaxLineBytes"
    using length_dec_u64 [of "- 1"] length_dec_u64 [of kSchemaSeq]
    by (simp add: schema_members_def line_of_def smoke_registry_def stored_test_def command_member_def
      type_member_def quoted_plain plain_char_def limits dec_u64_def)
qed

lemma smoke_calls [simp]:
  "safetyHook (smoke_env Q) k w = (True, w)"
  "telemetryProvider (smoke_env Q) k o' ((s, n), x) =
     (case writeTelemetry_smoke Q o' n of (ok, o1, n1) \<Rightarrow> (ok, o1, ((s, n1), x)))"
  "commandHandler (smoke_env Q) k seq args o' w = (case smokePing o' of (res, o1) \<Rightarrow> (res, o1, w))"
  by (simp_all add: smoke_env_def smoke_board_def applySafeState_def)

lemma smoke_before_start:
  "\<exists>sv. setup_smoke Q (power_on_smoke Q n) = snd (start (smoke_env Q) sv) \<and>
     (let m = sh_context (tc_shared sv)
      in fm_network_config_set m \<and> fm_network m \<and> fm_clock m \<and> cr_lifecycle (fm_registry m) = Mutable \<and>
         (fm_registry m)\<lparr>cr_lifecycle := Sealed\<rparr> = smoke_registry \<and>
         fm_network_config m = network_config_smoke)"
proof -
  have ping: "Call_registerCommand \<lparr>cs_name = Some ''smoke_ping'', cs_args = None, cs_arg_count = 0,
      cs_blocked_by_estop = False\<rparr> (Some (App_Handler 0)) = test_command ''smoke_ping'' [] 0"
    by (simp add: test_command_def)
  show ?thesis
    unfolding setup_smoke_def Let_def ping
    by (intro exI conjI, rule refl)
       (simp_all add: power_on_smoke_def new_server_def setIdentity_server_def setIdentity_def
        copyRequired_valid limits new_registry_def setNetworkConfig_def status_ok_def ok_status_def
        network_config_smoke_def kListenPort_smoke_def Let_def configure_test_command name_ok_def
        registerTelemetrySchema_def on_registry_def registerTelemetryField_def registerField_def
        setTelemetryProvider_server_def setTelemetryProvider_def setEstopHook_server_def setEstopHook_def
        setControllerLossHook_server_def setControllerLossHook_def smoke_registry_def)
qed

lemma smoke_brings_up:
  "let sv = setup_smoke Q (power_on_smoke Q n); m = sh_context (tc_shared sv)
   in fm_started m \<and> fm_registry m = smoke_registry \<and> fm_clock m \<and>
      map_option (\<lambda>t. (ts_identity t, ts_provider t)) (fm_telemetry_scheduler m) =
        Some (registry_identity smoke_registry, Some 0) \<and>
      (\<exists>d. tc_session_driver sv = Some d \<and> sd_state d = NETWORK_STARTING \<and> sd_listen_port d = 5050)"
proof -
  obtain sv where sv: "setup_smoke Q (power_on_smoke Q n) = snd (start (smoke_env Q) sv)"
    and m: "fm_network_config_set (sh_context (tc_shared sv))" "fm_network (sh_context (tc_shared sv))"
    "fm_clock (sh_context (tc_shared sv))" "cr_lifecycle (fm_registry (sh_context (tc_shared sv))) = Mutable"
    "(fm_registry (sh_context (tc_shared sv)))\<lparr>cr_lifecycle := Sealed\<rparr> = smoke_registry"
    "fm_network_config (sh_context (tc_shared sv)) = network_config_smoke"
    using smoke_before_start [of Q n] by (auto simp: Let_def)
  have full: "cr_identity_set smoke_registry" "cr_telemetry_provider smoke_registry = Some 0"
    "cr_estop_hook smoke_registry \<noteq> None" "cr_controller_loss_hook smoke_registry \<noteq> None"
    by (simp_all add: smoke_registry_def)
  show ?thesis
    using start_brings_up [of sv "smoke_env Q", unfolded m(5,6) full(2), OF m(1-4) full(1) _ full(3,4) smoke_fits]
    by (simp add: sv Let_def network_config_smoke_def kListenPort_smoke_def)
qed

section \<open>The uptime it reports\<close>

inductive smoke_run :: "('c, 'n) qnethernet \<Rightarrow> json_library \<Rightarrow> 'n \<Rightarrow> ('c, 'n) smoke_firmware \<Rightarrow> bool"
  for Q lib n where
  sm_setup: "smoke_run Q lib n (setup_smoke Q (power_on_smoke Q n))"
| sm_loop: "smoke_run Q lib n sv \<Longrightarrow> loop_smoke Q lib sv = Some sv' \<Longrightarrow> smoke_run Q lib n sv'"
| sm_library: "smoke_run Q lib n sv \<Longrightarrow> smoke_run Q lib n (on_world (on_arduino f) sv)"

lemma smoke_run_reaches: "smoke_run Q lib n sv \<Longrightarrow> server_reaches (smoke_env Q) lib sv"
proof (induction rule: smoke_run.induct)
  case sm_setup
  then show ?case
    unfolding setup_smoke_def Let_def do_configure_def power_on_smoke_def by (intro sr_start sr_configure sr_new)
qed (auto simp: loop_smoke_def on_world_def intro: sr_service sr_world)

lemma smoke_run_config:
  "smoke_run Q lib n sv \<Longrightarrow> facade_config (sh_context (tc_shared sv)) =
     facade_config (sh_context (tc_shared (setup_smoke Q (power_on_smoke Q n))))"
proof (induction rule: smoke_run.induct)
  case (sm_loop sv sv')
  then show ?case
    using service_server_keeps [of "smoke_env Q" lib sv sv'] server_reaches_ok [OF smoke_run_reaches [OF sm_loop.hyps(1)]]
    by (simp add: loop_smoke_def)
qed simp_all

lemma smoke_run_telemetry:
  assumes "smoke_run Q lib n sv" and "fm_telemetry_scheduler (sh_context (tc_shared sv)) = Some t"
  shows "board_named (ts_identity t) ''ethernet_smoke''" and "ts_provider t = Some 0"
  using smoke_run_config [OF assms(1)] smoke_brings_up [of Q n] assms(2)
  by (auto simp: Let_def facade_config_def board_named_def registry_identity_def smoke_registry_def limits)

text \<open>The 32-bit number read as a signed one.\<close>

lemma signed_u32:
  fixes v :: u32
  shows "sint (signed v :: u64) = (if unat v < 2 ^ 31 then int (unat v) else int (unat v) - 2 ^ 32)"
proof -
  have "sint (signed v :: u64) = sint v"
    by (rule sint_up_scast) (simp add: is_up_def source_size_def target_size_def word_size)
  moreover have "int (unat v) = sint v mod 2 ^ 32"
    using uint_sint [of v] by (simp add: take_bit_eq_mod)
  moreover have "- (2 ^ 31) \<le> sint v" "sint v < 2 ^ 31"
    using sint_greater_eq [of v] sint_less [of v] by simp_all
  moreover have "i mod 2 ^ 32 = (if i < 0 then i + 2 ^ 32 else i)" if "- (2 ^ 31) \<le> i" "i < 2 ^ 31" for i :: int
    using that mod_pos_pos_trivial [of "i + 2 ^ 32" "2 ^ 32"] by (simp add: mod_pos_pos_trivial)
  ultimately show ?thesis by (simp only: of_nat_less_iff [symmetric, where 'a = int]) (simp split: if_splits)
qed

lemma smoke_line_fits:
  fixes v :: i32
  shows "length (line_of (telemetry_members ''ethernet_smoke'' seq now [(''uptime_ms'', JSigned (signed v))]))
     < kTelemetryJsonBufferBytes"
  using length_dec_u64 [of seq] length_dec_u64 [of now] length_dec_i32 [of v]
  by (simp add: line_of_def telemetry_members_def quoted_plain plain_char_def limits dec_i64_signed)

text \<open>
  C26: the smoke program reports its uptime as a signed 32-bit number. In every state it can reach, a
  due telemetry frame is queued whole, and its \<open>uptime_ms\<close> is the value of \<open>millis()\<close> as long as
  that is below 2^31; from then on, about 25 days after the start, it is that value less 2^32, a
  negative uptime.
\<close>

theorem smoke_reports_uptime:
  assumes "smoke_run Q lib n sv"
    and "fm_telemetry_scheduler (sh_context (tc_shared sv)) = Some t"
    and "qn_millis Q (snd (fst (sh_world (tc_shared sv)))) = (uptime, n1)"
    and "buildAndQueue (smoke_env Q) (t, c, s, sh_world (tc_shared sv)) = (ok, (t', c', s', w'))"
  shows "ok \<and> telemetry_dropped c' = telemetry_dropped c \<and>
     (\<exists>ts v. s' = s\<lparr>os_telemetry := Some (line_of (telemetry_members ''ethernet_smoke'' (ts_next_seq t) ts
         [(''uptime_ms'', JSigned v)]))\<rparr> \<and>
       sint v = (if unat uptime < 2 ^ 31 then int (unat uptime) else int (unat uptime) - 2 ^ 32))"
proof -
  note t = smoke_run_telemetry [OF assms(1,2)]
  obtain q k x where w: "sh_world (tc_shared sv) = ((q, k), x)" by (metis surj_pair)
  have "room_for [] (0 + 60) new_object_writer" by (rule room_new) (simp add: limits)
  moreover have "member_name ''uptime_ms''" by (simp add: member_name_def plain_char_def)
  ultimately obtain o1 where o1: "addInt_ow (Some ''uptime_ms'') uptime new_object_writer = (True, o1)"
    "ow_holds [(''uptime_ms'', JSigned (signed uptime))] o1"
    using addInt_room [of "[]" 0 new_object_writer "''uptime_ms''" uptime] by (auto simp: room_for_def)
  have call: "telemetryProvider (smoke_env Q) 0 new_object_writer ((q, k), x) = (True, o1, ((q, n1), x))"
    using assms(3) o1(1) by (simp add: w writeTelemetry_smoke_def)
  obtain now w2 where now: "monotonicMilliseconds (smoke_env Q) ((q, n1), x) = (now, w2)"
    by (cases "monotonicMilliseconds (smoke_env Q) ((q, n1), x)")
  have v: "sint (signed uptime :: 64 word) =
      (if unat uptime < 2 ^ 31 then int (unat uptime) else int (unat uptime) - 2 ^ 32)"
    by (simp only: signed_u32)
  have "ok \<and> telemetry_dropped c' = telemetry_dropped c \<and>
      s' = s\<lparr>os_telemetry := Some (line_of (telemetry_members ''ethernet_smoke'' (ts_next_seq t) now
         [(''uptime_ms'', JSigned (signed uptime))]))\<rparr>"
    using buildAndQueue_frame [OF t call o1(2) now, of c s ok t' c' s' w'] assms(4)
      smoke_line_fits [of "ts_next_seq t" now uptime]
    by (simp add: Let_def w)
  with v show ?thesis by blast
qed

lemma smoke_reports_uptime_witness:
  "\<exists>sv t t' c' s' w' ts v. smoke_run sample_qn sample_library 0 sv \<and>
     buildAndQueue (smoke_env sample_qn) (t, zero_counters, new_scheduler, sh_world (tc_shared sv))
       = (True, (t', c', s', w')) \<and>
     os_telemetry s' = Some (line_of (telemetry_members ''ethernet_smoke'' (ts_next_seq t) ts
         [(''uptime_ms'', JSigned v)])) \<and> sint v = - (2 ^ 31)"
proof -
  define sv where "sv = on_world (on_arduino (\<lambda>n. 2147483648)) (setup_smoke sample_qn (power_on_smoke sample_qn 0))"
  have run: "smoke_run sample_qn sample_library 0 sv" unfolding sv_def by (intro sm_library sm_setup)
  obtain t where t: "fm_telemetry_scheduler (sh_context (tc_shared sv)) = Some t"
    using smoke_brings_up [of sample_qn 0] by (auto simp: sv_def Let_def)
  have n: "snd (fst (sh_world (tc_shared sv))) = 2147483648"
    by (simp add: sv_def on_arduino_def split: prod.split)
  then have ms: "qn_millis sample_qn (snd (fst (sh_world (tc_shared sv)))) = (2147483648, 2147483648)"
    by (simp add: sample_qn_def)
  obtain ok t' c' s' w' where b: "buildAndQueue (smoke_env sample_qn)
      (t, zero_counters, new_scheduler, sh_world (tc_shared sv)) = (ok, (t', c', s', w'))" by (metis surj_pair)
  from smoke_reports_uptime [OF run t ms b] obtain ts v where "ok = True"
    "os_telemetry s' = Some (line_of (telemetry_members ''ethernet_smoke'' (ts_next_seq t) ts
         [(''uptime_ms'', JSigned v)]))" "sint v = - (2 ^ 31)" by auto
  with run b show ?thesis by (simp only:) blast
qed

end
