(* ===== verification/Wire.thy ===== *)
theory Wire
  imports SessionDriver
begin

text \<open>
  What the controller reads. The lines one session hands to \<open>src/core/OutboundWriter.h\<close> end up on one
  byte stream, which the peer cuts at the newlines. This theory compares what was handed over with
  what is read. The two agree as long as no telemetry frame expires half written; one that does is
  reported as dropped, but the part of it that is out stays there, and the next line joins it.
\<close>

section \<open>The sends of a session\<close>

text \<open>
  A session's sends, each with its class and result; between two sends the counters and the world may
  change, but nothing else goes out on the transport. The session goes on until a send asks for
  its teardown.
\<close>

type_synonym send = "bytes \<times> message_class \<times> outbound_send_result"

inductive session_sends ::
    "'w env \<Rightarrow> ('w \<Rightarrow> bytes) \<Rightarrow> 'w writer_state \<Rightarrow> send list \<Rightarrow> bool \<Rightarrow> 'w writer_state \<Rightarrow> bool"
  for E sent st0 where
  ss_none: "session_sends E sent st0 [] True st0"
| ss_send: "session_sends E sent st0 rs True st \<Longrightarrow> sendLine E (Some l) mc st = Some ((res, td), st') \<Longrightarrow>
     session_sends E sent st0 (rs @ [(l, mc, res)]) (td = None) st'"
| ss_other: "session_sends E sent st0 rs going (wr, c, w) \<Longrightarrow> sent w' = sent w \<Longrightarrow>
     session_sends E sent st0 rs going (wr, c', w')"

text \<open>The bytes that go out for a send.\<close>

definition send_piece :: "send \<Rightarrow> bytes \<Rightarrow> bool" where
  "send_piece s p \<longleftrightarrow>
     (case s of (l, mc, res) \<Rightarrow>
        (case res of
           Sent \<Rightarrow> isValidWireLine l \<and> p = l
         | DeadlineExpired \<Rightarrow> isValidWireLine l \<and> (\<exists>k < length l. p = take k l)
         | _ \<Rightarrow> p = []))"

lemma sendLine_piece:
  assumes "sendLine E (Some l) mc st = Some ((res, td), st')"
    and "faithful_transport E t sent" and "writer_ready t (fst st)"
  shows "writer_ready t (fst st') \<and>
     (\<exists>p. send_piece (l, mc, res) p \<and> sent (snd (snd st')) = sent (snd (snd st)) @ p)"
proof -
  obtain wr c w wr' c' w' where st: "st = (wr, c, w)" "st' = (wr', c', w')" by (metis surj_pair)
  note send = assms(1) [unfolded st]
  have "writer_ready t wr'" using assms(3) sendLine_frame [OF send] by (simp add: st writer_ready_def)
  moreover have "\<exists>p. send_piece (l, mc, res) p \<and> sent w' = sent w @ p"
  proof (cases "isValidWireLine l")
    case True
    from sendLine_ready [OF send _ True assms(2)] assms(3) True show ?thesis
      by (auto simp: send_piece_def st)
  next
    case False
    then have "\<not> (\<exists>l' t'. Some l = Some l' \<and> isValidWireLine l' \<and> writer_ready t' (fst (wr, c, w)))" by simp
    from sendLine_not_ready [OF send this] show ?thesis by (auto simp: send_piece_def)
  qed
  ultimately show ?thesis by (simp add: st)
qed

lemma session_sends_pieces:
  assumes "session_sends E sent st0 rs going st"
    and "faithful_transport E t sent" and "writer_ready t (fst st0)"
  shows "writer_ready t (fst st) \<and>
     (\<exists>ps. list_all2 send_piece rs ps \<and> sent (snd (snd st)) = sent (snd (snd st0)) @ concat ps)"
  using assms(1)
proof induction
  case ss_none
  with assms(3) show ?case by (intro conjI exI [of _ "[]"]) simp_all
next
  case (ss_send rs st l mc res td st')
  then obtain ps where ready: "writer_ready t (fst st)"
    and ps: "list_all2 send_piece rs ps" "sent (snd (snd st)) = sent (snd (snd st0)) @ concat ps" by blast
  from sendLine_piece [OF ss_send.hyps(2) assms(2) ready] obtain p where ready': "writer_ready t (fst st')"
    and p: "send_piece (l, mc, res) p" "sent (snd (snd st')) = sent (snd (snd st)) @ p" by blast
  have "list_all2 send_piece (rs @ [(l, mc, res)]) (ps @ [p])"
    using ps(1) p(1) by (simp add: list_all2_appendI)
  with ready' ps(2) p(2) show ?case by (intro conjI exI [of _ "ps @ [p]"]) simp_all
qed simp

text \<open>
  These are the sends of the session driver: a send of an active session extends the run, and the
  session goes on exactly when the driver has no teardown to apply.
\<close>

lemma sendActiveLine_extends:
  assumes "sendActiveLine E (Some l) mc (d, c, w) = Some (res, (d', c', w'))"
    and "sessionActive d" and "\<not> sd_teardown_pending d"
    and "session_sends E sent st0 rs True (sd_writer d, c, w)"
  shows "session_sends E sent st0 (rs @ [(l, mc, res)]) (\<not> sd_teardown_pending d') (sd_writer d', c', w')"
proof -
  obtain td wr where send: "sendLine E (Some l) mc (sd_writer d, c, w) = Some ((res, td), (wr, c', w'))"
    and d': "d' = teardown_callback td (d\<lparr>sd_writer := wr\<rparr>)"
    using assms(1-3) by (auto simp: sendActiveLine_def split: option.splits)
  have "(td = None) = (\<not> sd_teardown_pending d')" "sd_writer d' = wr"
    using assms(3) by (auto simp: d' teardown_callback_def requestTeardown_def transitionTo_def Let_def split: option.split)
  with ss_send [OF assms(4) send] show ?thesis by simp
qed

section \<open>The lines the peer reads\<close>

text \<open>
  \<open>torn\<close> is what earlier, abandoned frames have left after the last newline. It becomes the start of
  the next line that is sent whole.
\<close>

fun received :: "bytes \<Rightarrow> (outbound_send_result \<times> bytes) list \<Rightarrow> bytes list" where
  "received torn [] = []"
| "received torn ((res, p) # sends) =
     (if res = Sent then (torn @ butlast p) # received [] sends else received (torn @ p) sends)"

lemma cut_free: "LF \<notin> set p \<Longrightarrow> cut acc (p @ s) = cut (acc @ p) s"
  by (induction p arbitrary: acc) auto

lemma cut_line:
  assumes "isValidWireLine l"
  shows "fst (cut acc (l @ s)) = (acc @ butlast l) # fst (cut [] s)"
proof -
  have l: "l @ s = butlast l @ LF # s" "LF \<notin> set (butlast l)"
    using assms append_butlast_last_id [of l] by (auto simp: isValidWireLine_def)
  show ?thesis by (simp only: l(1) cut_free [OF l(2)]) (simp add: split_beta)
qed

lemma torn_piece:
  assumes "isValidWireLine l" and "k < length l"
  shows "LF \<notin> set (take k l)"
proof -
  have "take k l = take k (butlast l)" using assms(2) by (auto simp: butlast_conv_take min_def)
  then show ?thesis using assms(1) in_set_takeD [of LF k "butlast l"] by (auto simp: isValidWireLine_def)
qed

lemma received_cut:
  "list_all2 send_piece rs ps \<Longrightarrow>
     fst (cut torn (concat ps)) = received torn (zip (map (\<lambda>(l, mc, res). res) rs) ps)"
proof (induction arbitrary: torn rule: list_all2_induct)
  case Nil
  then show ?case by simp
next
  case (Cons r rs p ps)
  obtain l mc res where r: "r = (l, mc, res)" by (cases r)
  have free: "LF \<notin> set p" if "res \<noteq> Sent"
    using Cons.hyps(1) torn_piece that by (auto simp: r send_piece_def split: outbound_send_result.splits)
  show ?case
  proof (cases "res = Sent")
    case True
    with Cons.hyps(1) have "isValidWireLine p" by (simp add: r send_piece_def)
    from cut_line [OF this] Cons.IH [of "[]"] True show ?thesis by (simp add: r)
  next
    case False
    from cut_free [OF free [OF False]] Cons.IH [of "torn @ p"] False show ?thesis by (simp add: r)
  qed
qed

text \<open>Without an expired send these are the lines that were sent.\<close>

definition sent_lines :: "send list \<Rightarrow> bytes list" where
  "sent_lines rs = map (\<lambda>(l, mc, res). butlast l) (filter (\<lambda>(l, mc, res). res = Sent) rs)"

lemma received_whole:
  "list_all2 send_piece rs ps \<Longrightarrow> list_all (\<lambda>(l, mc, res). res \<noteq> DeadlineExpired) rs \<Longrightarrow>
     received [] (zip (map (\<lambda>(l, mc, res). res) rs) ps) = sent_lines rs"
proof (induction rule: list_all2_induct)
  case Nil
  then show ?case by (simp add: sent_lines_def)
next
  case (Cons r rs p ps)
  obtain l mc res where r: "r = (l, mc, res)" by (cases r)
  have "res = Sent \<and> p = l \<or> res \<noteq> Sent \<and> p = []"
    using Cons.hyps(1) Cons.prems by (auto simp: r send_piece_def split: outbound_send_result.splits)
  with Cons.IH Cons.prems show ?case by (auto simp: r sent_lines_def)
qed

lemma open_session_critical:
  assumes "session_sends E sent st0 rs going st" and "faithful_transport E t sent" and "writer_ready t (fst st0)"
  shows "going \<longrightarrow> list_all (\<lambda>(l, mc, res). res = DeadlineExpired \<longrightarrow> mc = Telemetry_Class) rs"
  using assms(1)
proof induction
  case (ss_send rs st l mc res td st')
  have ready: "writer_ready t (fst st)"
    using session_sends_pieces [OF ss_send.hyps(1) assms(2,3)] by blast
  obtain wr c w wr' c' w' where st: "st = (wr, c, w)" "st' = (wr', c', w')" by (metis surj_pair)
  have "res = DeadlineExpired \<longrightarrow> mc = Telemetry_Class" if "td = None"
  proof (cases "isValidWireLine l")
    case True
    from sendLine_ready [OF ss_send.hyps(2) [unfolded st] _ True assms(2)] ready that show ?thesis
      by (cases mc) (auto simp: st handleDeadline_def)
  next
    case False
    then have "\<not> (\<exists>l' t'. Some l = Some l' \<and> isValidWireLine l' \<and> writer_ready t' (fst st))" by simp
    from sendLine_not_ready [OF ss_send.hyps(2) this] show ?thesis by auto
  qed
  with ss_send.IH show ?case by simp
qed simp_all

text \<open>
  C5: what the controller reads. In a session whose stream begins empty, the lines the peer can cut
  out of the stream are the lines the server sent, in order, each once and whole, if no send
  expired. A send that expires leaves the part that is out. For a critical message the session ends
  with it; a telemetry frame is dropped and the session goes on, and then the line sent next is
  read with that part in front of it.
\<close>

theorem peer_reads_lines:
  assumes "session_sends E sent (bindTransport t attached_writer, c, w) rs going (wr', c', w')"
    and "faithful_transport E t sent" and "sent w = []"
  shows "(\<exists>ps. list_all2 send_piece rs ps \<and> sent w' = concat ps \<and>
       lines (sent w') = received [] (zip (map (\<lambda>(l, mc, res). res) rs) ps)) \<and>
     (list_all (\<lambda>(l, mc, res). res \<noteq> DeadlineExpired) rs \<longrightarrow> lines (sent w') = sent_lines rs) \<and>
     (going \<longrightarrow> list_all (\<lambda>(l, mc, res). res = DeadlineExpired \<longrightarrow> mc = Telemetry_Class) rs)"
proof -
  have ready: "writer_ready t (fst (bindTransport t attached_writer, c, w))"
    by (simp add: writer_ready_def bindTransport_def beginSession_def attached_writer_def default_writer_def)
  from session_sends_pieces [OF assms(1,2) ready] assms(3) obtain ps where
    ps: "list_all2 send_piece rs ps" "sent w' = concat ps" by auto
  have cut: "lines (sent w') = received [] (zip (map (\<lambda>(l, mc, res). res) rs) ps)"
    using received_cut [OF ps(1), of "[]"] by (simp add: lines_def ps(2))
  with received_whole [OF ps(1)] ps open_session_critical [OF assms(1,2) ready] show ?thesis by auto
qed

text \<open>
  Half a telemetry frame and an acknowledgement: on a transport that takes one byte at a time and a
  network that needs 60 ms in between, a frame of four bytes expires after two of them, and the
  controller never sees the line sent after it.
\<close>

definition slow_env :: "(nat \<times> bytes) env" where
  "slow_env = (sample_env 1)\<lparr>progress := \<lambda>(t, s). (t + 60, s)\<rparr>"

lemma slow_env_faithful: "faithful_transport slow_env t snd"
  by (auto simp: faithful_transport_def slow_env_def sample_env_def split_beta min_def)

definition bound_writer :: outbound_writer where
  "bound_writer = bindTransport 0 attached_writer"

lemma slow_sends:
  "sendLine slow_env (Some (''abc'' @ [LF])) Telemetry_Class (bound_writer, zero_counters, (0, [])) =
     Some ((DeadlineExpired, None), (bound_writer\<lparr>wr_failures := 1\<rparr>, increment telemetry_dropped_update zero_counters, (120, ''ab'')))"
  "sendLine slow_env (Some [LF]) Critical (bound_writer\<lparr>wr_failures := 1\<rparr>, c, (120, ''ab'')) =
     Some ((Sent, None), (bound_writer\<lparr>wr_failures := 1\<rparr>, c, (120, ''ab'' @ [LF])))"
proof -
  note run = sendLine_def sendValidLine_def send_loop.simps isValidWireLine_def bound_writer_def
    bindTransport_def beginSession_def attached_writer_def default_writer_def slow_env_def sample_env_def
    deadlineExpired_def handleDeadline_def Let_def limits
  show "sendLine slow_env (Some (''abc'' @ [LF])) Telemetry_Class (bound_writer, zero_counters, (0, [])) =
     Some ((DeadlineExpired, None), (bound_writer\<lparr>wr_failures := 1\<rparr>, increment telemetry_dropped_update zero_counters, (120, ''ab'')))"
    by (simp add: run word_le_nat_alt)
  show "sendLine slow_env (Some [LF]) Critical (bound_writer\<lparr>wr_failures := 1\<rparr>, c, (120, ''ab'')) =
     Some ((Sent, None), (bound_writer\<lparr>wr_failures := 1\<rparr>, c, (120, ''ab'' @ [LF])))"
    by (simp add: run)
qed

lemma peer_reads_lines_witness:
  "\<exists>st. session_sends slow_env snd (bindTransport 0 attached_writer, zero_counters, (0, []))
      [(''abc'' @ [LF], Telemetry_Class, DeadlineExpired), ([LF], Critical, Sent)] True st \<and>
     lines (snd (snd (snd st))) = [''ab''] \<and> [] \<notin> set (lines (snd (snd (snd st))))"
proof -
  let ?rs = "[(''abc'' @ [LF], Telemetry_Class, DeadlineExpired), ([LF], Critical, Sent)]"
  let ?c = "increment telemetry_dropped_update zero_counters"
  let ?st = "(bound_writer\<lparr>wr_failures := 1\<rparr>, ?c, (120 :: nat, ''ab'' @ [LF]))"
  have "session_sends slow_env snd (bound_writer, zero_counters, (0, []))
      [(''abc'' @ [LF], Telemetry_Class, DeadlineExpired)] True
      (bound_writer\<lparr>wr_failures := 1\<rparr>, ?c, (120, ''ab''))"
    using ss_send [OF ss_none slow_sends(1)] by simp
  from ss_send [OF this slow_sends(2)] have
    run: "session_sends slow_env snd (bindTransport 0 attached_writer, zero_counters, (0, [])) ?rs True ?st"
    by (simp add: bound_writer_def)
  have out: "snd (120 :: nat, ''ab'' @ [LF]) = ''ab'' @ [LF]" by simp
  from peer_reads_lines [OF run slow_env_faithful] obtain ps where
    ps: "list_all2 send_piece ?rs ps" "''ab'' @ [LF] = concat ps"
      "lines (''ab'' @ [LF]) = received [] (zip [DeadlineExpired, Sent] ps)" by auto
  then obtain p where "ps = [p, [LF]]" by (auto simp: list_all2_Cons1 send_piece_def)
  with ps(2,3) have "lines (''ab'' @ [LF]) = [''ab'']" by simp
  with run show ?thesis by (intro exI [of _ ?st]) simp
qed

end
